(* ===== verification/Prelude.thy ===== *)
theory Prelude imports Main "HOL-Library.Word" begin

text \<open>
  Shared vocabulary of the development: the results of Go calls (a value, an error, a panic, or
  a wait that the given schedule does not end), the sequencing of calls over a history of
  interactions with the outside world, and the generic lemmas on lists and histories.

  A Go statement \<open>x, err := m(); if err != nil { return err }\<close> is \<open>andThen m (\<lambda>x. ...)\<close>; a call
  whose error is inspected is \<open>handle m onValue onError\<close>; a call whose error is dropped
  (\<open>_ = m()\<close>) is \<open>ignoreErr m\<close>. A call to the outside is \<open>call\<close>: the answer is a function of the
  history so far, and the call with its answer is recorded at the head of the history. The history
  is thus both everything the environment can react to and the trace that safety properties are
  about.
\<close>

section \<open>Numbers, bytes and errors\<close>

type_synonym u64 = "64 word"
type_synonym byte = "8 word"
type_synonym bytes = "byte list"

text \<open>
  The sentinel errors of the packages, errors of the Go standard library that the code tells
  apart, errors of outside code (\<open>Ext\<close>), errors made on the spot (\<open>Errorf\<close>), and
  \<open>errors.Wrap\<close>.
\<close>

datatype go_error =
    Canceled | DeadlineExceeded
  | RoutingNotFound
  | OsNotExist
  | Ext string
  | Errorf string
  | Wrap go_error string
  | ErrSyntax | ErrRange | ErrHexLength | ErrHexByte | ErrJson
  | ErrInvalid | ErrEmpty
  | ErrAttestationNotFound | ErrUnknownAttestationType | ErrUnmarshalValset
  | ErrAttestationNotDataCommitmentRequest
  | ErrCouldntReachSpecifiedHeight | ErrNotFound
  | ErrPeersTimeout | ErrPeersThresholdCannotBeNegative | ErrNilPrivateKey
  | ErrNotEnoughValsetConfirms | ErrNotEnoughDataCommitmentConfirms
  | ErrInvalidConfirmNamespace | ErrInvalidEVMAddress | ErrNotTheSameEVMAddress
  | ErrInvalidConfirmKey | ErrNoValues | ErrNoValidValueFound | ErrEmptyNamespace
  | ErrEmptyEVMAddr | ErrEmptyDigest | ErrEmptyValset | ErrInvalidLatestValsetKey
  | ErrEmptyPeersTable | ErrSignalChanNotif
  | ErrValidatorSetMismatch | ErrTransactionStillPending
  | ErrOpened | ErrNotInited | ErrLocked
  | ErrNilAttestation | ErrUnmarshallValset

text \<open>\<open>errors.Is\<close>: the error itself or one it wraps.\<close>

fun errors_Is :: "go_error \<Rightarrow> go_error \<Rightarrow> bool" where
  "errors_Is (Wrap e m) t = (Wrap e m = t \<or> errors_Is e t)"
| "errors_Is e t = (e = t)"

section \<open>Results\<close>

text \<open>
  \<open>Blocked\<close> is the result of a loop over a \<open>select\<close> that is still waiting when the number of
  rounds it was given is used up.
\<close>

datatype 'a outcome = Ok 'a | Err go_error | Panic string | Blocked

primrec is_Ok :: "'a outcome \<Rightarrow> bool" where
  "is_Ok (Ok x) = True"
| "is_Ok (Err e) = False"
| "is_Ok (Panic p) = False"
| "is_Ok Blocked = False"

primrec is_Err :: "'a outcome \<Rightarrow> bool" where
  "is_Err (Ok x) = False"
| "is_Err (Err e) = True"
| "is_Err (Panic p) = False"
| "is_Err Blocked = False"

primrec obind :: "'a outcome \<Rightarrow> ('a \<Rightarrow> 'b outcome) \<Rightarrow> 'b outcome" where
  "obind (Ok x) f = f x"
| "obind (Err e) f = Err e"
| "obind (Panic p) f = Panic p"
| "obind Blocked f = Blocked"

text \<open>\<open>if cond { return err }\<close>\<close>

definition guard :: "bool \<Rightarrow> go_error \<Rightarrow> unit outcome" where
  "guard b e = (if b then Ok () else Err e)"

text \<open>\<open>if err != nil { return f(err) }\<close>\<close>

primrec mapErr :: "(go_error \<Rightarrow> go_error) \<Rightarrow> 'a outcome \<Rightarrow> 'a outcome" where
  "mapErr f (Ok x) = Ok x"
| "mapErr f (Err e) = Err (f e)"
| "mapErr f (Panic p) = Panic p"
| "mapErr f Blocked = Blocked"

lemma is_Ok_iff: "is_Ok r \<longleftrightarrow> (\<exists>x. r = Ok x)"
  by (cases r) auto

lemma is_Err_iff: "is_Err r \<longleftrightarrow> (\<exists>e. r = Err e)"
  by (cases r) auto

lemma obind_eq_Ok: "obind m f = Ok y \<longleftrightarrow> (\<exists>x. m = Ok x \<and> f x = Ok y)"
  by (cases m) auto

lemma obind_assoc: "obind (obind m f) g = obind m (\<lambda>x. obind (f x) g)"
  by (cases m) auto

lemma guard_eq_Ok [simp]: "guard b e = Ok u \<longleftrightarrow> b"
  by (simp add: guard_def)

lemma guard_True [simp]: "guard True e = Ok ()"
  and guard_False [simp]: "guard False e = Err e"
  by (simp_all add: guard_def)

lemma mapErr_eq_Ok [simp]: "mapErr f m = Ok y \<longleftrightarrow> m = Ok y"
  by (cases m) auto

section \<open>Calls over a history\<close>

type_synonym ('e, 'a) io = "'e list \<Rightarrow> 'a outcome \<times> 'e list"

definition ret :: "'a \<Rightarrow> ('e, 'a) io" where
  "ret x h = (Ok x, h)"

definition throw :: "go_error \<Rightarrow> ('e, 'a) io" where
  "throw e h = (Err e, h)"

definition panic :: "string \<Rightarrow> ('e, 'a) io" where
  "panic p h = (Panic p, h)"

definition lift :: "'a outcome \<Rightarrow> ('e, 'a) io" where
  "lift r h = (r, h)"

definition andThen :: "('e, 'a) io \<Rightarrow> ('a \<Rightarrow> ('e, 'b) io) \<Rightarrow> ('e, 'b) io" where
  "andThen m f h = (case m h of (r, h') \<Rightarrow>
     (case r of Ok x \<Rightarrow> f x h' | Err e \<Rightarrow> (Err e, h') | Panic p \<Rightarrow> (Panic p, h') | Blocked \<Rightarrow> (Blocked, h')))"

definition handle ::
  "('e, 'a) io \<Rightarrow> ('a \<Rightarrow> ('e, 'b) io) \<Rightarrow> (go_error \<Rightarrow> ('e, 'b) io) \<Rightarrow> ('e, 'b) io" where
  "handle m f g h = (case m h of (r, h') \<Rightarrow>
     (case r of Ok x \<Rightarrow> f x h' | Err e \<Rightarrow> g e h' | Panic p \<Rightarrow> (Panic p, h') | Blocked \<Rightarrow> (Blocked, h')))"

definition ignoreErr :: "('e, 'a) io \<Rightarrow> ('e, unit) io" where
  "ignoreErr m = handle m (\<lambda>_. ret ()) (\<lambda>_. ret ())"

definition call :: "('e list \<Rightarrow> 'a outcome) \<Rightarrow> ('a outcome \<Rightarrow> 'e) \<Rightarrow> ('e, 'a) io" where
  "call answer ev h = (answer h, ev (answer h) # h)"

text \<open>Reading something of the outside that is a plain value (a context, a clock, a counter).\<close>

definition observe :: "('e list \<Rightarrow> 'a) \<Rightarrow> ('a \<Rightarrow> 'e) \<Rightarrow> ('e, 'a) io" where
  "observe answer ev h = (Ok (answer h), ev (answer h) # h)"

named_theorems io_simps

lemma ret_run [simp, io_simps]: "ret x h = (Ok x, h)"
  by (simp add: ret_def)

lemma throw_run [simp, io_simps]: "throw e h = (Err e, h)"
  by (simp add: throw_def)

lemma panic_run [simp, io_simps]: "panic p h = (Panic p, h)"
  by (simp add: panic_def)

lemma lift_run [simp, io_simps]: "lift r h = (r, h)"
  by (simp add: lift_def)

lemma call_run [simp, io_simps]: "call f ev h = (f h, ev (f h) # h)"
  by (simp add: call_def)

lemma observe_run [simp, io_simps]: "observe f ev h = (Ok (f h), ev (f h) # h)"
  by (simp add: observe_def)

lemma andThen_Ok [io_simps]: "m h = (Ok x, h') \<Longrightarrow> andThen m f h = f x h'"
  by (simp add: andThen_def)

lemma andThen_Err [io_simps]: "m h = (Err e, h') \<Longrightarrow> andThen m f h = (Err e, h')"
  by (simp add: andThen_def)

lemma andThen_Panic [io_simps]: "m h = (Panic p, h') \<Longrightarrow> andThen m f h = (Panic p, h')"
  by (simp add: andThen_def)

lemma andThen_Blocked [io_simps]: "m h = (Blocked, h') \<Longrightarrow> andThen m f h = (Blocked, h')"
  by (simp add: andThen_def)

lemma handle_Ok [io_simps]: "m h = (Ok x, h') \<Longrightarrow> handle m f g h = f x h'"
  by (simp add: handle_def)

lemma handle_Err [io_simps]: "m h = (Err e, h') \<Longrightarrow> handle m f g h = g e h'"
  by (simp add: handle_def)

lemma handle_Panic [io_simps]: "m h = (Panic p, h') \<Longrightarrow> handle m f g h = (Panic p, h')"
  by (simp add: handle_def)

lemma handle_Blocked [io_simps]: "m h = (Blocked, h') \<Longrightarrow> handle m f g h = (Blocked, h')"
  by (simp add: handle_def)

lemma andThen_ret [simp]: "andThen (ret x) f = f x"
  by (rule ext) (simp add: andThen_def)

lemma andThen_throw [simp]: "andThen (throw e) f = throw e"
  by (rule ext) (simp add: andThen_def)

lemma andThen_panic [simp]: "andThen (panic p) f = panic p"
  by (rule ext) (simp add: andThen_def)

lemma andThen_observe [simp]: "andThen (observe a ev) f h = f (a h) (ev (a h) # h)"
  by (simp add: andThen_def)

lemma andThen_eq_Ok:
  "andThen m f h = (Ok y, h') \<longleftrightarrow> (\<exists>x h1. m h = (Ok x, h1) \<and> f x h1 = (Ok y, h'))"
  by (auto simp: andThen_def split: prod.splits outcome.splits)

lemma andThen_OkE:
  assumes "andThen m f h = (Ok y, h')"
  obtains x h1 where "m h = (Ok x, h1)" and "f x h1 = (Ok y, h')"
  using assms by (auto simp: andThen_eq_Ok)

lemma ignoreErr_run:
  "ignoreErr m h = (case m h of (r, h') \<Rightarrow>
     ((case r of Panic p \<Rightarrow> Panic p | Blocked \<Rightarrow> Blocked | _ \<Rightarrow> Ok ()), h'))"
  by (simp add: ignoreErr_def handle_def split: prod.splits outcome.splits)

section \<open>What a piece of code may do to the history\<close>

text \<open>\<open>emits P m\<close>: running \<open>m\<close> only adds events to the history, each of which satisfies \<open>P\<close>.\<close>

definition emits :: "('e \<Rightarrow> bool) \<Rightarrow> ('e, 'a) io \<Rightarrow> bool" where
  "emits P m \<longleftrightarrow> (\<forall>h. \<exists>t. snd (m h) = t @ h \<and> (\<forall>e \<in> set t. P e))"

named_theorems emits_intros

lemma emitsI: "(\<And>h. \<exists>t. snd (m h) = t @ h \<and> (\<forall>e \<in> set t. P e)) \<Longrightarrow> emits P m"
  by (simp add: emits_def)

lemma emitsD: "emits P m \<Longrightarrow> m h = (r, h') \<Longrightarrow> \<exists>t. h' = t @ h \<and> (\<forall>e \<in> set t. P e)"
  by (metis emits_def snd_conv)

lemma emits_mono: "emits P m \<Longrightarrow> (\<And>e. P e \<Longrightarrow> Q e) \<Longrightarrow> emits Q m"
  by (fastforce simp: emits_def)

lemma emits_ret [emits_intros, intro, simp]: "emits P (ret x)"
  by (simp add: emits_def)

lemma emits_throw [emits_intros, intro, simp]: "emits P (throw e)"
  by (simp add: emits_def)

lemma emits_panic [emits_intros, intro, simp]: "emits P (panic p)"
  by (simp add: emits_def)

lemma emits_lift [emits_intros, intro, simp]: "emits P (lift r)"
  by (simp add: emits_def)

lemma emits_call [emits_intros]: "(\<And>r. P (ev r)) \<Longrightarrow> emits P (call f ev)"
  by (simp add: emits_def)

lemma emits_observe [emits_intros]: "(\<And>r. P (ev r)) \<Longrightarrow> emits P (observe f ev)"
  by (simp add: emits_def)

lemma emits_handle [emits_intros]:
  assumes "emits P m" and "\<And>x. emits P (f x)" and "\<And>e. emits P (g e)"
  shows "emits P (handle m f g)"
proof (rule emitsI)
  fix h
  obtain r h1 where m: "m h = (r, h1)" by fastforce
  with assms(1) obtain t where t: "h1 = t @ h" "\<forall>e \<in> set t. P e" by (auto dest: emitsD)
  have "\<exists>t'. snd (handle m f g h) = t' @ h1 \<and> (\<forall>e \<in> set t'. P e)"
    using m assms(2,3) by (cases r) (auto simp: handle_def emits_def)
  then obtain t' where "snd (handle m f g h) = t' @ h1" "\<forall>e \<in> set t'. P e" by blast
  with t have "snd (handle m f g h) = (t' @ t) @ h \<and> (\<forall>e \<in> set (t' @ t). P e)" by auto
  then show "\<exists>t. snd (handle m f g h) = t @ h \<and> (\<forall>e \<in> set t. P e)" by blast
qed

lemma andThen_handle: "andThen m f = handle m f throw"
  by (rule ext) (simp add: andThen_def handle_def split: prod.splits outcome.splits)

lemma emits_andThen [emits_intros]:
  "emits P m \<Longrightarrow> (\<And>x. emits P (f x)) \<Longrightarrow> emits P (andThen m f)"
  by (simp add: andThen_handle emits_handle)

lemma emits_ignoreErr [emits_intros]: "emits P m \<Longrightarrow> emits P (ignoreErr m)"
  by (simp add: ignoreErr_def emits_handle)

lemma emits_if [emits_intros]:
  "(b \<Longrightarrow> emits P m) \<Longrightarrow> (\<not> b \<Longrightarrow> emits P m') \<Longrightarrow> emits P (if b then m else m')"
  by simp

lemma emits_option [emits_intros]:
  "(x = None \<Longrightarrow> emits P m) \<Longrightarrow> (\<And>y. x = Some y \<Longrightarrow> emits P (f y)) \<Longrightarrow> emits P (case x of None \<Rightarrow> m | Some y \<Rightarrow> f y)"
  by (cases x) simp_all

lemma emits_prod [emits_intros]:
  "(\<And>a b. x = (a, b) \<Longrightarrow> emits P (f a b)) \<Longrightarrow> emits P (case x of (a, b) \<Rightarrow> f a b)"
  by (cases x) simp

lemma emits_list [emits_intros]:
  "(xs = [] \<Longrightarrow> emits P m) \<Longrightarrow> (\<And>y ys. xs = y # ys \<Longrightarrow> emits P (f y ys)) \<Longrightarrow>
   emits P (case xs of [] \<Rightarrow> m | y # ys \<Rightarrow> f y ys)"
  by (cases xs) simp_all

lemma emits_outcome [emits_intros]:
  "(\<And>y. x = Ok y \<Longrightarrow> emits P (f y)) \<Longrightarrow> (\<And>e. x = Err e \<Longrightarrow> emits P (g e)) \<Longrightarrow>
   (\<And>p. x = Panic p \<Longrightarrow> emits P (k p)) \<Longrightarrow> (x = Blocked \<Longrightarrow> emits P b) \<Longrightarrow>
   emits P (case x of Ok y \<Rightarrow> f y | Err e \<Rightarrow> g e | Panic p \<Rightarrow> k p | Blocked \<Rightarrow> b)"
  by (cases x) simp_all

text \<open>An event that is new after a sequence and that the first part does not emit is new after the second.\<close>

lemma handle_eq_Ok:
  "handle m f g h = (Ok y, h') \<longleftrightarrow>
     (\<exists>h1. (\<exists>x. m h = (Ok x, h1) \<and> f x h1 = (Ok y, h')) \<or> (\<exists>e. m h = (Err e, h1) \<and> g e h1 = (Ok y, h')))"
  by (auto simp: handle_def split: prod.splits outcome.splits)

lemma new_event_andThen:
  assumes "emits P m" and "\<not> P e" and "e \<in> set (snd (andThen m f h))" and "e \<notin> set h"
  shows "\<exists>x h1. m h = (Ok x, h1) \<and> e \<notin> set h1 \<and> e \<in> set (snd (f x h1))"
proof -
  obtain r h1 where m: "m h = (r, h1)" by fastforce
  then have "e \<notin> set h1" using assms(1,2,4) by (fastforce dest: emitsD)
  then show ?thesis using assms(3) m by (cases r) (auto simp: andThen_def)
qed

text \<open>
  Loops over a list stop at the first error, as \<open>for _, x := range xs { ... return err }\<close> does.
\<close>

fun forEach :: "'a list \<Rightarrow> ('a \<Rightarrow> ('e, unit) io) \<Rightarrow> ('e, unit) io" where
  "forEach [] f = ret ()"
| "forEach (x # xs) f = andThen (f x) (\<lambda>_. forEach xs f)"

lemma emits_forEach [emits_intros]: "(\<And>x. x \<in> set xs \<Longrightarrow> emits P (f x)) \<Longrightarrow> emits P (forEach xs f)"
  by (induction xs) (auto intro!: emits_intros)

section \<open>Words\<close>

lemma unat_u64_less [simp]: "unat (x :: u64) < 18446744073709551616"
  by (rule order_less_le_trans [OF unsigned_less]) simp

lemma unat_byte_less [simp]: "unat (b :: byte) < 256"
  by (rule order_less_le_trans [OF unsigned_less]) simp

section \<open>Lists\<close>

lemma sum_list_map_of_bool_filter:
  "sum_list (map f (filter p xs)) = sum_list (map (\<lambda>x. if p x then f x else 0) xs)"
  by (induction xs) auto

lemma map_of_rev_distinct:
  "distinct (map fst xs) \<Longrightarrow> map_of (rev xs) = map_of xs"
  by (rule map_of_eqI) (auto simp: rev_map [symmetric] distinct_map)

end
