(* ===== verification/GoStd.thy ===== *)
theory GoStd imports Prelude begin

text \<open>
  What the source uses of the Go standard library: \<open>strings\<close> (Split, HasPrefix, EqualFold,
  ToLower), \<open>strconv\<close> (FormatUint, ParseUint, Atoi) and \<open>encoding/hex\<close>. A Go string is a list of
  bytes and so is \<open>string\<close> here (a \<open>char\<close> is a byte).

  \<open>EqualFold\<close> and \<open>ToLower\<close> are the ASCII rules. The source compares with \<open>EqualFold\<close> only against
  strings that have passed \<open>IsHexAddress\<close>; for those the ASCII rule is exact, since the only
  non-ASCII code points that fold to an ASCII letter fold to k and s.
\<close>

section \<open>strings\<close>

fun Split :: "char \<Rightarrow> string \<Rightarrow> string list" where
  "Split c [] = [[]]"
| "Split c (x # xs) =
     (if x = c then [] # Split c xs
      else (case Split c xs of [] \<Rightarrow> [[x]] | p # ps \<Rightarrow> (x # p) # ps))"

fun HasPrefix :: "string \<Rightarrow> string \<Rightarrow> bool" where
  "HasPrefix s [] = True"
| "HasPrefix [] (p # ps) = False"
| "HasPrefix (x # s) (p # ps) = (x = p \<and> HasPrefix s ps)"

definition lower_char :: "char \<Rightarrow> char" where
  "lower_char c = (let n = of_char c :: nat in if 65 \<le> n \<and> n \<le> 90 then char_of (n + 32) else c)"

definition ToLower :: "string \<Rightarrow> string" where
  "ToLower s = map lower_char s"

definition EqualFold :: "string \<Rightarrow> string \<Rightarrow> bool" where
  "EqualFold a b \<longleftrightarrow> ToLower a = ToLower b"

lemma Split_not_Nil [simp]: "Split c s \<noteq> []"
  by (induction s) (auto split: list.splits)

lemma Split_fresh: "c \<notin> set s \<Longrightarrow> Split c s = [s]"
  by (induction s) auto

lemma Split_append: "c \<notin> set p \<Longrightarrow> Split c (p @ c # s) = p # Split c s"
  by (induction p) auto

lemma Split_fresh_parts: "p \<in> set (Split c s) \<Longrightarrow> c \<notin> set p"
  by (induction s arbitrary: p) (auto split: list.splits if_splits)

text \<open>Joining what was split gives the string back.\<close>

fun join :: "char \<Rightarrow> string list \<Rightarrow> string" where
  "join c [] = []"
| "join c [p] = p"
| "join c (p # ps) = p @ c # join c ps"

lemma join_Cons: "ps \<noteq> [] \<Longrightarrow> join c (p # ps) = p @ c # join c ps"
  by (cases ps) auto

lemma join_Cons_Cons: "join c ((x # p) # ps) = x # join c (p # ps)"
  by (cases ps) auto

lemma join_Split: "join c (Split c s) = s"
  by (induction s) (auto simp: join_Cons join_Cons_Cons split: list.splits)

lemma HasPrefix_append: "HasPrefix s p \<longleftrightarrow> (\<exists>r. s = p @ r)"
  by (induction s p rule: HasPrefix.induct) auto

lemma EqualFold_refl [simp]: "EqualFold a a"
  by (simp add: EqualFold_def)

lemma EqualFold_sym: "EqualFold a b \<Longrightarrow> EqualFold b a"
  by (simp add: EqualFold_def)

lemma EqualFold_trans: "EqualFold a b \<Longrightarrow> EqualFold b c \<Longrightarrow> EqualFold a c"
  by (simp add: EqualFold_def)

section \<open>Digits\<close>

definition digit_char :: "nat \<Rightarrow> char" where
  "digit_char d = char_of (if d < 10 then 48 + d else 87 + d)"

definition digit_val :: "char \<Rightarrow> nat option" where
  "digit_val c = (let n = of_char c :: nat in
     if 48 \<le> n \<and> n \<le> 57 then Some (n - 48)
     else if 97 \<le> n \<and> n \<le> 122 then Some (n - 87)
     else if 65 \<le> n \<and> n \<le> 90 then Some (n - 55)
     else None)"

lemma of_char_digit_char: "d < 36 \<Longrightarrow> (of_char (digit_char d) :: nat) = (if d < 10 then 48 + d else 87 + d)"
  by (simp add: digit_char_def)

lemma digit_val_digit_char [simp]: "d < 36 \<Longrightarrow> digit_val (digit_char d) = Some d"
  by (auto simp: digit_val_def of_char_digit_char Let_def)

lemma digit_char_ascii: "d < 36 \<Longrightarrow> (of_char (digit_char d) :: nat) < 128"
  by (simp add: of_char_digit_char)

lemma digit_char_neq:
  assumes "d < 36" and "digit_val c = None"
  shows "digit_char d \<noteq> c"
  using assms by (metis digit_val_digit_char option.distinct(1))

section \<open>strconv\<close>

fun FormatUint :: "nat \<Rightarrow> nat \<Rightarrow> string" where
  "FormatUint base n =
     (if base < 2 \<or> n < base then [digit_char n]
      else FormatUint base (n div base) @ [digit_char (n mod base)])"

declare FormatUint.simps [simp del]

fun parse_digits :: "nat \<Rightarrow> string \<Rightarrow> nat \<Rightarrow> nat outcome" where
  "parse_digits base [] n = Ok n"
| "parse_digits base (c # cs) n =
     (case digit_val c of
        None \<Rightarrow> Err ErrSyntax
      | Some d \<Rightarrow>
          if base \<le> d then Err ErrSyntax
          else if 2 ^ 64 \<le> n * base + d then Err ErrRange
          else parse_digits base cs (n * base + d))"

text \<open>\<open>strconv.ParseUint(s, base, 64)\<close> for a base between 2 and 36.\<close>

definition ParseUint :: "nat \<Rightarrow> string \<Rightarrow> u64 outcome" where
  "ParseUint base s =
     (if s = [] then Err ErrSyntax else obind (parse_digits base s 0) (\<lambda>n. Ok (of_nat n)))"

text \<open>
  \<open>strconv.Atoi\<close>: an optional sign and decimal digits within the range of \<open>int\<close> (64 bits). The
  result is given as the 64-bit word, which is what \<open>uint64(n)\<close> makes of it.
\<close>

definition Atoi :: "string \<Rightarrow> u64 outcome" where
  "Atoi s =
     (let neg = (s \<noteq> [] \<and> hd s = CHR ''-'');
          body = (if s \<noteq> [] \<and> (hd s = CHR ''-'' \<or> hd s = CHR ''+'') then tl s else s)
      in if body = [] then Err ErrSyntax
         else obind (parse_digits 10 body 0) (\<lambda>n.
           if (if neg then 2 ^ 63 < n else 2 ^ 63 \<le> n) then Err ErrRange
           else Ok (if neg then - of_nat n else of_nat n)))"

lemma parse_digits_append:
  "parse_digits b (xs @ ys) n = obind (parse_digits b xs n) (parse_digits b ys)"
  by (induction xs arbitrary: n) (auto split: option.splits)

lemma parse_digits_FormatUint:
  "2 \<le> b \<Longrightarrow> b \<le> 36 \<Longrightarrow> n < 2 ^ 64 \<Longrightarrow> parse_digits b (FormatUint b n) 0 = Ok n"
proof (induction b n rule: FormatUint.induct)
  case (1 b n)
  show ?case
  proof (cases "n < b")
    case True
    with 1 show ?thesis by (simp add: FormatUint.simps)
  next
    case False
    have d: "n mod b < b" using "1.prems" by simp
    have v: "digit_val (digit_char (n mod b)) = Some (n mod b)"
      using d "1.prems" by (intro digit_val_digit_char) linarith
    have "\<not> b \<le> n mod b" using d by (simp only: not_le)
    note this [simp]
    have "n div b * b + n mod b = n" by simp
    moreover have "n div b < 2 ^ 64" using "1.prems" by (meson div_le_dividend le_less_trans)
    ultimately show ?thesis
      using False 1 by (simp add: FormatUint.simps [of b n] parse_digits_append v)
  qed
qed

lemma FormatUint_not_Nil [simp]: "FormatUint b n \<noteq> []"
  by (subst FormatUint.simps) auto

lemma set_FormatUint: "2 \<le> b \<Longrightarrow> c \<in> set (FormatUint b n) \<Longrightarrow> \<exists>d < b. c = digit_char d"
proof (induction b n rule: FormatUint.induct)
  case (1 b n)
  have "n mod b < b" using "1.prems" by simp
  with 1 show ?case
    by (cases "n < b"; simp add: FormatUint.simps [of b n]; blast)
qed

lemma FormatUint_fresh:
  assumes "2 \<le> b" "b \<le> 36" "digit_val c = None"
  shows "c \<notin> set (FormatUint b n)"
  using assms set_FormatUint [of b c n] by (metis digit_char_neq order_less_le_trans)

lemma ParseUint_FormatUint:
  assumes "2 \<le> b" "b \<le> 36"
  shows "ParseUint b (FormatUint b (unat n)) = Ok n"
  using assms by (simp add: ParseUint_def parse_digits_FormatUint)

section \<open>encoding/hex\<close>

definition hex_val :: "char \<Rightarrow> nat option" where
  "hex_val c = (case digit_val c of None \<Rightarrow> None | Some d \<Rightarrow> if d < 16 then Some d else None)"

fun hex_EncodeToString :: "bytes \<Rightarrow> string" where
  "hex_EncodeToString [] = []"
| "hex_EncodeToString (b # bs) =
     digit_char (unat b div 16) # digit_char (unat b mod 16) # hex_EncodeToString bs"

fun hex_DecodeString :: "string \<Rightarrow> bytes outcome" where
  "hex_DecodeString [] = Ok []"
| "hex_DecodeString [c] = (if hex_val c = None then Err ErrHexByte else Err ErrHexLength)"
| "hex_DecodeString (c # d # cs) =
     (case hex_val c of
        None \<Rightarrow> Err ErrHexByte
      | Some a \<Rightarrow>
          (case hex_val d of
             None \<Rightarrow> Err ErrHexByte
           | Some b \<Rightarrow> obind (hex_DecodeString cs) (\<lambda>bs. Ok (of_nat (16 * a + b) # bs))))"

lemma hex_val_digit_char [simp]: "d < 16 \<Longrightarrow> hex_val (digit_char d) = Some d"
  by (simp add: hex_val_def)

lemma hex_roundtrip: "hex_DecodeString (hex_EncodeToString bs) = Ok bs"
proof (induction bs)
  case Nil
  then show ?case by simp
next
  case (Cons b bs)
  have "unat b div 16 < 16" by (simp add: less_mult_imp_div_less)
  moreover have "16 * (unat b div 16) + unat b mod 16 = unat b" by simp
  ultimately show ?case using Cons by (simp add: Cons)
qed

lemma length_hex_EncodeToString [simp]: "length (hex_EncodeToString bs) = 2 * length bs"
  by (induction bs) auto

lemma set_hex_EncodeToString: "c \<in> set (hex_EncodeToString bs) \<Longrightarrow> \<exists>d < 16. c = digit_char d"
proof (induction bs)
  case (Cons b bs)
  have "unat b div 16 < 16" "unat b mod 16 < 16" by (simp_all add: less_mult_imp_div_less)
  then show ?case using Cons by (simp; blast)
qed simp

lemma hex_EncodeToString_fresh: "digit_val c = None \<Longrightarrow> c \<notin> set (hex_EncodeToString bs)"
  using set_hex_EncodeToString [of c bs] digit_char_neq by fastforce

lemma length_hex_DecodeString: "hex_DecodeString s = Ok bs \<Longrightarrow> length s = 2 * length bs"
  by (induction s arbitrary: bs rule: hex_DecodeString.induct)
    (auto simp: obind_eq_Ok split: option.splits if_splits)

end
