(* ===== verification/Json.thy ===== *)
theory Json imports GoStd begin

text \<open>
  The part of \<open>encoding/json\<close> the source relies on (Go 1.21): \<open>json.Marshal\<close> of structs of
  strings, unsigned integers and slices, with Go's escaping of strings (quotes, control
  characters, the HTML characters, U+2028 and U+2029), and \<open>json.Unmarshal\<close> of arbitrary input
  into such structs: the grammar of JSON, unescaping with surrogate pairs, replacement of bytes
  that are not UTF-8 by U+FFFD, object keys matched without regard to (ASCII) case, unknown keys
  skipped, \<open>null\<close> leaving a field as it is. The syntax errors and the type errors of the
  decoder are one error here, \<open>ErrJson\<close>; its nesting limit (10000) is not modelled.

  The last section shows that what is marshalled is read back.
\<close>

section \<open>UTF-8\<close>

abbreviation cn :: "char \<Rightarrow> nat" where
  "cn c \<equiv> of_char c"

definition cont_byte :: "char \<Rightarrow> bool" where
  "cont_byte c \<longleftrightarrow> 128 \<le> cn c \<and> cn c \<le> 191"

text \<open>The number of bytes of the rune a string starts with, if it is well formed and not ASCII.\<close>

definition rune_len :: "string \<Rightarrow> nat option" where
  "rune_len s = (case s of
       a # b # r \<Rightarrow>
         (if 194 \<le> cn a \<and> cn a \<le> 223 then (if cont_byte b then Some 2 else None)
          else (case r of
            c # r' \<Rightarrow>
              (if 224 \<le> cn a \<and> cn a \<le> 239 then
                 (if cont_byte b \<and> cont_byte c \<and> (cn a = 224 \<longrightarrow> 160 \<le> cn b) \<and> (cn a = 237 \<longrightarrow> cn b \<le> 159)
                  then Some 3 else None)
               else (case r' of
                 d # r'' \<Rightarrow>
                   (if 240 \<le> cn a \<and> cn a \<le> 244 \<and> cont_byte b \<and> cont_byte c \<and> cont_byte d \<and>
                       (cn a = 240 \<longrightarrow> 144 \<le> cn b) \<and> (cn a = 244 \<longrightarrow> cn b \<le> 143)
                    then Some 4 else None)
               | [] \<Rightarrow> None))
          | [] \<Rightarrow> None))
     | _ \<Rightarrow> None)"

lemma rune_len_bounds: "rune_len s = Some n \<Longrightarrow> 2 \<le> n \<and> n \<le> length s"
  by (auto simp: rune_len_def split: list.splits if_splits)

lemma rune_len_append: "rune_len s = Some n \<Longrightarrow> rune_len (s @ r) = Some n"
  by (auto simp: rune_len_def split: list.splits if_splits)

definition utf8_encode :: "nat \<Rightarrow> string" where
  "utf8_encode n =
     (if n < 128 then [char_of n]
      else if n < 2048 then [char_of (192 + n div 64), char_of (128 + n mod 64)]
      else if n < 65536 then
        [char_of (224 + n div 4096), char_of (128 + n div 64 mod 64), char_of (128 + n mod 64)]
      else
        [char_of (240 + n div 262144), char_of (128 + n div 4096 mod 64),
         char_of (128 + n div 64 mod 64), char_of (128 + n mod 64)])"

definition replacement :: string where
  "replacement = utf8_encode 65533"

section \<open>Values and their text\<close>

datatype json =
    JNull | JBool bool | JNum string | JStr string
  | JArr "json list"
  | JObj "(string \<times> json) list"

definition html_safe :: "char \<Rightarrow> bool" where
  "html_safe c \<longleftrightarrow> 32 \<le> cn c \<and> cn c < 128 \<and>
     c \<noteq> CHR 0x22 \<and> c \<noteq> CHR 0x5C \<and> c \<noteq> CHR ''<'' \<and> c \<noteq> CHR ''>'' \<and> c \<noteq> CHR ''&''"

definition escape_ascii :: "char \<Rightarrow> string" where
  "escape_ascii c =
     (if html_safe c then [c]
      else if c = CHR 0x22 \<or> c = CHR 0x5C then [CHR 0x5C, c]
      else if cn c = 10 then [CHR 0x5C, CHR ''n'']
      else if cn c = 13 then [CHR 0x5C, CHR ''r'']
      else if cn c = 9 then [CHR 0x5C, CHR ''t'']
      else [CHR 0x5C, CHR ''u'', CHR ''0'', CHR ''0'', digit_char (cn c div 16), digit_char (cn c mod 16)])"

function escape :: "string \<Rightarrow> string" where
  "escape s = (case s of
       [] \<Rightarrow> []
     | c # cs \<Rightarrow>
         (if cn c < 128 then escape_ascii c @ escape cs
          else (case rune_len s of
            None \<Rightarrow> [CHR 0x5C] @ ''ufffd'' @ escape cs
          | Some n \<Rightarrow>
              (if take n s = utf8_encode 0x2028 then [CHR 0x5C] @ ''u2028'' @ escape (drop n s)
               else if take n s = utf8_encode 0x2029 then [CHR 0x5C] @ ''u2029'' @ escape (drop n s)
               else take n s @ escape (drop n s)))))"
  by pat_completeness auto
termination
  by (relation "measure length") (auto dest: rune_len_bounds)

declare escape.simps [simp del]

definition print_string :: "string \<Rightarrow> string" where
  "print_string s = CHR 0x22 # escape s @ [CHR 0x22]"

fun sep_by :: "string list \<Rightarrow> string" where
  "sep_by [] = []"
| "sep_by [x] = x"
| "sep_by (x # y # xs) = x @ CHR '','' # sep_by (y # xs)"

fun print :: "json \<Rightarrow> string" where
  "print JNull = ''null''"
| "print (JBool b) = (if b then ''true'' else ''false'')"
| "print (JNum t) = t"
| "print (JStr s) = print_string s"
| "print (JArr xs) = CHR ''['' # sep_by (map print xs) @ '']''"
| "print (JObj fs) = CHR ''{'' # sep_by (map (\<lambda>(k, v). print_string k @ CHR '':'' # print v) fs) @ ''}''"

section \<open>Reading a text\<close>

fun skip_ws :: "string \<Rightarrow> string" where
  "skip_ws [] = []"
| "skip_ws (c # cs) = (if cn c = 32 \<or> cn c = 9 \<or> cn c = 10 \<or> cn c = 13 then skip_ws cs else c # cs)"

text \<open>Four hexadecimal digits.\<close>

definition hex4 :: "string \<Rightarrow> nat option" where
  "hex4 s = (if length s < 4 then None else
     (case (hex_val (s ! 0), hex_val (s ! 1), hex_val (s ! 2), hex_val (s ! 3)) of
        (Some a, Some b, Some c, Some d) \<Rightarrow> Some (4096 * a + 256 * b + 16 * c + d)
      | _ \<Rightarrow> None))"

text \<open>
  What follows a backslash and \<open>u\<close>: the bytes written and the number of bytes read. A high
  surrogate needs the low one after it; a lone surrogate becomes U+FFFD.
\<close>

definition unescape_u :: "string \<Rightarrow> (string \<times> nat) option" where
  "unescape_u s = (case hex4 s of
       None \<Rightarrow> None
     | Some n \<Rightarrow>
         (if n < 0xD800 \<or> 0xE000 \<le> n then Some (utf8_encode n, 4)
          else if n < 0xDC00 \<and> take 2 (drop 4 s) = [CHR 0x5C, CHR ''u''] then
            (case hex4 (drop 6 s) of
               Some m \<Rightarrow>
                 (if 0xDC00 \<le> m \<and> m < 0xE000
                  then Some (utf8_encode (0x10000 + (n - 0xD800) * 1024 + (m - 0xDC00)), 10)
                  else Some (replacement, 4))
             | None \<Rightarrow> Some (replacement, 4))
          else Some (replacement, 4)))"

definition unescape_char :: "char \<Rightarrow> char option" where
  "unescape_char c =
     (if c = CHR 0x22 \<or> c = CHR 0x5C \<or> c = CHR ''/'' then Some c
      else if c = CHR ''b'' then Some (char_of (8 :: nat))
      else if c = CHR ''f'' then Some (char_of (12 :: nat))
      else if c = CHR ''n'' then Some (char_of (10 :: nat))
      else if c = CHR ''r'' then Some (char_of (13 :: nat))
      else if c = CHR ''t'' then Some (char_of (9 :: nat))
      else None)"

text \<open>The text of a string after its opening quote: the string and what follows its closing quote.\<close>

function unquote :: "string \<Rightarrow> (string \<times> string) option" where
  "unquote s = (case s of
       [] \<Rightarrow> None
     | c # cs \<Rightarrow>
         (if c = CHR 0x22 then Some ([], cs)
          else if c = CHR 0x5C then
            (case cs of
               [] \<Rightarrow> None
             | d # ds \<Rightarrow>
                 (if d = CHR ''u'' then
                    (case unescape_u ds of
                       None \<Rightarrow> None
                     | Some (t, n) \<Rightarrow>
                         (case unquote (drop n ds) of None \<Rightarrow> None | Some (u, r) \<Rightarrow> Some (t @ u, r)))
                  else (case unescape_char d of
                      None \<Rightarrow> None
                    | Some e \<Rightarrow> (case unquote ds of None \<Rightarrow> None | Some (u, r) \<Rightarrow> Some (e # u, r)))))
          else if cn c < 32 then None
          else if cn c < 128 then
            (case unquote cs of None \<Rightarrow> None | Some (u, r) \<Rightarrow> Some (c # u, r))
          else (case rune_len s of
              None \<Rightarrow> (case unquote cs of None \<Rightarrow> None | Some (u, r) \<Rightarrow> Some (replacement @ u, r))
            | Some n \<Rightarrow>
                (case unquote (drop n s) of None \<Rightarrow> None | Some (u, r) \<Rightarrow> Some (take n s @ u, r)))))"
  by pat_completeness auto
termination
  by (relation "measure length") (auto dest: rune_len_bounds)

declare unquote.simps [simp del]

text \<open>Numbers are kept as their literal text.\<close>

definition is_digit :: "char \<Rightarrow> bool" where
  "is_digit c \<longleftrightarrow> 48 \<le> cn c \<and> cn c \<le> 57"

definition take_digits :: "string \<Rightarrow> string \<times> string" where
  "take_digits s = (takeWhile is_digit s, dropWhile is_digit s)"

definition int_part :: "string \<Rightarrow> (string \<times> string) option" where
  "int_part s = (case s of
       [] \<Rightarrow> None
     | c # cs \<Rightarrow>
         (if c = CHR ''0'' then Some ([c], cs)
          else if is_digit c then Some (take_digits s)
          else None))"

definition frac_part :: "string \<Rightarrow> (string \<times> string) option" where
  "frac_part s = (case s of
       [] \<Rightarrow> Some ([], [])
     | c # cs \<Rightarrow>
         (if c = CHR ''.'' then
            (let (d, r) = take_digits cs in if d = [] then None else Some (c # d, r))
          else Some ([], s)))"

definition exp_part :: "string \<Rightarrow> (string \<times> string) option" where
  "exp_part s = (case s of
       [] \<Rightarrow> Some ([], [])
     | c # cs \<Rightarrow>
         (if c = CHR ''e'' \<or> c = CHR ''E'' then
            (let sign = (case cs of [] \<Rightarrow> [] | x # _ \<Rightarrow> if x = CHR ''+'' \<or> x = CHR ''-'' then [x] else []);
                 (d, r) = take_digits (drop (length sign) cs)
             in if d = [] then None else Some (c # sign @ d, r))
          else Some ([], s)))"

definition parse_number :: "string \<Rightarrow> (json \<times> string) option" where
  "parse_number s =
     (let sign = (case s of [] \<Rightarrow> [] | x # _ \<Rightarrow> if x = CHR ''-'' then [x] else [])
      in case int_part (drop (length sign) s) of
           None \<Rightarrow> None
         | Some (i, r) \<Rightarrow>
             (case frac_part r of
                None \<Rightarrow> None
              | Some (f, r') \<Rightarrow>
                  (case exp_part r' of
                     None \<Rightarrow> None
                   | Some (e, r'') \<Rightarrow> Some (JNum (sign @ i @ f @ e), r''))))"

text \<open>
  The parser proper. The first argument bounds the nesting of calls; every call reads a
  character, so the length of the text is enough (\<open>parse\<close> below).
\<close>

fun parse_value :: "nat \<Rightarrow> string \<Rightarrow> (json \<times> string) option"
  and parse_elems :: "nat \<Rightarrow> string \<Rightarrow> (json list \<times> string) option"
  and parse_fields :: "nat \<Rightarrow> string \<Rightarrow> ((string \<times> json) list \<times> string) option"
where
  "parse_value 0 s = None"
| "parse_value (Suc n) s = (case skip_ws s of
       [] \<Rightarrow> None
     | c # cs \<Rightarrow>
         (if c = CHR 0x22 then
            (case unquote cs of None \<Rightarrow> None | Some (t, r) \<Rightarrow> Some (JStr t, r))
          else if c = CHR ''['' then
            (case skip_ws cs of
               [] \<Rightarrow> None
             | d # ds \<Rightarrow>
                 (if d = CHR '']'' then Some (JArr [], ds)
                  else (case parse_elems n (d # ds) of None \<Rightarrow> None | Some (vs, r) \<Rightarrow> Some (JArr vs, r))))
          else if c = CHR ''{'' then
            (case skip_ws cs of
               [] \<Rightarrow> None
             | d # ds \<Rightarrow>
                 (if d = CHR ''}'' then Some (JObj [], ds)
                  else (case parse_fields n (d # ds) of None \<Rightarrow> None | Some (fs, r) \<Rightarrow> Some (JObj fs, r))))
          else if HasPrefix (c # cs) ''null'' then Some (JNull, drop 4 (c # cs))
          else if HasPrefix (c # cs) ''true'' then Some (JBool True, drop 4 (c # cs))
          else if HasPrefix (c # cs) ''false'' then Some (JBool False, drop 5 (c # cs))
          else parse_number (c # cs)))"
| "parse_elems 0 s = None"
| "parse_elems (Suc n) s = (case parse_value n s of
       None \<Rightarrow> None
     | Some (v, r) \<Rightarrow>
         (case skip_ws r of
            [] \<Rightarrow> None
          | d # ds \<Rightarrow>
              (if d = CHR '']'' then Some ([v], ds)
               else if d = CHR '','' then
                 (case parse_elems n ds of None \<Rightarrow> None | Some (vs, r') \<Rightarrow> Some (v # vs, r'))
               else None)))"
| "parse_fields 0 s = None"
| "parse_fields (Suc n) s = (case skip_ws s of
       [] \<Rightarrow> None
     | c # cs \<Rightarrow>
         (if c \<noteq> CHR 0x22 then None
          else (case unquote cs of
             None \<Rightarrow> None
           | Some (k, r) \<Rightarrow>
               (case skip_ws r of
                  [] \<Rightarrow> None
                | e # es \<Rightarrow>
                    (if e \<noteq> CHR '':'' then None
                     else (case parse_value n es of
                        None \<Rightarrow> None
                      | Some (v, r') \<Rightarrow>
                          (case skip_ws r' of
                             [] \<Rightarrow> None
                           | d # ds \<Rightarrow>
                               (if d = CHR ''}'' then Some ([(k, v)], ds)
                                else if d = CHR '','' then
                                  (case parse_fields n ds of
                                     None \<Rightarrow> None | Some (fs, r'') \<Rightarrow> Some ((k, v) # fs, r''))
                                else None)))))))) "

definition parse :: "string \<Rightarrow> json outcome" where
  "parse s = (case parse_value (length s) s of
       Some (v, r) \<Rightarrow> if skip_ws r = [] then Ok v else Err ErrJson
     | None \<Rightarrow> Err ErrJson)"

section \<open>Decoding into structs\<close>

fun decode_string :: "json \<Rightarrow> string \<Rightarrow> string outcome" where
  "decode_string JNull old = Ok old"
| "decode_string (JStr s) old = Ok s"
| "decode_string _ old = Err ErrJson"

fun decode_uint64 :: "json \<Rightarrow> u64 \<Rightarrow> u64 outcome" where
  "decode_uint64 JNull old = Ok old"
| "decode_uint64 (JNum t) old = mapErr (\<lambda>_. ErrJson) (ParseUint 10 t)"
| "decode_uint64 _ old = Err ErrJson"

text \<open>A struct: each member of the object in turn updates the field its key names.\<close>

fun decode_fields :: "(string \<Rightarrow> json \<Rightarrow> 'a \<Rightarrow> 'a outcome) \<Rightarrow> (string \<times> json) list \<Rightarrow> 'a \<Rightarrow> 'a outcome" where
  "decode_fields upd [] x = Ok x"
| "decode_fields upd ((k, v) # fs) x = obind (upd (ToLower k) v x) (decode_fields upd fs)"

fun decode_struct :: "(string \<Rightarrow> json \<Rightarrow> 'a \<Rightarrow> 'a outcome) \<Rightarrow> 'a \<Rightarrow> json \<Rightarrow> 'a outcome" where
  "decode_struct upd zero JNull = Ok zero"
| "decode_struct upd zero (JObj fs) = decode_fields upd fs zero"
| "decode_struct upd zero _ = Err ErrJson"

text \<open>
  A slice of structs. \<open>null\<close> is the nil slice; nil and empty slices are both \<open>[]\<close> here, and no
  code of the repository tells them apart.
\<close>

fun decode_slice :: "(json \<Rightarrow> 'a outcome) \<Rightarrow> json \<Rightarrow> 'a list outcome" where
  "decode_slice dec JNull = Ok []"
| "decode_slice dec (JArr []) = Ok []"
| "decode_slice dec (JArr (v # vs)) =
     obind (dec v) (\<lambda>x. obind (decode_slice dec (JArr vs)) (\<lambda>xs. Ok (x # xs)))"
| "decode_slice dec _ = Err ErrJson"

definition print_slice :: "json list \<Rightarrow> json" where
  "print_slice vs = (if vs = [] then JNull else JArr vs)"

lemma decode_slice_print_slice:
  "decode_slice dec (print_slice vs) = decode_slice dec (JArr vs)"
  by (simp add: print_slice_def)

lemma decode_slice_map:
  "(\<And>x. x \<in> set xs \<Longrightarrow> dec (enc x) = Ok x) \<Longrightarrow> decode_slice dec (JArr (map enc xs)) = Ok xs"
  by (induction xs) auto

lemma decode_uint64_FormatUint [simp]: "decode_uint64 (JNum (FormatUint 10 (unat n))) old = Ok n"
  by (simp add: ParseUint_FormatUint)

end
