(* ===== verification/JsonRoundtrip.thy ===== *)
theory JsonRoundtrip imports Json begin

text \<open>
  What is printed is read back: for every JSON value whose strings are UTF-8 and whose numbers are
  decimal unsigned integers, \<open>parse (print j) = Ok j\<close> (lemma \<open>parse_print\<close>).
\<close>

section \<open>Strings\<close>
function valid_utf8 :: "string \<Rightarrow> bool" where
  "valid_utf8 s = (case s of
       [] \<Rightarrow> True
     | c # cs \<Rightarrow>
         (if cn c < 128 then valid_utf8 cs
          else (case rune_len s of None \<Rightarrow> False | Some n \<Rightarrow> valid_utf8 (drop n s))))"
  by pat_completeness auto
termination
  by (relation "measure length") (auto dest: rune_len_bounds)

declare valid_utf8.simps [simp del]

lemma rune_len_cases:
  assumes "rune_len s = Some n"
  obtains a b r where "n = 2" "s = a # b # r"
  | a b c r where "n = 3" "s = a # b # c # r"
  | a b c d r where "n = 4" "s = a # b # c # d # r"
  using assms by (auto simp: rune_len_def split: list.splits if_splits)

lemma rune_len_take:
  assumes "rune_len s = Some n" shows "rune_len (take n s) = Some n"
  using assms by (rule rune_len_cases) (use assms in \<open>auto simp: rune_len_def split: if_splits list.splits\<close>)

lemma char_of_cn: "(char_of (cn c) :: char) = c"
  by simp

lemma cn_eq_iff: "cn c = cn d \<longleftrightarrow> c = d"
  using of_char_eq_iff by blast

lemma cn_less_256: "cn c < 256"
  by (simp)

lemma unescape_escape_u:
  assumes "cn c < 128"
  shows "unescape_u (CHR ''0'' # CHR ''0'' # digit_char (cn c div 16) # digit_char (cn c mod 16) # x) = Some ([c], 4)"
proof -
  have h: "hex_val (digit_char (cn c div 16)) = Some (cn c div 16)" "hex_val (digit_char (cn c mod 16)) = Some (cn c mod 16)"
    using assms by (auto intro!: hex_val_digit_char)
  have z: "hex_val (CHR ''0'') = Some 0" by (simp add: hex_val_def digit_val_def)
  have "hex4 (CHR ''0'' # CHR ''0'' # digit_char (cn c div 16) # digit_char (cn c mod 16) # x) = Some (cn c)"
    using h z by (simp add: hex4_def)
  then show ?thesis using assms by (simp add: unescape_u_def utf8_encode_def)
qed

definition then_text :: "string \<Rightarrow> (string \<times> string) option \<Rightarrow> (string \<times> string) option" where
  "then_text t x = (case x of None \<Rightarrow> None | Some (u, r) \<Rightarrow> Some (t @ u, r))"

lemma html_safe_unquote: "html_safe c \<Longrightarrow> unquote (c # x) = then_text [c] (unquote x)"
  by (subst unquote.simps) (simp add: html_safe_def then_text_def split: option.splits)

lemma unquote_backslash:
  "unquote (CHR 0x5C # d # x) = (if d = CHR ''u'' then
      (case unescape_u x of None \<Rightarrow> None | Some (t, n) \<Rightarrow> then_text t (unquote (drop n x)))
     else (case unescape_char d of None \<Rightarrow> None | Some e \<Rightarrow> then_text [e] (unquote x)))"
  by (subst unquote.simps) (simp add: then_text_def split: option.splits)

lemma unquote_ctrl:
  assumes "cn c < 128" shows "unquote (CHR 0x5C # CHR ''u'' # CHR ''0'' # CHR ''0'' # digit_char (cn c div 16) # digit_char (cn c mod 16) # x) = then_text [c] (unquote x)"
  by (simp add: unquote_backslash unescape_escape_u [OF assms])

lemma char_of_eq: "cn c = n \<Longrightarrow> char_of n = c" by auto

lemma unquote_escape_ascii:
  assumes "cn c < 128" shows "unquote (escape_ascii c @ x) = then_text [c] (unquote x)"
proof (cases "html_safe c")
  case True
  then show ?thesis by (simp add: escape_ascii_def html_safe_unquote)
next
  case False
  then show ?thesis using assms
    by (simp add: escape_ascii_def unquote_backslash unescape_char_def unescape_escape_u char_of_eq)
qed

lemma unquote_rune: 
  assumes "rune_len s = Some n" "s = c # cs" "\<not> cn c < 128"
  shows "unquote (take n s @ x) = then_text (take n s) (unquote x)"
proof -
  have l: "rune_len (take n s @ x) = Some n" using assms(1) by (intro rune_len_append rune_len_take)
  have n: "2 \<le> n" "n \<le> length s" using rune_len_bounds [OF assms(1)] by auto
  obtain n' where "n = Suc n'" using n by (cases n) auto
  then have e: "take n s @ x = c # (take n' cs @ x)" "drop n (take n s @ x) = x" using assms(2) n by auto
  have "c \<noteq> CHR 0x22" "c \<noteq> CHR 0x5C" using assms(3) by auto
  with assms(3) l e show ?thesis
    by (subst unquote.simps) (use n assms(2) \<open>n = Suc n'\<close> in \<open>simp add: then_text_def split: option.splits\<close>)
qed

lemma unescape_2028: "unescape_u (CHR ''2'' # CHR ''0'' # CHR ''2'' # CHR ''8'' # x) = Some (utf8_encode 0x2028, 4)"
  and unescape_2029: "unescape_u (CHR ''2'' # CHR ''0'' # CHR ''2'' # CHR ''9'' # x) = Some (utf8_encode 0x2029, 4)"
  by (simp_all add: unescape_u_def hex4_def hex_val_def digit_val_def)

lemma unquote_escape: "valid_utf8 s \<Longrightarrow> unquote (escape s @ CHR 0x22 # r) = Some (s, r)"
proof (induction s rule: escape.induct)
  case (1 s)
  show ?case
  proof (cases s)
    case Nil
    then show ?thesis by (simp add: escape.simps unquote.simps)
  next
    case (Cons c cs)
    show ?thesis
    proof (cases "cn c < 128")
      case True
      then have "valid_utf8 cs" using "1.prems" Cons by (simp add: valid_utf8.simps [of "c # cs"])
      with 1(1) [OF Cons True] have IH: "unquote (escape cs @ CHR 0x22 # r) = Some (cs, r)" by simp
      show ?thesis using True Cons IH
        by (simp add: escape.simps [of "c # cs"] unquote_escape_ascii then_text_def)
    next
      case False
      with "1.prems" Cons obtain n where n: "rune_len s = Some n" and v: "valid_utf8 (drop n s)"
        by (auto simp: valid_utf8.simps [of "c # cs"] split: option.splits)
      have IH: "unquote (escape (drop n s) @ CHR 0x22 # r) = Some (drop n s, r)"
      proof (cases "take n s = utf8_encode 0x2028")
        case True
        show ?thesis by (rule 1(3) [OF Cons False n True v])
      next
        case not28: False
        show ?thesis
        proof (cases "take n s = utf8_encode 0x2029")
          case True
          show ?thesis by (rule 1(4) [OF Cons False n not28 True v]) 
        next
          case not29: False
          show ?thesis by (rule 1(5) [OF Cons False n not28 not29 v]) 
        qed
      qed
      have "unquote (escape s @ CHR 0x22 # r) = then_text (take n s) (unquote (escape (drop n s) @ CHR 0x22 # r))"
      proof (cases "take n s = utf8_encode 0x2028 \<or> take n s = utf8_encode 0x2029")
        case True
        then show ?thesis using Cons False n
          by (auto simp: escape.simps [of "c # cs"] unquote_backslash unescape_2028 unescape_2029)
      next
        case other: False
        then have "escape s = take n s @ escape (drop n s)"
          using Cons False n by (simp add: escape.simps [of "c # cs"])
        then show ?thesis using unquote_rune [OF n Cons False] by simp
      qed
      then show ?thesis by (simp add: IH then_text_def)
    qed
  qed
qed

section \<open>Numbers\<close>

lemma digit_char_0: "digit_char 0 = CHR ''0''"
  unfolding digit_char_def by code_simp

lemma FormatUint_hd: "0 < n \<Longrightarrow> FormatUint 10 n = c # cs \<Longrightarrow> c \<noteq> CHR ''0''"
proof (induction "10::nat" n arbitrary: cs rule: FormatUint.induct)
  case (1 n)
  have z: "CHR ''0'' = digit_char 0" by (simp add: digit_char_0)
  show ?case
  proof (cases "n < 10")
    case True
    have "digit_val (digit_char n) \<noteq> digit_val (digit_char 0)" using True "1.prems" by simp
    then have "digit_char n \<noteq> digit_char 0" by metis
    then show ?thesis using 1 True z by (auto simp: FormatUint.simps [of 10 n])
  next
    case False
    with "1.prems" obtain ds where "FormatUint 10 (n div 10) = c # ds"
      by (cases "FormatUint 10 (n div 10)") (auto simp: FormatUint.simps [of 10 n])
    then show ?thesis using 1 False by simp
  qed
qed

lemma is_digit_FormatUint: "c \<in> set (FormatUint 10 n) \<Longrightarrow> is_digit c"
  using set_FormatUint [of 10 c n] by (auto simp: is_digit_def of_char_digit_char)

definition ends_value :: "string \<Rightarrow> bool" where
  "ends_value r \<longleftrightarrow> (case r of [] \<Rightarrow> True | c # _ \<Rightarrow> c = CHR '','' \<or> c = CHR '']'' \<or> c = CHR ''}'')"

lemma parse_number_FormatUint:
  assumes "ends_value r"
  shows "parse_number (FormatUint 10 n @ r) = Some (JNum (FormatUint 10 n), r)"
proof -
  obtain c cs where t: "FormatUint 10 n = c # cs" by (cases "FormatUint 10 n") auto
  have d: "is_digit x" if "x \<in> set (c # cs)" for x using that is_digit_FormatUint [of x n] t by simp
  then have c: "c \<noteq> CHR ''-''" by (force simp: is_digit_def)
  have r: "r = [] \<or> \<not> is_digit (hd r)" using assms by (cases r) (auto simp: ends_value_def is_digit_def)
  have tk: "takeWhile is_digit (cs @ r) = cs" "dropWhile is_digit (cs @ r) = r"
    using d r by (cases r; auto)+
  have i: "int_part (c # cs @ r) = Some (c # cs, r)"
  proof (cases "n = 0")
    case True
    then have "c # cs = ''0''" using t by (simp add: FormatUint.simps digit_char_0)
    then show ?thesis by (simp add: int_part_def)
  next
    case False
    then show ?thesis using FormatUint_hd [of n] t d tk by (simp add: int_part_def take_digits_def)
  qed
  have f: "frac_part r = Some ([], r)" "exp_part r = Some ([], r)"
    using assms by (auto simp: ends_value_def frac_part_def exp_part_def split: list.splits)
  show ?thesis using c i f by (simp add: parse_number_def t)
qed

section \<open>Values\<close>

fun json_ok :: "json \<Rightarrow> bool" where
  "json_ok (JNum t) = (\<exists>n. t = FormatUint 10 n)"
| "json_ok (JStr s) = valid_utf8 s"
| "json_ok (JArr vs) = (\<forall>v \<in> set vs. json_ok v)"
| "json_ok (JObj fs) = (\<forall>(k, v) \<in> set fs. valid_utf8 k \<and> json_ok v)"
| "json_ok _ = True"

definition starts_value :: "char \<Rightarrow> bool" where
  "starts_value c \<longleftrightarrow> 32 < cn c \<and> c \<noteq> CHR '']''"

lemma skip_ws_starts [simp]: "starts_value c \<Longrightarrow> skip_ws (c # cs) = c # cs"
  by (auto simp: starts_value_def)

lemma print_starts: "json_ok j \<Longrightarrow> \<exists>c cs. print j = c # cs \<and> starts_value c"
proof (cases j)
  case (JNum t)
  assume "json_ok j"
  then obtain n where t: "t = FormatUint 10 n" using JNum by auto
  obtain c cs where c: "t = c # cs" using t by (metis FormatUint_not_Nil list.exhaust)
  then have "is_digit c" using is_digit_FormatUint [of c n] t by simp
  then have "starts_value c" by (auto simp: is_digit_def starts_value_def)
  then show ?thesis using JNum c by simp
qed (auto simp: starts_value_def print_string_def)

lemma parse_value_Suc:
  "starts_value c \<Longrightarrow> parse_value (Suc n) (c # cs) = 
      (if c = CHR 0x22 then
            (case unquote cs of None \<Rightarrow> None | Some (t, r) \<Rightarrow> Some (JStr t, r))
          else if c = CHR ''['' then
            (case skip_ws cs of
               [] \<Rightarrow> None
             | d # ds \<Rightarrow>
                 (if d = CHR '']'' then Some (JArr [], ds)
                  else (case parse_elems n (d # ds) of None \<Rightarrow> None | Some (vs, r) \<Rightarrow> Some (JArr vs, r))))
          else if c = CHR ''{'' then
            (case skip_ws cs of
               [] \<Rightarrow> None
             | d # ds \<Rightarrow>
                 (if d = CHR ''}'' then Some (JObj [], ds)
                  else (case parse_fields n (d # ds) of None \<Rightarrow> None | Some (fs, r) \<Rightarrow> Some (JObj fs, r))))
          else if HasPrefix (c # cs) ''null'' then Some (JNull, drop 4 (c # cs))
          else if HasPrefix (c # cs) ''true'' then Some (JBool True, drop 4 (c # cs))
          else if HasPrefix (c # cs) ''false'' then Some (JBool False, drop 5 (c # cs))
          else parse_number (c # cs))"
  by (simp only: parse_value.simps(2) skip_ws_starts list.case)

lemma skip_ws_punct [simp]:
  "skip_ws (CHR '','' # s) = CHR '','' # s" "skip_ws (CHR '']'' # s) = CHR '']'' # s"
  "skip_ws (CHR ''}'' # s) = CHR ''}'' # s" "skip_ws (CHR '':'' # s) = CHR '':'' # s"
  "skip_ws (CHR ''{'' # s) = CHR ''{'' # s" "skip_ws (CHR ''['' # s) = CHR ''['' # s"
  "skip_ws (CHR 0x22 # s) = CHR 0x22 # s"
  by simp_all

lemma sep_by_Cons: "xs \<noteq> [] \<Longrightarrow> sep_by (x # xs) = x @ CHR '','' # sep_by xs"
  by (cases xs) auto

definition reads :: "json \<Rightarrow> bool" where
  "reads v \<longleftrightarrow> (\<forall>f r. ends_value r \<longrightarrow> length (print v) \<le> f \<longrightarrow> parse_value f (print v @ r) = Some (v, r))"

lemma readsI:
  assumes "\<And>f r. ends_value r \<Longrightarrow> length (print v) \<le> Suc f \<Longrightarrow> parse_value (Suc f) (print v @ r) = Some (v, r)"
    and "print v \<noteq> []"
  shows "reads v"
  unfolding reads_def
proof (intro allI impI)
  fix f r assume "ends_value r" and "length (print v) \<le> f"
  then show "parse_value f (print v @ r) = Some (v, r)" using assms by (cases f) auto
qed

lemma readsD: "reads v \<Longrightarrow> ends_value r \<Longrightarrow> length (print v) \<le> f \<Longrightarrow> parse_value f (print v @ r) = Some (v, r)"
  by (simp add: reads_def)

lemma ends_value_simps [simp]: "ends_value []" "ends_value (CHR '','' # s)" "ends_value (CHR '']'' # s)" "ends_value (CHR ''}'' # s)"
  by (simp_all add: ends_value_def)

lemma parse_elems_print:
  assumes "vs \<noteq> []" "\<forall>v \<in> set vs. reads v" "length (sep_by (map print vs)) < f"
  shows "parse_elems f (sep_by (map print vs) @ CHR '']'' # r) = Some (vs, r)"
  using assms
proof (induction vs arbitrary: f)
  case (Cons v vs)
  obtain f' where f: "f = Suc f'" using Cons.prems by (cases f) auto
  show ?case
  proof (cases "vs = []")
    case True
    then show ?thesis using Cons.prems f by (simp add: readsD)
  next
    case False
    then have "parse_elems f' (sep_by (map print vs) @ CHR '']'' # r) = Some (vs, r)"
      using Cons.prems f by (intro Cons.IH) (auto simp: sep_by_Cons)
    then show ?thesis using Cons.prems f False by (simp add: readsD sep_by_Cons)
  qed
qed simp

abbreviation print_field :: "string \<times> json \<Rightarrow> string" where
  "print_field kv \<equiv> (case kv of (k, v) \<Rightarrow> print_string k @ CHR '':'' # print v)"

lemma parse_fields_print:
  assumes "fs \<noteq> []" "\<forall>(k, v) \<in> set fs. valid_utf8 k \<and> reads v" "length (sep_by (map print_field fs)) < f"
  shows "parse_fields f (sep_by (map print_field fs) @ CHR ''}'' # r) = Some (fs, r)"
  using assms
proof (induction fs arbitrary: f)
  case (Cons kv fs)
  obtain k v where kv: "kv = (k, v)" by (cases kv)
  obtain f' where f: "f = Suc f'" using Cons.prems by (cases f) auto
  have "valid_utf8 k" using Cons.prems kv by auto
  then have k: "unquote (escape k @ CHR 0x22 # s) = Some (k, s)" for s by (rule unquote_escape)
  show ?case
  proof (cases "fs = []")
    case True
    then show ?thesis using Cons.prems f kv by (simp add: readsD print_string_def k)
  next
    case False
    then have "parse_fields f' (sep_by (map print_field fs) @ CHR ''}'' # r) = Some (fs, r)"
      using Cons.prems f by (intro Cons.IH) (auto simp: sep_by_Cons)
    then show ?thesis using Cons.prems f False kv by (simp add: readsD sep_by_Cons print_string_def k)
  qed
qed simp

lemma sep_by_print_starts: 
   "vs \<noteq> [] \<Longrightarrow> \<forall>v \<in> set vs. json_ok v \<Longrightarrow> \<exists>c cs. sep_by (map print vs) = c # cs \<and> starts_value c"
  using print_starts by (cases vs; cases "tl vs"; fastforce)

lemma starts_simps [simp]: "starts_value CHR 0x22" "starts_value CHR ''['' " "starts_value CHR ''{''"
    "starts_value CHR ''n''" "starts_value CHR ''t''" "starts_value CHR ''f''"
  by (simp_all add: starts_value_def)

text \<open>Arrays and objects are closed, so anything may follow them.\<close>

lemma parse_array:
  assumes "\<forall>v \<in> set vs. json_ok v \<and> reads v" and "length (print (JArr vs)) \<le> f"
  shows "parse_value f (print (JArr vs) @ r) = Some (JArr vs, r)"
proof -
  obtain f' where f: "f = Suc f'" using assms(2) by (cases f) auto
  show ?thesis
  proof (cases "vs = []")
    case False
    with assms(1) obtain c cs where c: "sep_by (map print vs) = c # cs" "starts_value c"
      using sep_by_print_starts [of vs] by auto
    have "parse_elems f' (c # cs @ CHR '']'' # r) = Some (vs, r)"
      using parse_elems_print [OF False, of f' r] assms f c by simp
    moreover have "c \<noteq> CHR '']''" using c by (simp add: starts_value_def)
    ultimately show ?thesis using c f by (simp del: skip_ws.simps)
  qed (simp add: f)
qed

lemma parse_object:
  assumes "\<forall>(k, v) \<in> set fs. valid_utf8 k \<and> reads v" and "length (print (JObj fs)) \<le> f"
  shows "parse_value f (print (JObj fs) @ r) = Some (JObj fs, r)"
proof -
  obtain f' where f: "f = Suc f'" using assms(2) by (cases f) auto
  show ?thesis
  proof (cases "fs = []")
    case False
    then obtain cs where c: "sep_by (map print_field fs) = CHR 0x22 # cs"
      by (cases fs; cases "tl fs"; auto simp: print_string_def)
    have "parse_fields f' (CHR 0x22 # cs @ CHR ''}'' # r) = Some (fs, r)"
      using parse_fields_print [OF False assms(1), of f' r] assms(2) f c by simp
    then show ?thesis using c f by (simp del: parse_fields.simps)
  qed (simp add: f)
qed

lemma json_ok_reads: "json_ok j \<Longrightarrow> reads j"
proof (induction j)
  case (JNum t)
  show ?case
  proof (rule readsI)
    fix f r assume r: "ends_value r" and l: "length (print (JNum t)) \<le> Suc f"
    obtain n where t: "t = FormatUint 10 n" using JNum by auto
    obtain c cs where c: "t = c # cs" using t by (metis FormatUint_not_Nil list.exhaust)
    then have d: "is_digit c" using is_digit_FormatUint [of c n] t by simp
    then have s: "starts_value c" by (auto simp: is_digit_def starts_value_def)
    have "c \<notin> {CHR 0x22, CHR ''['', CHR ''{'', CHR ''n'', CHR ''t'', CHR ''f''}"
      using d by (auto simp: is_digit_def)
    then have "parse_value (Suc f) (c # cs @ r) = parse_number (c # cs @ r)"
      by (simp add: parse_value_Suc [OF s] del: parse_value.simps)
    also have "\<dots> = Some (JNum t, r)" using parse_number_FormatUint [OF r, of n] by (simp add: t [symmetric] c)
    finally show "parse_value (Suc f) (print (JNum t) @ r) = Some (JNum t, r)" by (simp add: c)
  qed (use JNum in auto)
next
  case (JStr s)
  then have "unquote (escape s @ CHR 0x22 # r) = Some (s, r)" for r by (intro unquote_escape) simp
  then show ?case by (intro readsI) (auto simp: print_string_def)
next
  case (JArr vs)
  then have "\<forall>v \<in> set vs. json_ok v \<and> reads v" by auto
  then show ?case by (intro readsI parse_array) simp_all
next
  case (JObj fs)
  then have "\<forall>(k, v) \<in> set fs. valid_utf8 k \<and> reads v" by fastforce
  then show ?case by (intro readsI parse_object) simp_all
qed (auto intro!: readsI split: if_splits)

lemma parse_closed:
  assumes "json_ok j" and "(\<exists>vs. j = JArr vs) \<or> (\<exists>fs. j = JObj fs)" and "length (print j) \<le> f"
  shows "parse_value f (print j @ r) = Some (j, r)"
  using assms parse_array parse_object json_ok_reads by fastforce

lemma parse_print: "json_ok j \<Longrightarrow> parse (print j) = Ok j"
  using readsD [OF json_ok_reads, of j "[]" "length (print j)"] by (simp add: parse_def)

end
