(* ===== verification/World.thy ===== *)
theory World imports JsonRoundtrip begin

text \<open>
  The outside of the program: the data it exchanges, the pure functions of the libraries it links
  (a record of parameters), the services it calls (a record whose functions give each answer from
  the history of the calls made so far) and the calls themselves, which are the events of a
  history. Nothing here is code of the repository; no law is assumed about any of it. A theorem
  that needs one names it as a hypothesis.
\<close>

section \<open>Data\<close>

text \<open>
  The types of the \<open>qgb\<close> module: a validator of the bridge, a validator set, a data commitment, and
  the attestation requests, which are one of the two (a third implementation of the interface
  is only known by its nonce).
\<close>

record bridge_validator =
  Power :: u64
  EvmAddress :: string

record valset =
  Nonce :: u64
  Members :: "bridge_validator list"
  Height :: u64
  Time :: int

record data_commitment =
  DcNonce :: u64
  BeginBlock :: u64
  EndBlock :: u64

datatype attestation = AttValset valset | AttDataCommitment data_commitment | AttOther u64

primrec GetNonce :: "attestation \<Rightarrow> u64" where
  "GetNonce (AttValset vs) = Nonce vs"
| "GetNonce (AttDataCommitment dc) = DcNonce dc"
| "GetNonce (AttOther n) = n"

text \<open>A hash is its 32 bytes and an EVM address its 20 bytes.\<close>

type_synonym hash = bytes
type_synonym address = bytes

text \<open>What the bridge contract is sent: a validator, a signature split as the contract wants it.\<close>

record eth_validator =
  Addr :: address
  EthPower :: int

record vrs =
  SigV :: byte
  SigR :: hash
  SigS :: hash

text \<open>
  An EVM transaction through the accessors of \<open>types.Transaction\<close> (a big integer may be nil), and
  the two payloads the relayer builds from it.
\<close>

record tx_core =
  TxNonce :: u64
  TxGas :: u64
  TxTo :: "address option"
  TxValue :: int
  TxData :: bytes
  TxV :: int
  TxR :: int
  TxS :: int

record evm_tx = tx_core +
  TxHash :: hash
  ChainId :: int
  GasPrice :: "int option"
  GasTipCap :: "int option"
  GasFeeCap :: "int option"
  AccessList :: "(address \<times> hash list) list"

record legacy_tx = tx_core +
  LegacyGasPrice :: "int option"

record dynamic_tx = tx_core +
  DynChainId :: int
  DynGasTipCap :: "int option"
  DynGasFeeCap :: "int option"
  DynAccessList :: "(address \<times> hash list) list"

record transact_opts =
  From :: address
  OptsNonce :: "int option"
  OptsValue :: int
  GasLimit :: u64

section \<open>Library functions\<close>

text \<open>
  go-ethereum's \<open>common\<close> and \<open>crypto\<close>, the contract ABI, the methods of the qgb types
  (\<open>SignBytes\<close>, \<open>Hash\<close>, \<open>TwoThirdsThreshold\<close>), protobuf's \<open>UnpackAny\<close>, the key normalisation of
  the datastore, and the number of blocks in 20 days (computed from a constant of celestia-app).
\<close>

record lib =
  IsHexAddress :: "string \<Rightarrow> bool"
  HexToAddress :: "string \<Rightarrow> address"
  AddressHex :: "address \<Rightarrow> string"
  FromHex :: "string \<Rightarrow> bytes"
  BytesToHash :: "bytes \<Rightarrow> hash"
  HashHex :: "hash \<Rightarrow> string"
  HexToHash :: "string \<Rightarrow> hash"
  Bytes2Hex :: "bytes \<Rightarrow> string"
  Keccak256Hash :: "bytes \<Rightarrow> hash"
  Ecrecover :: "bytes \<Rightarrow> bytes \<Rightarrow> bytes outcome"
  UnmarshalPubkey :: "bytes \<Rightarrow> bytes outcome"
  PubkeyToAddress :: "bytes \<Rightarrow> address"
  PackDataRootTupleRoot :: "int \<Rightarrow> bytes \<Rightarrow> bytes outcome"
  ValsetSignBytes :: "valset \<Rightarrow> hash outcome"
  ValsetHash :: "valset \<Rightarrow> hash outcome"
  TwoThirdsThreshold :: "valset \<Rightarrow> u64"
  UnpackAny :: "string option \<Rightarrow> attestation option outcome"
  PackInitialize :: "int \<Rightarrow> int \<Rightarrow> hash \<Rightarrow> bytes outcome"
  HexBytesString :: "bytes \<Rightarrow> string"
  NewLegacyTx :: "legacy_tx \<Rightarrow> evm_tx"
  NewDynamicTx :: "dynamic_tx \<Rightarrow> evm_tx"
  NewKey :: "string \<Rightarrow> string"
  BlocksIn20DaysPeriod :: u64

section \<open>Calls to services\<close>

text \<open>What a \<open>select\<close> over a context, a timer and a ticker (or an event channel) wakes up for.\<close>

datatype wake = WCtx go_error | WTimeout | WTick

text \<open>
  The calls: to the celestia-app over gRPC (the first argument is the block height asked for),
  to tendermint, to the DHT, to the key store, to the EVM chain and the contract, to the signature
  store, and the observations of contexts and timers. Each carries its arguments and its answer.
\<close>

datatype app_call =
    Attestation "u64 option" u64 "string option outcome"
  | LatestNonce "u64 option" "u64 outcome"
  | DataCommitmentForHeight u64 "data_commitment option outcome"
  | LatestDataCommitment "data_commitment option outcome"
  | ValsetBefore "u64 option" u64 "valset option outcome"
  | StakingValidators "string list outcome"
  | EVMAddressOf string "string outcome"
  | UnbondingHeight "u64 outcome"
  | EarliestNonce "u64 outcome"

datatype tm_call =
    Commitment u64 u64 "bytes outcome"
  | Status "u64 outcome"
  | Subscribe string string "unit outcome"
  | Unsubscribe string string "unit outcome"
  | Stop "unit outcome"
  | Connect "unit outcome"

datatype dht_call =
    PutValue string string "unit outcome"
  | GetValue string "string outcome"
  | ListPeers nat

datatype chain_call =
    Dial "unit outcome"
  | PendingNonceAt address "u64 outcome"
  | ChainID "int outcome"
  | Transactor address "transact_opts outcome"
  | WaitMined evm_tx "nat outcome"
  | SuggestGasPrice "int outcome"
  | SuggestGasTipCap "int outcome"
  | HeaderByNumber "int option outcome"
  | SignTx address evm_tx "evm_tx outcome"
  | SendTransaction evm_tx "unit outcome"

datatype contract_call =
    StateEventNonce "nat outcome"
  | StateCheckpoint "hash outcome"
  | ContractUpdate transact_opts int int int hash "eth_validator list" "vrs list" "evm_tx outcome"
  | ContractSubmit transact_opts int int hash "eth_validator list" "vrs list" "evm_tx outcome"
  | DeployWrappers transact_opts "(address \<times> evm_tx) outcome"
  | DeployProxy transact_opts address bytes "(address \<times> evm_tx) outcome"
  | BindWrappers address "unit outcome"

datatype store_call =
    Batch "unit outcome"
  | Has string "bool outcome"
  | BatchPut string string "unit outcome"
  | BatchCommit "unit outcome"

datatype local_step =
    CtxErr "go_error option"
  | Wake wake
  | TimerFired int
  | Slept int
  | Enqueued u64
  | Metric string

datatype event =
    App app_call
  | Tm tm_call
  | Dht dht_call
  | KsSign address bytes "bytes outcome"
  | Chain chain_call
  | Contract contract_call
  | Store store_call
  | Local local_step

type_synonym history = "event list"
type_synonym 'a prog = "(event, 'a) io"

record services =
  app_attestation :: "u64 option \<Rightarrow> u64 \<Rightarrow> history \<Rightarrow> string option outcome"
  app_latest_nonce :: "u64 option \<Rightarrow> history \<Rightarrow> u64 outcome"
  app_dc_for_height :: "u64 \<Rightarrow> history \<Rightarrow> data_commitment option outcome"
  app_latest_dc :: "history \<Rightarrow> data_commitment option outcome"
  app_valset_before :: "u64 option \<Rightarrow> u64 \<Rightarrow> history \<Rightarrow> valset option outcome"
  app_validators :: "history \<Rightarrow> string list outcome"
  app_evm_address :: "string \<Rightarrow> history \<Rightarrow> string outcome"
  app_unbonding_height :: "history \<Rightarrow> u64 outcome"
  app_earliest_nonce :: "history \<Rightarrow> u64 outcome"
  tm_commitment :: "u64 \<Rightarrow> u64 \<Rightarrow> history \<Rightarrow> bytes outcome"
  tm_status :: "history \<Rightarrow> u64 outcome"
  tm_subscribe :: "string \<Rightarrow> string \<Rightarrow> history \<Rightarrow> unit outcome"
  tm_unsubscribe :: "string \<Rightarrow> string \<Rightarrow> history \<Rightarrow> unit outcome"
  tm_stop :: "history \<Rightarrow> unit outcome"
  tm_connect :: "history \<Rightarrow> unit outcome"
  dht_put :: "string \<Rightarrow> string \<Rightarrow> history \<Rightarrow> unit outcome"
  dht_get :: "string \<Rightarrow> history \<Rightarrow> string outcome"
  dht_peers :: "history \<Rightarrow> nat"
  ctx_err :: "history \<Rightarrow> go_error option"
  wake_up :: "history \<Rightarrow> wake"

text \<open>The services only the orchestrator's key store, the EVM client and the relayer use.\<close>

record env = services +
  ks_sign :: "address \<Rightarrow> bytes \<Rightarrow> history \<Rightarrow> bytes outcome"
  evm_dial :: "history \<Rightarrow> unit outcome"
  evm_pending_nonce :: "address \<Rightarrow> history \<Rightarrow> u64 outcome"
  evm_chain_id :: "history \<Rightarrow> int outcome"
  evm_transactor :: "address \<Rightarrow> history \<Rightarrow> transact_opts outcome"
  contract_event_nonce :: "history \<Rightarrow> nat outcome"
  contract_checkpoint :: "history \<Rightarrow> hash outcome"
  contract_update :: "transact_opts \<Rightarrow> int \<Rightarrow> int \<Rightarrow> int \<Rightarrow> hash \<Rightarrow> eth_validator list \<Rightarrow> vrs list \<Rightarrow> history \<Rightarrow> evm_tx outcome"
  contract_submit :: "transact_opts \<Rightarrow> int \<Rightarrow> int \<Rightarrow> hash \<Rightarrow> eth_validator list \<Rightarrow> vrs list \<Rightarrow> history \<Rightarrow> evm_tx outcome"
  deploy_wrappers :: "transact_opts \<Rightarrow> history \<Rightarrow> (address \<times> evm_tx) outcome"
  deploy_proxy :: "transact_opts \<Rightarrow> address \<Rightarrow> bytes \<Rightarrow> history \<Rightarrow> (address \<times> evm_tx) outcome"
  bind_wrappers :: "address \<Rightarrow> history \<Rightarrow> unit outcome"
  evm_wait_mined :: "evm_tx \<Rightarrow> history \<Rightarrow> nat outcome"
  evm_suggest_gas_price :: "history \<Rightarrow> int outcome"
  evm_suggest_tip :: "history \<Rightarrow> int outcome"
  evm_header :: "history \<Rightarrow> int option outcome"
  evm_sign_tx :: "address \<Rightarrow> evm_tx \<Rightarrow> history \<Rightarrow> evm_tx outcome"
  evm_send_tx :: "evm_tx \<Rightarrow> history \<Rightarrow> unit outcome"
  store_batch :: "history \<Rightarrow> unit outcome"
  store_has :: "string \<Rightarrow> history \<Rightarrow> bool outcome"
  store_put :: "string \<Rightarrow> string \<Rightarrow> history \<Rightarrow> unit outcome"
  store_commit :: "history \<Rightarrow> unit outcome"

section \<open>Conversions\<close>

text \<open>\<open>int64(x)\<close> and \<open>big.NewInt(int64(x))\<close> of an unsigned 64-bit value.\<close>

definition int64 :: "u64 \<Rightarrow> int" where
  "int64 x = sint x"

lemma int64_small:
  assumes "unat x < 2 ^ 63"
  shows "int64 x = int (unat x)"
proof -
  have "int (unat x) < int (2 ^ 63)" using assms by (simp only: of_nat_less_iff)
  then have u: "uint x < 2 ^ 63" by simp
  have "sint x = signed_take_bit 63 (uint x)" by (simp add: sint_uint)
  also have "\<dots> = uint x" by (rule signed_take_bit_int_eq_self) (use u uint_ge_0 [of x] in linarith)+
  finally show ?thesis by (simp add: int64_def)
qed

end
