(* ===== verification/Types.thy ===== *)
theory Types imports World begin

text \<open>
  The package \<open>types\<close>: the confirms that are put on the DHT, the latest validator set, their JSON
  encodings, and the digest of a data commitment that is signed over.
\<close>

section \<open>types/data\_commitment\_confirm.go\<close>

record DataCommitmentConfirm =
  DccSignature :: string
  DccEthAddress :: string

definition NewDataCommitmentConfirm :: "lib \<Rightarrow> string \<Rightarrow> address \<Rightarrow> DataCommitmentConfirm" where
  "NewDataCommitmentConfirm L signature ethAddress =
     \<lparr>DccSignature = signature, DccEthAddress = AddressHex L ethAddress\<rparr>"

definition dcc_json :: "DataCommitmentConfirm \<Rightarrow> json" where
  "dcc_json dcc = JObj [(''Signature'', JStr (DccSignature dcc)), (''EthAddress'', JStr (DccEthAddress dcc))]"

definition dcc_field :: "string \<Rightarrow> json \<Rightarrow> DataCommitmentConfirm \<Rightarrow> DataCommitmentConfirm outcome" where
  "dcc_field k v dcc =
     (if k = ''signature'' then obind (decode_string v (DccSignature dcc)) (\<lambda>s. Ok (dcc\<lparr>DccSignature := s\<rparr>))
      else if k = ''ethaddress'' then obind (decode_string v (DccEthAddress dcc)) (\<lambda>s. Ok (dcc\<lparr>DccEthAddress := s\<rparr>))
      else Ok dcc)"

definition MarshalDataCommitmentConfirm :: "DataCommitmentConfirm \<Rightarrow> string outcome" where
  "MarshalDataCommitmentConfirm dcc = Ok (print (dcc_json dcc))"

definition UnmarshalDataCommitmentConfirm :: "string \<Rightarrow> DataCommitmentConfirm outcome" where
  "UnmarshalDataCommitmentConfirm encoded =
     obind (parse encoded) (decode_struct dcc_field \<lparr>DccSignature = [], DccEthAddress = []\<rparr>)"

definition IsEmptyMsgDataCommitmentConfirm :: "DataCommitmentConfirm \<Rightarrow> bool" where
  "IsEmptyMsgDataCommitmentConfirm dcc \<longleftrightarrow> DccEthAddress dcc = [] \<and> DccSignature dcc = []"

text \<open>\<open>copy(dataCommitment[:], commitment)\<close> into 32 zero bytes.\<close>

definition copy32 :: "bytes \<Rightarrow> bytes" where
  "copy32 commitment = take 32 (commitment @ replicate 32 0)"

text \<open>
  \<open>PackDataRootTupleRoot\<close> is the ABI encoding of the call with the domain separator, the nonce and
  the 32 bytes; slicing off the first 4 bytes of its result panics if there are fewer.
\<close>

definition DataCommitmentTupleRootSignBytes :: "lib \<Rightarrow> int \<Rightarrow> bytes \<Rightarrow> hash outcome" where
  "DataCommitmentTupleRootSignBytes L nonce commitment =
     (case PackDataRootTupleRoot L nonce (copy32 commitment) of
        Err e \<Rightarrow> Panic ''Error packing checkpoint!''
      | Ok bs \<Rightarrow>
          if length bs < 4 then Panic ''slice bounds out of range''
          else Ok (Keccak256Hash L (drop 4 bs))
      | Panic p \<Rightarrow> Panic p
      | Blocked \<Rightarrow> Blocked)"

section \<open>types/valset\_confirm.go\<close>

record ValsetConfirm =
  VcEthAddress :: string
  VcSignature :: string

definition NewValsetConfirm :: "lib \<Rightarrow> address \<Rightarrow> string \<Rightarrow> ValsetConfirm" where
  "NewValsetConfirm L ethAddress signature =
     \<lparr>VcEthAddress = AddressHex L ethAddress, VcSignature = signature\<rparr>"

definition vc_json :: "ValsetConfirm \<Rightarrow> json" where
  "vc_json vc = JObj [(''EthAddress'', JStr (VcEthAddress vc)), (''Signature'', JStr (VcSignature vc))]"

definition vc_field :: "string \<Rightarrow> json \<Rightarrow> ValsetConfirm \<Rightarrow> ValsetConfirm outcome" where
  "vc_field k v vc =
     (if k = ''ethaddress'' then obind (decode_string v (VcEthAddress vc)) (\<lambda>s. Ok (vc\<lparr>VcEthAddress := s\<rparr>))
      else if k = ''signature'' then obind (decode_string v (VcSignature vc)) (\<lambda>s. Ok (vc\<lparr>VcSignature := s\<rparr>))
      else Ok vc)"

definition MarshalValsetConfirm :: "ValsetConfirm \<Rightarrow> string outcome" where
  "MarshalValsetConfirm vc = Ok (print (vc_json vc))"

definition UnmarshalValsetConfirm :: "string \<Rightarrow> ValsetConfirm outcome" where
  "UnmarshalValsetConfirm encoded =
     obind (parse encoded) (decode_struct vc_field \<lparr>VcEthAddress = [], VcSignature = []\<rparr>)"

definition IsEmptyValsetConfirm :: "ValsetConfirm \<Rightarrow> bool" where
  "IsEmptyValsetConfirm vc \<longleftrightarrow> VcEthAddress vc = [] \<and> VcSignature vc = []"

section \<open>types/latest\_valset.go\<close>

record LatestValset =
  LvNonce :: u64
  LvMembers :: "bridge_validator list"
  LvHeight :: u64

definition ToValset :: "LatestValset \<Rightarrow> valset" where
  "ToValset v = \<lparr>Nonce = LvNonce v, Members = LvMembers v, Height = LvHeight v, Time = 1\<rparr>"

definition ToLatestValset :: "valset \<Rightarrow> LatestValset" where
  "ToLatestValset vs = \<lparr>LvNonce = Nonce vs, LvMembers = Members vs, LvHeight = Height vs\<rparr>"

definition uint_json :: "u64 \<Rightarrow> json" where
  "uint_json n = JNum (FormatUint 10 (unat n))"

definition member_json :: "bridge_validator \<Rightarrow> json" where
  "member_json m = JObj
     ((if Power m = 0 then [] else [(''power'', uint_json (Power m))]) @
      (if EvmAddress m = [] then [] else [(''evm_address'', JStr (EvmAddress m))]))"

definition lv_json :: "LatestValset \<Rightarrow> json" where
  "lv_json lv = JObj
     ((if LvNonce lv = 0 then [] else [(''nonce'', uint_json (LvNonce lv))]) @
      [(''members'', print_slice (map member_json (LvMembers lv)))] @
      (if LvHeight lv = 0 then [] else [(''height'', uint_json (LvHeight lv))]))"

definition member_field :: "string \<Rightarrow> json \<Rightarrow> bridge_validator \<Rightarrow> bridge_validator outcome" where
  "member_field k v m =
     (if k = ''power'' then obind (decode_uint64 v (Power m)) (\<lambda>n. Ok (m\<lparr>Power := n\<rparr>))
      else if k = ''evm_address'' then obind (decode_string v (EvmAddress m)) (\<lambda>s. Ok (m\<lparr>EvmAddress := s\<rparr>))
      else Ok m)"

definition lv_field :: "string \<Rightarrow> json \<Rightarrow> LatestValset \<Rightarrow> LatestValset outcome" where
  "lv_field k v lv =
     (if k = ''nonce'' then obind (decode_uint64 v (LvNonce lv)) (\<lambda>n. Ok (lv\<lparr>LvNonce := n\<rparr>))
      else if k = ''members'' then
        obind (decode_slice (decode_struct member_field \<lparr>Power = 0, EvmAddress = []\<rparr>) v)
          (\<lambda>ms. Ok (lv\<lparr>LvMembers := ms\<rparr>))
      else if k = ''height'' then obind (decode_uint64 v (LvHeight lv)) (\<lambda>n. Ok (lv\<lparr>LvHeight := n\<rparr>))
      else Ok lv)"

definition MarshalLatestValset :: "LatestValset \<Rightarrow> string outcome" where
  "MarshalLatestValset lv = Ok (print (lv_json lv))"

definition UnmarshalLatestValset :: "string \<Rightarrow> LatestValset outcome" where
  "UnmarshalLatestValset encoded =
     obind (parse encoded) (decode_struct lv_field \<lparr>LvNonce = 0, LvMembers = [], LvHeight = 0\<rparr>)"

definition IsEmptyLatestValset :: "LatestValset \<Rightarrow> bool" where
  "IsEmptyLatestValset lv \<longleftrightarrow> LvNonce lv = 0 \<and> LvHeight lv = 0 \<and> length (LvMembers lv) = 0"

text \<open>Indexing \<open>lvs.Members\<close> beyond its end panics.\<close>

fun same_members :: "bridge_validator list \<Rightarrow> bridge_validator list \<Rightarrow> bool outcome" where
  "same_members [] ms = Ok True"
| "same_members (v # vs) [] = Panic ''index out of range''"
| "same_members (v # vs) (m # ms) =
     (if EvmAddress v \<noteq> EvmAddress m \<or> Power v \<noteq> Power m then Ok False else same_members vs ms)"

definition IsValsetEqualToLatestValset :: "valset \<Rightarrow> LatestValset \<Rightarrow> bool outcome" where
  "IsValsetEqualToLatestValset vs lvs =
     obind (same_members (Members vs) (LvMembers lvs))
       (\<lambda>b. Ok (b \<and> Nonce vs = LvNonce lvs \<and> Height vs = LvHeight lvs))"

section \<open>Encodings are read back\<close>

definition dcc_utf8 :: "DataCommitmentConfirm \<Rightarrow> bool" where
  "dcc_utf8 dcc \<longleftrightarrow> valid_utf8 (DccSignature dcc) \<and> valid_utf8 (DccEthAddress dcc)"

definition vc_utf8 :: "ValsetConfirm \<Rightarrow> bool" where
  "vc_utf8 vc \<longleftrightarrow> valid_utf8 (VcEthAddress vc) \<and> valid_utf8 (VcSignature vc)"

definition lv_utf8 :: "LatestValset \<Rightarrow> bool" where
  "lv_utf8 lv \<longleftrightarrow> list_all (\<lambda>m. valid_utf8 (EvmAddress m)) (LvMembers lv)"

lemma valid_utf8_ascii: "list_all (\<lambda>c. cn c < 128) s \<Longrightarrow> valid_utf8 s"
  by (induction s) (simp_all add: valid_utf8.simps)

lemma lower_keys [simp]:
  "ToLower ''Signature'' = ''signature''" "ToLower ''EthAddress'' = ''ethaddress''"
  "ToLower ''power'' = ''power''" "ToLower ''evm_address'' = ''evm_address''"
  "ToLower ''nonce'' = ''nonce''" "ToLower ''members'' = ''members''" "ToLower ''height'' = ''height''"
  by code_simp+

lemma ascii_keys [simp]:
  "valid_utf8 ''Signature''" "valid_utf8 ''EthAddress''" "valid_utf8 ''power''"
  "valid_utf8 ''evm_address''" "valid_utf8 ''nonce''" "valid_utf8 ''members''" "valid_utf8 ''height''"
  by (rule valid_utf8_ascii; simp)+

lemma uint_json_ok [simp]: "json_ok (uint_json n)"
  by (auto simp: uint_json_def)

lemma decode_uint_json [simp]: "decode_uint64 (uint_json n) old = Ok n"
  by (simp add: uint_json_def ParseUint_FormatUint)

lemma dcc_json_ok: "dcc_utf8 dcc \<Longrightarrow> json_ok (dcc_json dcc)"
  by (simp add: dcc_json_def dcc_utf8_def)

lemma vc_json_ok: "vc_utf8 vc \<Longrightarrow> json_ok (vc_json vc)"
  by (simp add: vc_json_def vc_utf8_def)

lemma member_json_ok: "valid_utf8 (EvmAddress m) \<Longrightarrow> json_ok (member_json m)"
  by (simp add: member_json_def)

lemma lv_json_ok: "lv_utf8 lv \<Longrightarrow> json_ok (lv_json lv)"
  by (auto simp: lv_json_def lv_utf8_def print_slice_def list_all_iff member_json_ok)

lemma Unmarshal_Marshal_dcc:
  "dcc_utf8 dcc \<Longrightarrow> obind (MarshalDataCommitmentConfirm dcc) UnmarshalDataCommitmentConfirm = Ok dcc"
  by (simp add: MarshalDataCommitmentConfirm_def UnmarshalDataCommitmentConfirm_def parse_print dcc_json_ok)
    (simp add: dcc_json_def dcc_field_def)

lemma Unmarshal_Marshal_vc:
  "vc_utf8 vc \<Longrightarrow> obind (MarshalValsetConfirm vc) UnmarshalValsetConfirm = Ok vc"
  by (simp add: MarshalValsetConfirm_def UnmarshalValsetConfirm_def parse_print vc_json_ok)
    (simp add: vc_json_def vc_field_def)

lemma decode_member_json:
  "decode_struct member_field \<lparr>Power = 0, EvmAddress = []\<rparr> (member_json m) = Ok m"
  by (cases m) (simp add: member_json_def member_field_def)

lemma decode_members_json:
  "decode_slice (decode_struct member_field \<lparr>Power = 0, EvmAddress = []\<rparr>) (print_slice (map member_json ms)) = Ok ms"
  by (simp add: decode_slice_print_slice decode_slice_map decode_member_json)

lemma Unmarshal_Marshal_lv:
  "lv_utf8 lv \<Longrightarrow> obind (MarshalLatestValset lv) UnmarshalLatestValset = Ok lv"
  by (simp add: MarshalLatestValset_def UnmarshalLatestValset_def parse_print lv_json_ok)
    (cases lv; simp add: lv_json_def lv_field_def decode_members_json)

section \<open>Properties\<close>

text \<open>C18: A confirm that is marshalled for the DHT is read back unchanged, of both kinds.\<close>

theorem confirms_roundtrip:
  assumes "dcc_utf8 dcc" and "vc_utf8 vc"
  shows "obind (MarshalDataCommitmentConfirm dcc) UnmarshalDataCommitmentConfirm = Ok dcc \<and>
    obind (MarshalValsetConfirm vc) UnmarshalValsetConfirm = Ok vc"
  using assms by (simp add: Unmarshal_Marshal_dcc Unmarshal_Marshal_vc)

definition sample_dcc :: DataCommitmentConfirm where
  "sample_dcc = \<lparr>DccSignature = ''01ab'', DccEthAddress = ''<0xA>&''\<rparr>"

definition sample_vc :: ValsetConfirm where
  "sample_vc = \<lparr>VcEthAddress = ''0xAb'', VcSignature = [CHR 0x0A, CHR 0xE2, CHR 0x80, CHR 0xA8]\<rparr>"

lemma sample_utf8: "dcc_utf8 sample_dcc" "vc_utf8 sample_vc"
  by (simp_all add: dcc_utf8_def vc_utf8_def sample_dcc_def sample_vc_def valid_utf8_ascii)
    (simp add: valid_utf8.simps rune_len_def cont_byte_def)

theorem confirms_roundtrip_witness:
  "obind (MarshalDataCommitmentConfirm sample_dcc) UnmarshalDataCommitmentConfirm = Ok sample_dcc \<and>
    obind (MarshalValsetConfirm sample_vc) UnmarshalValsetConfirm = Ok sample_vc"
  using confirms_roundtrip [of sample_dcc sample_vc] sample_utf8 by simp

text \<open>
  C19: The latest valset is read back unchanged, and what is read back stands for the same valset
  but for its time: fields that \<open>omitempty\<close> leaves out come back as zeros.
\<close>

theorem latest_valset_roundtrip:
  assumes "lv_utf8 (ToLatestValset vs)"
  shows "obind (MarshalLatestValset (ToLatestValset vs)) UnmarshalLatestValset = Ok (ToLatestValset vs) \<and>
    ToValset (ToLatestValset vs) = vs\<lparr>Time := 1\<rparr> \<and>
    IsValsetEqualToLatestValset vs (ToLatestValset vs) = Ok True"
proof -
  have "same_members ms ms = Ok True" for ms by (induction ms) auto
  then show ?thesis using assms
    by (simp add: Unmarshal_Marshal_lv IsValsetEqualToLatestValset_def)
      (simp add: ToLatestValset_def ToValset_def)
qed

definition sample_valset :: valset where
  "sample_valset = \<lparr>Nonce = 10, Members = [\<lparr>Power = 100, EvmAddress = ''evm_addr1''\<rparr>, \<lparr>Power = 0, EvmAddress = []\<rparr>], Height = 0, Time = 7\<rparr>"

theorem latest_valset_roundtrip_witness:
  "obind (MarshalLatestValset (ToLatestValset sample_valset)) UnmarshalLatestValset = Ok (ToLatestValset sample_valset) \<and>
    ToValset (ToLatestValset sample_valset) = sample_valset\<lparr>Time := 1\<rparr> \<and>
    IsValsetEqualToLatestValset sample_valset (ToLatestValset sample_valset) = Ok True"
  by (rule latest_valset_roundtrip)
    (simp add: lv_utf8_def ToLatestValset_def sample_valset_def valid_utf8_ascii)

text \<open>
  \<open>IsValsetEqualToLatestValset\<close> compares the members up to the shorter of the two lists: it
  panics when the latest valset is a proper prefix of the valset, and it ignores the members the
  latest valset has beyond those of the valset.
\<close>

theorem IsValsetEqualToLatestValset_prefix:
  "IsValsetEqualToLatestValset vs lvs =
     (let k = min (length (Members vs)) (length (LvMembers lvs)) in
      if take k (Members vs) \<noteq> take k (LvMembers lvs) then Ok False
      else if length (LvMembers lvs) < length (Members vs) then Panic ''index out of range''
      else Ok (Nonce vs = LvNonce lvs \<and> Height vs = LvHeight lvs))"
proof -
  have "same_members ms ns =
     (if take (min (length ms) (length ns)) ms \<noteq> take (min (length ms) (length ns)) ns then Ok False
      else if length ns < length ms then Panic ''index out of range'' else Ok True)" for ms ns
    by (induction ms ns rule: same_members.induct) (auto simp: bridge_validator.equality)
  then show ?thesis by (simp add: IsValsetEqualToLatestValset_def Let_def)
qed

end
