(* ===== verification/Keys.thy ===== *)
theory Keys imports Types begin

text \<open>
  \<open>p2p/keys.go\<close>: the keys under which confirms are stored in the DHT, and their parser. Both
  confirm keys have the same shape in different namespaces; the locale \<open>confirm_key\<close> states it, and
  what follows from it is proved once.
\<close>

definition DataCommitmentConfirmNamespace :: string where
  "DataCommitmentConfirmNamespace = ''dcc''"

definition ValsetConfirmNamespace :: string where
  "ValsetConfirmNamespace = ''vc''"

definition LatestValsetNamespace :: string where
  "LatestValsetNamespace = ''lv''"

definition GetDataCommitmentConfirmKey :: "u64 \<Rightarrow> string \<Rightarrow> string \<Rightarrow> string" where
  "GetDataCommitmentConfirmKey nonce evmAddr dataRootTupleRoot =
     ''/'' @ DataCommitmentConfirmNamespace @ ''/'' @
     FormatUint 16 (unat nonce) @ '':'' @ evmAddr @ '':'' @ dataRootTupleRoot"

definition GetValsetConfirmKey :: "u64 \<Rightarrow> string \<Rightarrow> string \<Rightarrow> string" where
  "GetValsetConfirmKey nonce evmAddr signBytes =
     ''/'' @ ValsetConfirmNamespace @ ''/'' @
     FormatUint 16 (unat nonce) @ '':'' @ evmAddr @ '':'' @ signBytes"

definition GetLatestValsetKey :: string where
  "GetLatestValsetKey = ''/'' @ LatestValsetNamespace @ ''/latest''"

text \<open>The result is the namespace, the nonce, the EVM address and the digest.\<close>

definition ParseKey :: "string \<Rightarrow> (string \<times> u64 \<times> string \<times> string) outcome" where
  "ParseKey key =
     (let parts = Split CHR ''/'' key in
      if length parts \<noteq> 3 then Err ErrInvalidConfirmKey
      else
        (let namespace = parts ! 1 in
         if namespace = [] then Err ErrEmptyNamespace
         else
           (let values = Split CHR '':'' (parts ! 2) in
            if length values \<noteq> 3 then Err ErrInvalidConfirmKey
            else
              (case ParseUint 16 (values ! 0) of
                 Err e \<Rightarrow> Err (Errorf ''failed to parse nonce'')
               | Ok nonce \<Rightarrow>
                   (let evmAddr = values ! 1; digest = values ! 2 in
                    if evmAddr = [] then Err ErrEmptyEVMAddr
                    else if digest = [] then Err ErrEmptyDigest
                    else Ok (namespace, nonce, evmAddr, digest))
               | Panic p \<Rightarrow> Panic p
               | Blocked \<Rightarrow> Blocked))))"

section \<open>Parsing what was built\<close>

definition key_part :: "string \<Rightarrow> bool" where
  "key_part s \<longleftrightarrow> s \<noteq> [] \<and> CHR ''/'' \<notin> set s \<and> CHR '':'' \<notin> set s"

lemma FormatUint_separators [simp]:
  "CHR ''/'' \<notin> set (FormatUint 16 n)" "CHR '':'' \<notin> set (FormatUint 16 n)"
  by (rule FormatUint_fresh; simp add: digit_val_def)+

text \<open>Keys of the shape \<open>/namespace/nonce:address:digest\<close>.\<close>

locale confirm_key =
  fixes namespace :: string and make :: "u64 \<Rightarrow> string \<Rightarrow> string \<Rightarrow> string"
  assumes make_def: "make n a d =
      CHR ''/'' # namespace @ CHR ''/'' # FormatUint 16 (unat n) @ CHR '':'' # a @ CHR '':'' # d"
    and namespace_part: "key_part namespace"
begin

lemma split_slash:
  assumes "CHR ''/'' \<notin> set a" "CHR ''/'' \<notin> set d"
  shows "Split CHR ''/'' (make n a d) =
     [[], namespace, FormatUint 16 (unat n) @ CHR '':'' # a @ CHR '':'' # d]"
  using assms namespace_part by (simp add: make_def key_part_def Split_append Split_fresh)

lemma split_colon:
  assumes "CHR '':'' \<notin> set a" "CHR '':'' \<notin> set d"
  shows "Split CHR '':'' (FormatUint 16 (unat n) @ CHR '':'' # a @ CHR '':'' # d) =
     [FormatUint 16 (unat n), a, d]"
  using assms by (simp add: Split_append Split_fresh)

lemma parse_make: "key_part a \<Longrightarrow> key_part d \<Longrightarrow> ParseKey (make n a d) = Ok (namespace, n, a, d)"
  using namespace_part
  by (simp add: ParseKey_def split_slash split_colon key_part_def ParseUint_FormatUint)

lemma make_namespace: "Split CHR ''/'' (make n a d) ! 1 = namespace"
  using namespace_part by (simp add: make_def key_part_def Split_append)

lemma make_inject:
  assumes "key_part a" "key_part d" "key_part a'" "key_part d'" "make n a d = make n' a' d'"
  shows "n = n' \<and> a = a' \<and> d = d'"
  using parse_make [OF assms(1,2), of n] parse_make [OF assms(3,4), of n'] unfolding assms(5) by simp

end

interpretation dcc_key: confirm_key DataCommitmentConfirmNamespace GetDataCommitmentConfirmKey
  by unfold_locales (simp_all add: GetDataCommitmentConfirmKey_def DataCommitmentConfirmNamespace_def key_part_def)

interpretation vc_key: confirm_key ValsetConfirmNamespace GetValsetConfirmKey
  by unfold_locales (simp_all add: GetValsetConfirmKey_def ValsetConfirmNamespace_def key_part_def)

section \<open>What parsing accepts\<close>

lemma length_3: "length xs = 3 \<longleftrightarrow> (\<exists>a b c. xs = [a, b, c])"
  by (auto simp: numeral_eq_Suc length_Suc_conv)

lemma ParseKey_Ok:
  assumes "ParseKey key = Ok (ns, n, a, d)"
  obtains p x where "key = p @ CHR ''/'' # ns @ CHR ''/'' # x @ CHR '':'' # a @ CHR '':'' # d"
    and "ParseUint 16 x = Ok n" and "ns \<noteq> []" and "key_part a" and "key_part d"
proof -
  from assms obtain p v x where s: "Split CHR ''/'' key = [p, ns, v]" "Split CHR '':'' v = [x, a, d]"
    and n: "ParseUint 16 x = Ok n" and ne: "ns \<noteq> []" "a \<noteq> []" "d \<noteq> []"
    by (auto simp: ParseKey_def Let_def length_3 split: if_splits outcome.splits)
  have key: "key = p @ CHR ''/'' # ns @ CHR ''/'' # v" using join_Split [of "CHR ''/''" key] s by simp
  have v: "v = x @ CHR '':'' # a @ CHR '':'' # d" using join_Split [of "CHR '':''" v] s by simp
  have c: "CHR '':'' \<notin> set a" "CHR '':'' \<notin> set d" by (rule Split_fresh_parts [of _ _ v]; simp add: s)+
  have "CHR ''/'' \<notin> set v" by (rule Split_fresh_parts [of _ _ key]) (simp add: s)
  then have "key_part a" "key_part d" using v c ne by (auto simp: key_part_def)
  then show thesis using that [of p x] key v n ne by simp
qed

lemma ParseKey_namespace: "ParseKey key = Ok (ns, n, a, d) \<Longrightarrow> Split CHR ''/'' key ! 1 = ns"
  by (auto simp: ParseKey_def Let_def split: if_splits outcome.splits)

lemma namespaces_distinct: "DataCommitmentConfirmNamespace \<noteq> ValsetConfirmNamespace"
  by (simp add: DataCommitmentConfirmNamespace_def ValsetConfirmNamespace_def)

lemma ParseKey_total: "(\<exists>v. ParseKey key = Ok v) \<or> (\<exists>e. ParseKey key = Err e)"
proof -
  have pd: "(\<exists>v. parse_digits 16 s n = Ok v) \<or> (\<exists>e. parse_digits 16 s n = Err e)" for s n
    by (induction s arbitrary: n) (auto split: option.splits)
  have "(\<exists>v. ParseUint 16 s = Ok v) \<or> (\<exists>e. ParseUint 16 s = Err e)" for s
    using pd [of s 0] by (auto simp: ParseUint_def)
  then show ?thesis
    by (auto simp: ParseKey_def Let_def split: outcome.splits) (metis outcome.distinct)+
qed

lemma ParseKey_latest: "ParseKey GetLatestValsetKey = Err ErrInvalidConfirmKey"
  by (simp add: ParseKey_def GetLatestValsetKey_def LatestValsetNamespace_def)

section \<open>Properties\<close>

text \<open>
  C17: Parsing a key that was built from an address and a digest without separators gives back the
  namespace, the nonce, the address and the digest.
\<close>

theorem ParseKey_built_keys:
  assumes "key_part evmAddr" and "key_part digest"
  shows "ParseKey (GetDataCommitmentConfirmKey nonce evmAddr digest) = Ok (DataCommitmentConfirmNamespace, nonce, evmAddr, digest) \<and>
    ParseKey (GetValsetConfirmKey nonce evmAddr digest) = Ok (ValsetConfirmNamespace, nonce, evmAddr, digest)"
  using assms by (simp add: dcc_key.parse_make vc_key.parse_make)

theorem ParseKey_built_keys_witness:
  "ParseKey (GetDataCommitmentConfirmKey 255 ''0xAB'' ''0x01'') = Ok (DataCommitmentConfirmNamespace, 255, ''0xAB'', ''0x01'') \<and>
    ParseKey (GetValsetConfirmKey 255 ''0xAB'' ''0x01'') = Ok (ValsetConfirmNamespace, 255, ''0xAB'', ''0x01'')"
  by (rule ParseKey_built_keys) (simp_all add: key_part_def)

text \<open>
  Whatever \<open>ParseKey\<close> accepts has the documented shape, with a hexadecimal nonce and non-empty
  fields free of separators, and keys of the two kinds of confirms and of the latest valset
  are never confused: a key accepted in one namespace is not one built for another.
\<close>

theorem ParseKey_sound:
  assumes "ParseKey key = Ok (ns, n, a, d)"
  shows "\<exists>p x. key = p @ ''/'' @ ns @ ''/'' @ x @ '':'' @ a @ '':'' @ d \<and> ParseUint 16 x = Ok n \<and>
    ns \<noteq> [] \<and> key_part a \<and> key_part d \<and>
    (ns = ValsetConfirmNamespace \<longrightarrow> key \<noteq> GetDataCommitmentConfirmKey n' a' d') \<and>
    (ns = DataCommitmentConfirmNamespace \<longrightarrow> key \<noteq> GetValsetConfirmKey n' a' d') \<and>
    key \<noteq> GetLatestValsetKey"
proof -
  have k: "ns = DataCommitmentConfirmNamespace" if "key = GetDataCommitmentConfirmKey n' a' d'"
    using ParseKey_namespace [OF assms] dcc_key.make_namespace that by simp
  have v: "ns = ValsetConfirmNamespace" if "key = GetValsetConfirmKey n' a' d'"
    using ParseKey_namespace [OF assms] vc_key.make_namespace that by simp
  have "key \<noteq> GetLatestValsetKey" using assms ParseKey_latest by auto
  moreover obtain p x where "key = p @ ''/'' @ ns @ ''/'' @ x @ '':'' @ a @ '':'' @ d"
    "ParseUint 16 x = Ok n" "ns \<noteq> []" "key_part a" "key_part d"
    using assms by (rule ParseKey_Ok) simp
  ultimately show ?thesis using k v namespaces_distinct by metis
qed

theorem ParseKey_sound_witness:
  "GetValsetConfirmKey 255 ''0xAB'' ''0x01'' \<noteq> GetDataCommitmentConfirmKey 1 [] [] \<and>
   GetValsetConfirmKey 255 ''0xAB'' ''0x01'' \<noteq> GetLatestValsetKey"
proof -
  have k: "ParseKey (GetValsetConfirmKey 255 ''0xAB'' ''0x01'') = Ok (ValsetConfirmNamespace, 255, ''0xAB'', ''0x01'')"
    by (rule vc_key.parse_make) (simp_all add: key_part_def)
  show ?thesis using ParseKey_sound [OF k, of 1 "[]" "[]"] by blast
qed

end
