(* ===== verification/HexOrder.thy ===== *)
theory HexOrder imports GoStd begin

text \<open>
  Comparing byte strings through their hexadecimal encodings: on encodings of one length the
  order of Go's strings is the order of the numbers they stand for.
\<close>

text \<open>The value of a byte sequence read as a big-endian number (a 32-byte hash as a uint256).\<close>

definition be_value :: "bytes \<Rightarrow> nat" where
  "be_value bs = foldl (\<lambda>n b. n * 256 + unat b) 0 bs"

text \<open>
  Comparing two strings with \<open><\<close> compares them byte by byte. On lower-case hex encodings of byte
  strings of one length this is the numeric comparison.
\<close>

fun str_le :: "string \<Rightarrow> string \<Rightarrow> bool" where
  "str_le [] t = True"
| "str_le (x # s) [] = False"
| "str_le (x # s) (y # t) = ((of_char x :: nat) < of_char y \<or> (x = y \<and> str_le s t))"

lemma be_value_Nil [simp]: "be_value [] = 0"
  by (simp add: be_value_def)

lemma be_value_Cons: "be_value (b # bs) = unat b * 256 ^ length bs + be_value bs"
proof -
  have "foldl (\<lambda>n b. n * 256 + unat b) k bs = k * 256 ^ length bs + foldl (\<lambda>n b. n * 256 + unat b) 0 bs" for k
    by (induction bs rule: rev_induct) (simp_all add: algebra_simps)
  from this [of "unat b"] show ?thesis by (simp add: be_value_def)
qed

lemma be_value_less: "be_value bs < 256 ^ length bs"
proof (induction bs)
  case (Cons b bs)
  have "unat b + 1 \<le> 256" using unat_byte_less [of b] by linarith
  then have "(unat b + 1) * 256 ^ length bs \<le> 256 * 256 ^ length bs" by (rule mult_le_mono1)
  moreover have "be_value (b # bs) < (unat b + 1) * 256 ^ length bs"
    using Cons.IH by (simp only: be_value_Cons add_mult_distrib)
  ultimately show ?case by (simp only: length_Cons power_Suc)
qed simp

lemma digit_char_less_iff:
  "d < 16 \<Longrightarrow> e < 16 \<Longrightarrow> (of_char (digit_char d) :: nat) < of_char (digit_char e) \<longleftrightarrow> d < e"
  by (simp add: of_char_digit_char)

lemma digit_char_eq_iff: "d < 16 \<Longrightarrow> e < 16 \<Longrightarrow> digit_char d = digit_char e \<longleftrightarrow> d = e"
  by (metis hex_val_digit_char option.inject)

lemma lexicographic_value:
  assumes "x < M" "y < M"
  shows "a * M + x \<le> b * M + y \<longleftrightarrow> a < b \<or> (a = b \<and> x \<le> (y :: nat))"
proof (cases a b rule: linorder_cases)
  case less
  then have "(a + 1) * M \<le> b * M" by (intro mult_le_mono1) simp
  with assms less show ?thesis by simp
next
  case greater
  then have "(b + 1) * M \<le> a * M" by (intro mult_le_mono1) simp
  with assms greater show ?thesis by simp
qed simp

lemma nibbles_less_iff:
  "(a :: nat) div 16 < b div 16 \<or> (a div 16 = b div 16 \<and> a mod 16 < b mod 16) \<longleftrightarrow> a < b"
  using lexicographic_value [of "b mod 16" 16 "a mod 16" "b div 16" "a div 16"] by auto

lemma str_le_hex:
  "length xs = length ys \<Longrightarrow>
   str_le (hex_EncodeToString xs) (hex_EncodeToString ys) \<longleftrightarrow> be_value xs \<le> be_value ys"
proof (induction xs ys rule: list_induct2)
  case (Cons x xs y ys)
  have n: "unat x div 16 < 16" "unat x mod 16 < 16" "unat y div 16 < 16" "unat y mod 16 < 16"
    by (simp_all add: less_mult_imp_div_less)
  have "be_value (x # xs) \<le> be_value (y # ys) \<longleftrightarrow>
      unat x < unat y \<or> (unat x = unat y \<and> be_value xs \<le> be_value ys)"
    using lexicographic_value [of "be_value xs" "256 ^ length ys" "be_value ys" "unat x" "unat y"]
      be_value_less [of xs] be_value_less [of ys] Cons.hyps by (simp add: be_value_Cons)
  moreover have "unat x = unat y \<longleftrightarrow> unat x div 16 = unat y div 16 \<and> unat x mod 16 = unat y mod 16"
    by (metis div_mult_mod_eq)
  ultimately show ?case
    using n nibbles_less_iff [of "unat x" "unat y"] Cons.IH
    by (auto simp: digit_char_less_iff digit_char_eq_iff)
qed simp

lemma str_le_append: "str_le (p @ s) (p @ t) \<longleftrightarrow> str_le s t"
  by (induction p) auto

lemma lower_digit_char: "d < 16 \<Longrightarrow> lower_char (digit_char d) = digit_char d"
  by (simp add: lower_char_def of_char_digit_char)

lemma ToLower_hex [simp]: "ToLower (hex_EncodeToString bs) = hex_EncodeToString bs"
  by (induction bs) (simp_all add: ToLower_def lower_digit_char less_mult_imp_div_less)

lemma hex_inject: "hex_EncodeToString xs = hex_EncodeToString ys \<longleftrightarrow> xs = ys"
  by (metis hex_roundtrip outcome.inject(1))

lemma hex_no_x: "CHR ''x'' \<notin> set (hex_EncodeToString bs)" "CHR ''X'' \<notin> set (hex_EncodeToString bs)"
proof -
  have "hex_val (CHR ''x'') = None" "hex_val (CHR ''X'') = None"
    by (simp_all add: hex_val_def digit_val_def)
  then show "CHR ''x'' \<notin> set (hex_EncodeToString bs)" "CHR ''X'' \<notin> set (hex_EncodeToString bs)"
    using set_hex_EncodeToString by (metis hex_val_digit_char option.distinct(1))+
qed

lemma take_2_hex: "take 2 (hex_EncodeToString bs) \<noteq> ''0x''" "take 2 (hex_EncodeToString bs) \<noteq> ''0X''"
  using hex_no_x [of bs] by (metis in_set_takeD list.set_intros)+

end
