(* ===== verification/Reference.thy ===== *)
theory Reference imports World HexOrder begin

text \<open>
  One concrete instance of the library parameters, on which the hypotheses of theorems are shown
  to hold. The functions on hex strings are those of go-ethereum's \<open>common\<close> but for the mixed-case
  checksum of addresses; the hash, the signature scheme and the ABI encodings are toy ones: a
  signature is the signer's address followed by the digest and a recovery byte.
\<close>

definition strip0x :: "string \<Rightarrow> string" where
  "strip0x s = (if take 2 s = ''0x'' \<or> take 2 s = ''0X'' then drop 2 s else s)"

definition left_pad :: "nat \<Rightarrow> bytes \<Rightarrow> bytes" where
  "left_pad n bs = (if length bs \<le> n then replicate (n - length bs) 0 @ bs else drop (length bs - n) bs)"

definition from_hex :: "string \<Rightarrow> bytes" where
  "from_hex s =
     (let t = strip0x s; t' = (if odd (length t) then CHR ''0'' # t else t)
      in (case hex_DecodeString t' of Ok bs \<Rightarrow> bs | _ \<Rightarrow> []))"

definition be_bytes :: "nat \<Rightarrow> nat \<Rightarrow> bytes" where
  "be_bytes k n = map (\<lambda>i. of_nat (n div 256 ^ (k - 1 - i))) [0..<k]"

definition total_power :: "bridge_validator list \<Rightarrow> u64" where
  "total_power ms = sum_list (map Power ms)"

definition ref_lib :: lib where
  "ref_lib = \<lparr>
     IsHexAddress = (\<lambda>s. length (strip0x s) = 40 \<and> list_all (\<lambda>c. hex_val c \<noteq> None) (strip0x s)),
     HexToAddress = (\<lambda>s. left_pad 20 (from_hex s)),
     AddressHex = (\<lambda>a. ''0x'' @ hex_EncodeToString a),
     FromHex = from_hex,
     BytesToHash = left_pad 32,
     HashHex = (\<lambda>h. ''0x'' @ hex_EncodeToString h),
     HexToHash = (\<lambda>s. left_pad 32 (from_hex s)),
     Bytes2Hex = hex_EncodeToString,
     Keccak256Hash = left_pad 32,
     Ecrecover = (\<lambda>h sig. if take 32 (drop 20 sig) = h then Ok (take 20 sig) else Err (Ext ''invalid signature'')),
     UnmarshalPubkey = (\<lambda>p. Ok p),
     PubkeyToAddress = (\<lambda>p. p),
     PackDataRootTupleRoot = (\<lambda>n bs. Ok ([1, 2, 3, 4] @ be_bytes 32 (nat n) @ bs)),
     ValsetSignBytes = (\<lambda>vs. Ok (be_bytes 32 (unat (Nonce vs)))),
     ValsetHash = (\<lambda>vs. Ok (be_bytes 32 (unat (total_power (Members vs))))),
     TwoThirdsThreshold = (\<lambda>vs. 2 * (total_power (Members vs) div 3 + 1)),
     UnpackAny = (\<lambda>a. case a of None \<Rightarrow> Ok None | Some s \<Rightarrow> Err (Ext ''no concrete type registered'')),
     PackInitialize = (\<lambda>n t c. Ok (be_bytes 32 (nat n) @ be_bytes 32 (nat t) @ c)),
     HexBytesString = hex_EncodeToString,
     NewLegacyTx = (\<lambda>t. \<lparr>TxNonce = TxNonce t, TxGas = TxGas t, TxTo = TxTo t, TxValue = TxValue t,
        TxData = TxData t, TxV = TxV t, TxR = TxR t, TxS = TxS t, TxHash = be_bytes 32 (unat (TxNonce t)),
        ChainId = 0, GasPrice = LegacyGasPrice t, GasTipCap = LegacyGasPrice t, GasFeeCap = LegacyGasPrice t,
        AccessList = []\<rparr>),
     NewDynamicTx = (\<lambda>t. \<lparr>TxNonce = TxNonce t, TxGas = TxGas t, TxTo = TxTo t, TxValue = TxValue t,
        TxData = TxData t, TxV = TxV t, TxR = TxR t, TxS = TxS t, TxHash = be_bytes 32 (unat (TxNonce t)),
        ChainId = DynChainId t, GasPrice = DynGasFeeCap t, GasTipCap = DynGasTipCap t,
        GasFeeCap = DynGasFeeCap t, AccessList = DynAccessList t\<rparr>),
     NewKey = (\<lambda>k. k),
     BlocksIn20DaysPeriod = 157090 \<rparr>"

lemma from_hex_hex [simp]: "from_hex (hex_EncodeToString bs) = bs"
  by (simp add: from_hex_def strip0x_def take_2_hex hex_roundtrip)

section \<open>Documented laws of the libraries\<close>

text \<open>
  go-ethereum's \<open>common.Hash\<close>: 32 bytes are their own hash value, and the text of a hash is
  \<open>0x\<close> and its lower-case hexadecimal digits.
\<close>

definition hash_hex_law :: "lib \<Rightarrow> bool" where
  "hash_hex_law L \<longleftrightarrow>
     (\<forall>b. length b = 32 \<longrightarrow> BytesToHash L b = b \<and> HashHex L b = ''0x'' @ hex_EncodeToString b)"

text \<open>The EIP-55 text of an address decodes to the address, is accepted and has no separators.\<close>

definition address_hex_law :: "lib \<Rightarrow> address \<Rightarrow> bool" where
  "address_hex_law L a \<longleftrightarrow>
     IsHexAddress L (AddressHex L a) \<and> HexToAddress L (AddressHex L a) = a \<and>
     list_all (\<lambda>c. cn c < 128 \<and> c \<noteq> CHR ''/'' \<and> c \<noteq> CHR '':'') (AddressHex L a) \<and> AddressHex L a \<noteq> []"

lemma ref_hash_hex_law: "hash_hex_law ref_lib"
  by (simp add: hash_hex_law_def ref_lib_def left_pad_def)

section \<open>A reference environment\<close>

text \<open>Every service fails, there are no peers and timers fire at once; witnesses override what they need.\<close>

definition ref_env :: env where
  "ref_env = \<lparr>
     app_attestation = (\<lambda>_ _ _. Err (Ext ''down'')), app_latest_nonce = (\<lambda>_ _. Err (Ext ''down'')),
     app_dc_for_height = (\<lambda>_ _. Err (Ext ''down'')), app_latest_dc = (\<lambda>_. Err (Ext ''down'')),
     app_valset_before = (\<lambda>_ _ _. Err (Ext ''down'')), app_validators = (\<lambda>_. Err (Ext ''down'')),
     app_evm_address = (\<lambda>_ _. Err (Ext ''down'')), app_unbonding_height = (\<lambda>_. Err (Ext ''down'')),
     app_earliest_nonce = (\<lambda>_. Err (Ext ''down'')), tm_commitment = (\<lambda>_ _ _. Err (Ext ''down'')),
     tm_status = (\<lambda>_. Err (Ext ''down'')), tm_subscribe = (\<lambda>_ _ _. Err (Ext ''down'')),
     tm_unsubscribe = (\<lambda>_ _ _. Ok ()), tm_stop = (\<lambda>_. Ok ()), tm_connect = (\<lambda>_. Err (Ext ''down'')),
     dht_put = (\<lambda>_ _ _. Ok ()), dht_get = (\<lambda>_ _. Err RoutingNotFound), dht_peers = (\<lambda>_. 0),
     ctx_err = (\<lambda>_. None), wake_up = (\<lambda>_. WTimeout),
     ks_sign = (\<lambda>a d _. Ok (a @ d @ replicate 13 0)),
     evm_dial = (\<lambda>_. Ok ()), evm_pending_nonce = (\<lambda>_ _. Ok 0), evm_chain_id = (\<lambda>_. Ok 1),
     evm_transactor = (\<lambda>a _. Ok \<lparr>From = a, OptsNonce = None, OptsValue = 0, GasLimit = 0\<rparr>),
     contract_event_nonce = (\<lambda>_. Ok 1), contract_checkpoint = (\<lambda>_. Err (Ext ''down'')),
     contract_update = (\<lambda>_ _ _ _ _ _ _ _. Err (Ext ''down'')),
     contract_submit = (\<lambda>_ _ _ _ _ _ _. Err (Ext ''down'')),
     deploy_wrappers = (\<lambda>_ _. Err (Ext ''down'')), deploy_proxy = (\<lambda>_ _ _ _. Err (Ext ''down'')),
     bind_wrappers = (\<lambda>_ _. Ok ()), evm_wait_mined = (\<lambda>_ _. Err DeadlineExceeded),
     evm_suggest_gas_price = (\<lambda>_. Ok 1), evm_suggest_tip = (\<lambda>_. Ok 1), evm_header = (\<lambda>_. Ok None),
     evm_sign_tx = (\<lambda>_ t _. Ok t), evm_send_tx = (\<lambda>_ _. Ok ()),
     store_batch = (\<lambda>_. Ok ()), store_has = (\<lambda>_ _. Ok False), store_put = (\<lambda>_ _ _. Ok ()),
     store_commit = (\<lambda>_. Ok ()) \<rparr>"

end
