(* ===== verification/Evm.thy ===== *)
theory Evm imports Types Reference begin

text \<open>
  The package \<open>evm\<close>: signatures over digests (\<open>ethereum_signature.go\<close>), their split for the
  contract (\<open>evm_transaction_opts.go\<close>) and the client of the bridge contract (\<open>evm_client.go\<close>).
\<close>

section \<open>evm/ethereum\_signature.go\<close>

definition string_bytes :: "string \<Rightarrow> bytes" where
  "string_bytes s = map (\<lambda>c. of_nat (cn c)) s"

definition signaturePrefix :: bytes where
  "signaturePrefix = 0x19 # string_bytes ''Ethereum Signed Message:'' @ 0x0A # string_bytes ''32''"

text \<open>The digest that is really signed: the EIP-191 prefix and the given one, hashed.\<close>

definition protectedHash :: "lib \<Rightarrow> bytes \<Rightarrow> hash" where
  "protectedHash L hash = Keccak256Hash L (signaturePrefix @ hash)"

definition NewEthereumSignature :: "lib \<Rightarrow> env \<Rightarrow> bytes \<Rightarrow> bool \<Rightarrow> address \<Rightarrow> bytes prog" where
  "NewEthereumSignature L E hash nilKeystore acc =
     (if nilKeystore then throw (Wrap ErrEmpty ''nil keystore'')
      else call (ks_sign E acc (protectedHash L hash)) (KsSign acc (protectedHash L hash)))"

definition EthAddressFromSignature :: "lib \<Rightarrow> bytes \<Rightarrow> bytes \<Rightarrow> address outcome" where
  "EthAddressFromSignature L hash signature =
     (if length signature < 65 then Err (Wrap ErrInvalid ''signature too short'')
      else
        obind (mapErr (\<lambda>e. Wrap e ''ec recover failed'') (Ecrecover L (protectedHash L hash) signature)) (\<lambda>sigPublicKey.
        obind (mapErr (\<lambda>e. Wrap e ''unmarshalling signature public key failed'') (UnmarshalPubkey L sigPublicKey)) (\<lambda>pubKey.
        Ok (PubkeyToAddress L pubKey))))"

definition ValidateEthereumSignature :: "lib \<Rightarrow> bytes \<Rightarrow> bytes \<Rightarrow> address \<Rightarrow> unit outcome" where
  "ValidateEthereumSignature L hash signature ethAddress =
     obind (mapErr (\<lambda>e. Wrap e ''unable to get address from signature'') (EthAddressFromSignature L hash signature)) (\<lambda>addr.
     if AddressHex L addr \<noteq> AddressHex L ethAddress then Err (Wrap ErrInvalid ''signature not matching'')
     else Ok ())"

section \<open>evm/evm\_transaction\_opts.go\<close>

definition MalleabilityThreshold :: string where
  "MalleabilityThreshold = ''0x7fffffffffffffffffffffffffffffff5d576e7357a4501ddfe92f46681b20a0''"

definition ZeroSValue :: string where
  "ZeroSValue = ''0x0000000000000000000000000000000000000000000000000000000000000000''"

definition SigToVRS :: "lib \<Rightarrow> string \<Rightarrow> (byte \<times> hash \<times> hash) outcome" where
  "SigToVRS L sigHex =
     (let signatureBytes = FromHex L (ToLower sigHex) in
      if length signatureBytes \<noteq> 65 then Err (Wrap ErrInvalid ''signature length'')
      else
        (let vParam = signatureBytes ! 64 in
         obind (if vParam = 0 then Ok 27 else if vParam = 1 then Ok 28
                else if vParam = 27 then Ok vParam else if vParam = 28 then Ok vParam
                else Err (Wrap ErrInvalid ''signature vParam. Should be 0, 1, 27 or 28'')) (\<lambda>v.
         let r = BytesToHash L (take 32 signatureBytes);
             s = BytesToHash L (take 32 (drop 32 signatureBytes))
         in if str_le MalleabilityThreshold (HashHex L s) \<or> HashHex L s = ZeroSValue
            then Err (Wrap ErrInvalid ''signature s'')
            else Ok (v, r, s))))"

record evm_client =
  Wrapper :: "address option"
  Acc :: address
  EvmGasLimit :: u64

text \<open>\<open>newTransactOptsBuilder\<close> and \<open>NewTransactionOpts\<close>.\<close>

definition transactOptsBuilder :: "env \<Rightarrow> address \<Rightarrow> u64 \<Rightarrow> transact_opts prog" where
  "transactOptsBuilder E acc gasLim =
     andThen (call (evm_pending_nonce E acc) (\<lambda>r. Chain (PendingNonceAt acc r))) (\<lambda>nonce.
     handle (call (evm_chain_id E) (\<lambda>r. Chain (ChainID r)))
       (\<lambda>chainID.
          handle (call (evm_transactor E acc) (\<lambda>r. Chain (Transactor acc r)))
            (\<lambda>auth. ret (auth\<lparr>OptsNonce := Some (uint nonce), OptsValue := 0, GasLimit := gasLim\<rparr>))
            (\<lambda>e. throw (Wrap e ''failed to create Ethereum transactor'')))
       (\<lambda>e. throw (Wrap e ''failed to get Ethereum chain ID'')))"

definition NewTransactionOpts :: "env \<Rightarrow> evm_client \<Rightarrow> transact_opts prog" where
  "NewTransactionOpts E ec =
     andThen (call (evm_dial E) (\<lambda>r. Chain (Dial r))) (\<lambda>_.
     transactOptsBuilder E (Acc ec) (EvmGasLimit ec))"

section \<open>evm/evm\_client.go\<close>

definition DefaultEVMGasLimit :: u64 where
  "DefaultEVMGasLimit = 2500000"

definition NewEthClient :: "env \<Rightarrow> unit prog" where
  "NewEthClient E = call (evm_dial E) (\<lambda>r. Chain (Dial r))"

fun ethValset_members :: "lib \<Rightarrow> bridge_validator list \<Rightarrow> eth_validator list outcome" where
  "ethValset_members L [] = Ok []"
| "ethValset_members L (v # vs) =
     (if \<not> IsHexAddress L (EvmAddress v) then Err (Errorf ''invalid ethereum address found in validator set'')
      else obind (ethValset_members L vs) (\<lambda>evs.
        Ok (\<lparr>Addr = HexToAddress L (EvmAddress v), EthPower = int64 (Power v)\<rparr> # evs)))"

definition ethValset :: "lib \<Rightarrow> valset \<Rightarrow> eth_validator list outcome" where
  "ethValset L vs = ethValset_members L (Members vs)"

definition UpdateValidatorSet ::
  "lib \<Rightarrow> env \<Rightarrow> transact_opts \<Rightarrow> u64 \<Rightarrow> u64 \<Rightarrow> valset \<Rightarrow> valset \<Rightarrow> vrs list \<Rightarrow> evm_tx prog" where
  "UpdateValidatorSet L E opts newNonce newThreshHold currentValset newValset sigs =
     andThen (lift (ethValset L currentValset)) (\<lambda>ethVals.
     andThen (lift (ValsetHash L newValset)) (\<lambda>ethVsHash.
     let currentNonce = (if Nonce newValset = 1 then 0 else Nonce currentValset) in
     call (contract_update E opts (int64 newNonce) (int64 currentNonce) (int64 newThreshHold) ethVsHash ethVals sigs)
       (\<lambda>r. Contract (ContractUpdate opts (int64 newNonce) (int64 currentNonce) (int64 newThreshHold) ethVsHash ethVals sigs r))))"

definition SubmitDataRootTupleRoot ::
  "lib \<Rightarrow> env \<Rightarrow> transact_opts \<Rightarrow> hash \<Rightarrow> u64 \<Rightarrow> valset \<Rightarrow> vrs list \<Rightarrow> evm_tx prog" where
  "SubmitDataRootTupleRoot L E opts tupleRoot newNonce currentValset sigs =
     andThen (lift (ethValset L currentValset)) (\<lambda>ethVals.
     call (contract_submit E opts (int64 newNonce) (int64 (Nonce currentValset)) tupleRoot ethVals sigs)
       (\<lambda>r. Contract (ContractSubmit opts (int64 newNonce) (int64 (Nonce currentValset)) tupleRoot ethVals sigs r)))"

text \<open>\<open>nonce.Uint64()\<close> keeps the low 64 bits of the contract's 256-bit counter.\<close>

definition StateLastEventNonce :: "env \<Rightarrow> u64 prog" where
  "StateLastEventNonce E =
     andThen (call (contract_event_nonce E) (\<lambda>r. Contract (StateEventNonce r))) (\<lambda>n. ret (of_nat n))"

definition StateLastValidatorSetCheckpoint :: "env \<Rightarrow> hash prog" where
  "StateLastValidatorSetCheckpoint E = call (contract_checkpoint E) (\<lambda>r. Contract (StateCheckpoint r))"

text \<open>
  \<open>bind.WaitMined\<close> gives the status of the receipt or an error (the deadline among them); the
  status is only logged, so a receipt of a failed transaction is a success here.
\<close>

definition WaitForTransaction :: "env \<Rightarrow> evm_tx \<Rightarrow> nat prog" where
  "WaitForTransaction E tx = call (evm_wait_mined E tx) (\<lambda>r. Chain (WaitMined tx r))"

definition DeployImplementation :: "env \<Rightarrow> transact_opts \<Rightarrow> (address \<times> evm_tx) prog" where
  "DeployImplementation E opts = call (deploy_wrappers E opts) (\<lambda>r. Contract (DeployWrappers opts r))"

definition DeployERC1867Proxy :: "env \<Rightarrow> transact_opts \<Rightarrow> address \<Rightarrow> bytes \<Rightarrow> (address \<times> evm_tx) prog" where
  "DeployERC1867Proxy E opts implementationAddress data =
     call (deploy_proxy E opts implementationAddress data)
       (\<lambda>r. Contract (DeployProxy opts implementationAddress data r))"

text \<open>
  The result is the client (whose wrapper the flag \<open>initBridge\<close> sets), the options (whose nonce
  is bumped for the second transaction), the address of the proxy and its transaction.
\<close>

definition DeployBlobstreamContract ::
  "lib \<Rightarrow> env \<Rightarrow> evm_client \<Rightarrow> transact_opts \<Rightarrow> valset \<Rightarrow> u64 \<Rightarrow> bool \<Rightarrow>
   (evm_client \<times> transact_opts \<times> address \<times> evm_tx) prog" where
  "DeployBlobstreamContract L E ec opts contractInitValset contractInitNonce initBridge =
     andThen (DeployImplementation E opts) (\<lambda>(impAddr, impTx).
     andThen (lift (ValsetSignBytes L contractInitValset)) (\<lambda>ethVsCheckpoint.
     andThen (lift (PackInitialize L (int64 contractInitNonce)
                (int64 (TwoThirdsThreshold L contractInitValset)) ethVsCheckpoint)) (\<lambda>initData.
     let opts' = (case OptsNonce opts of None \<Rightarrow> opts | Some n \<Rightarrow> opts\<lparr>OptsNonce := Some (n + 1)\<rparr>) in
     andThen (DeployERC1867Proxy E opts' impAddr initData) (\<lambda>(proxyAddr, tx).
     andThen (call (bind_wrappers E proxyAddr) (\<lambda>r. Contract (BindWrappers proxyAddr r))) (\<lambda>_.
     ret (if initBridge then ec\<lparr>Wrapper := Some proxyAddr\<rparr> else ec, opts', proxyAddr, tx))))))"

section \<open>Signatures\<close>

lemma EthAddressFromSignature_Ok:
  "EthAddressFromSignature L hash sig = Ok a \<longleftrightarrow>
     65 \<le> length sig \<and>
     (\<exists>pk pub. Ecrecover L (protectedHash L hash) sig = Ok pk \<and> UnmarshalPubkey L pk = Ok pub \<and> PubkeyToAddress L pub = a)"
  by (auto simp: EthAddressFromSignature_def obind_eq_Ok)

lemma ValidateEthereumSignature_Ok:
  "ValidateEthereumSignature L hash sig addr = Ok () \<longleftrightarrow>
     (\<exists>a. EthAddressFromSignature L hash sig = Ok a \<and> AddressHex L a = AddressHex L addr)"
  by (auto simp: ValidateEthereumSignature_def obind_eq_Ok)

definition secp256k1_n :: nat where
  "secp256k1_n = 0xfffffffffffffffffffffffffffffffebaaedce6af48a03bbfd25e8cd0364141"

definition malleability_bytes :: bytes where
  "malleability_bytes = [0x7f, 0xff, 0xff, 0xff, 0xff, 0xff, 0xff, 0xff, 0xff, 0xff, 0xff, 0xff, 0xff, 0xff, 0xff, 0xff,
     0x5d, 0x57, 0x6e, 0x73, 0x57, 0xa4, 0x50, 0x1d, 0xdf, 0xe9, 0x2f, 0x46, 0x68, 0x1b, 0x20, 0xa0]"

lemma malleability_hex: "MalleabilityThreshold = ''0x'' @ hex_EncodeToString malleability_bytes"
  by code_simp

lemma malleability_value: "be_value malleability_bytes = secp256k1_n div 2"
  by (simp add: be_value_def malleability_bytes_def secp256k1_n_def)

lemma length_malleability: "length malleability_bytes = 32"
  by (simp add: malleability_bytes_def)

lemma zero_hex: "ZeroSValue = ''0x'' @ hex_EncodeToString (replicate 32 0)"
  by code_simp

lemma be_value_eq_0: "be_value bs = 0 \<longleftrightarrow> bs = replicate (length bs) 0"
  by (induction bs) (auto simp: be_value_Cons unat_eq_0)

text \<open>The two string comparisons of \<open>SigToVRS\<close> bound \<open>s\<close> as a number.\<close>

lemma s_bounds:
  assumes "hash_hex_law L" "length s = 32"
  shows "str_le MalleabilityThreshold (HashHex L s) \<longleftrightarrow> secp256k1_n div 2 \<le> be_value s"
    and "HashHex L s = ZeroSValue \<longleftrightarrow> be_value s = 0"
proof -
  have h: "HashHex L s = ''0x'' @ hex_EncodeToString s" using assms by (simp add: hash_hex_law_def)
  have "length malleability_bytes = length s" by (simp add: length_malleability assms(2))
  then show "str_le MalleabilityThreshold (HashHex L s) \<longleftrightarrow> secp256k1_n div 2 \<le> be_value s"
    unfolding h malleability_hex str_le_append by (simp add: str_le_hex malleability_value)
  show "HashHex L s = ZeroSValue \<longleftrightarrow> be_value s = 0"
    unfolding h zero_hex by (simp add: hex_inject be_value_eq_0 [of s] assms(2))
qed

lemma SigToVRS_cases:
  "SigToVRS L sig = Ok (v, r, s) \<longleftrightarrow>
     (let b = FromHex L (ToLower sig) in
      length b = 65 \<and>
      (b ! 64 = 0 \<and> v = 27 \<or> b ! 64 = 1 \<and> v = 28 \<or> b ! 64 = 27 \<and> v = 27 \<or> b ! 64 = 28 \<and> v = 28) \<and>
      r = BytesToHash L (take 32 b) \<and> s = BytesToHash L (take 32 (drop 32 b)) \<and>
      \<not> str_le MalleabilityThreshold (HashHex L s) \<and> HashHex L s \<noteq> ZeroSValue)"
  by (auto simp: SigToVRS_def Let_def obind_eq_Ok split: if_splits)

section \<open>The validators sent to the contract\<close>

definition eth_validator_of :: "lib \<Rightarrow> bridge_validator \<Rightarrow> eth_validator" where
  "eth_validator_of L v = \<lparr>Addr = HexToAddress L (EvmAddress v), EthPower = int64 (Power v)\<rparr>"

lemma ethValset_members_cases:
  "ethValset_members L ms =
     (if list_all (\<lambda>v. IsHexAddress L (EvmAddress v)) ms then Ok (map (eth_validator_of L) ms)
      else Err (Errorf ''invalid ethereum address found in validator set''))"
  by (induction ms) (auto simp: eth_validator_of_def)

section \<open>Properties\<close>

text \<open>
  C16: \<open>SigToVRS\<close> accepts exactly the 65-byte signatures whose recovery byte is 0, 1, 27 or 28 and
  whose \<open>s\<close>, read as a number, satisfies \<open>0 < s < n div 2\<close> for the order \<open>n\<close> of the curve, and splits
  them into the recovery byte in its 27/28 form and the two halves. The value \<open>n div 2\<close> itself is
  refused, although the error message allows it.
\<close>

theorem SigToVRS_accepts:
  assumes "hash_hex_law L"
  shows "SigToVRS L sigHex = Ok (v, r, s) \<longleftrightarrow>
    (let b = FromHex L (ToLower sigHex) in
     length b = 65 \<and>
     (b ! 64 = 0 \<and> v = 27 \<or> b ! 64 = 1 \<and> v = 28 \<or> b ! 64 = 27 \<and> v = 27 \<or> b ! 64 = 28 \<and> v = 28) \<and>
     r = take 32 b \<and> s = take 32 (drop 32 b) \<and> 0 < be_value s \<and> be_value s < secp256k1_n div 2)"
proof -
  define b where "b = FromHex L (ToLower sigHex)"
  have "BytesToHash L (take 32 b) = take 32 b" "BytesToHash L (take 32 (drop 32 b)) = take 32 (drop 32 b)"
    if "length b = 65" using that assms by (simp_all add: hash_hex_law_def)
  moreover note s_bounds [OF assms, of "take 32 (drop 32 b)"]
  ultimately show ?thesis unfolding SigToVRS_cases Let_def b_def [symmetric] by (cases "length b = 65") auto
qed

theorem SigToVRS_accepts_witness:
  "SigToVRS ref_lib (hex_EncodeToString (replicate 32 7 @ replicate 31 0 @ [9, 1])) = Ok (28, replicate 32 7, replicate 31 0 @ [9]) \<and>
   \<not> is_Ok (SigToVRS ref_lib (hex_EncodeToString (replicate 32 7 @ malleability_bytes @ [1])))"
proof -
  let ?good = "replicate 32 7 @ replicate 31 0 @ [9, 1] :: bytes"
  let ?bad = "replicate 32 7 @ malleability_bytes @ [1]"
  have f: "FromHex ref_lib (ToLower (hex_EncodeToString bs)) = bs" for bs
    by (simp add: ref_lib_def)
  have v: "be_value (replicate k 0 @ [9]) = 9" for k
    by (induction k) (simp_all add: be_value_Cons)
  have lt: "9 < secp256k1_n div 2" by (simp add: secp256k1_n_def)
  have g: "length ?good = 65" "?good ! 64 = 1" "take 32 ?good = replicate 32 7"
    "take 32 (drop 32 ?good) = replicate 31 0 @ [9]"
    by (simp_all add: nth_append)
  have b: "take 32 (drop 32 ?bad) = malleability_bytes"
    by (simp add: length_malleability)
  have "SigToVRS ref_lib (hex_EncodeToString ?good) = Ok (28, replicate 32 7, replicate 31 0 @ [9])"
    unfolding SigToVRS_accepts [OF ref_hash_hex_law] f Let_def g v using lt by simp
  moreover have "SigToVRS ref_lib (hex_EncodeToString ?bad) \<noteq> Ok (v, r, s)" for v r s
    unfolding SigToVRS_accepts [OF ref_hash_hex_law] f Let_def b
    by (auto simp: malleability_value)
  ultimately show ?thesis unfolding is_Ok_iff by (metis prod_cases3)
qed

text \<open>
  A signature validates for an address exactly when it has at least 65 bytes and the key that
  is recovered from it and the prefixed digest has an address of the same text.
\<close>

theorem ValidateEthereumSignature_recovers:
  "ValidateEthereumSignature L hash sig addr = Ok () \<longleftrightarrow>
     65 \<le> length sig \<and>
     (\<exists>pk pub. Ecrecover L (Keccak256Hash L (signaturePrefix @ hash)) sig = Ok pk \<and>
        UnmarshalPubkey L pk = Ok pub \<and> AddressHex L (PubkeyToAddress L pub) = AddressHex L addr)"
  unfolding ValidateEthereumSignature_Ok EthAddressFromSignature_Ok protectedHash_def by auto

text \<open>
  A validator set is sent to the contract only if every member's address is a hex address; then
  it is sent member by member in the order of the set, each power as a signed 64-bit number. An
  update of the validator set is sent with the nonce of the current set, or 0 for the first set,
  and nothing is sent when the conversion or the hash fails.
\<close>

theorem UpdateValidatorSet_sends:
  "UpdateValidatorSet L E opts newNonce th cur new sigs h =
     (if \<not> list_all (\<lambda>v. IsHexAddress L (EvmAddress v)) (Members cur)
      then (Err (Errorf ''invalid ethereum address found in validator set''), h)
      else (case ValsetHash L new of
          Ok vh \<Rightarrow>
            (let vals = map (\<lambda>v. \<lparr>Addr = HexToAddress L (EvmAddress v), EthPower = int64 (Power v)\<rparr>) (Members cur);
                 n = (if Nonce new = 1 then 0 else int64 (Nonce cur));
                 r = contract_update E opts (int64 newNonce) n (int64 th) vh vals sigs h
             in (r, Contract (ContractUpdate opts (int64 newNonce) n (int64 th) vh vals sigs r) # h))
        | Err e \<Rightarrow> (Err e, h) | Panic p \<Rightarrow> (Panic p, h) | Blocked \<Rightarrow> (Blocked, h)))"
  by (cases "ValsetHash L new")
    (auto simp: UpdateValidatorSet_def ethValset_def ethValset_members_cases eth_validator_of_def [abs_def]
      andThen_def Let_def int64_def)

text \<open>
  A deployment that succeeds has created the implementation first and then, with the next
  account nonce, the proxy that points to it and is initialised with the nonce, the two-thirds
  threshold and the sign bytes of the valset; the client keeps the new bridge exactly when asked to.
\<close>

theorem DeployBlobstreamContract_proxy:
  assumes "DeployBlobstreamContract L E ec opts vs nonce initBridge h = (Ok (ec', opts', proxy, tx), h')"
    and "OptsNonce opts = Some n"
  shows "\<exists>imp impTx cp data.
    ValsetSignBytes L vs = Ok cp \<and>
    PackInitialize L (int64 nonce) (int64 (TwoThirdsThreshold L vs)) cp = Ok data \<and>
    opts' = opts\<lparr>OptsNonce := Some (n + 1)\<rparr> \<and>
    ec' = (if initBridge then ec\<lparr>Wrapper := Some proxy\<rparr> else ec) \<and>
    h' = Contract (BindWrappers proxy (Ok ())) #
         Contract (DeployProxy opts' imp data (Ok (proxy, tx))) #
         Contract (DeployWrappers opts (Ok (imp, impTx))) # h"
  using assms
  by (auto simp: DeployBlobstreamContract_def DeployImplementation_def DeployERC1867Proxy_def
      andThen_eq_Ok Let_def split: prod.splits)

definition sample_tx :: evm_tx where
  "sample_tx = \<lparr>TxNonce = 3, TxGas = 21000, TxTo = None, TxValue = 0, TxData = [], TxV = 0, TxR = 0, TxS = 0,
     TxHash = replicate 32 7, ChainId = 1, GasPrice = Some 5, GasTipCap = Some 5, GasFeeCap = Some 5, AccessList = []\<rparr>"

definition deploy_env :: env where
  "deploy_env = ref_env\<lparr>deploy_wrappers := (\<lambda>_ _. Ok (replicate 20 1, sample_tx)),
     deploy_proxy := (\<lambda>_ _ _ _. Ok (replicate 20 2, sample_tx))\<rparr>"

definition sample_opts :: transact_opts where
  "sample_opts = \<lparr>From = replicate 20 9, OptsNonce = Some 3, OptsValue = 0, GasLimit = 100\<rparr>"

definition sample_client :: evm_client where
  "sample_client = \<lparr>Wrapper = None, Acc = replicate 20 9, EvmGasLimit = 100\<rparr>"

theorem DeployBlobstreamContract_proxy_witness:
  "\<exists>h'. fst (DeployBlobstreamContract ref_lib deploy_env sample_client sample_opts sample_valset 10 True []) =
       Ok (sample_client\<lparr>Wrapper := Some (replicate 20 2)\<rparr>, sample_opts\<lparr>OptsNonce := Some 4\<rparr>, replicate 20 2, sample_tx) \<and>
     snd (DeployBlobstreamContract ref_lib deploy_env sample_client sample_opts sample_valset 10 True []) = h' \<and> length h' = 3"
proof -
  let ?d = "DeployBlobstreamContract ref_lib deploy_env sample_client sample_opts sample_valset 10 True []"
  obtain r h' where d: "?d = (r, h')" by fastforce
  then have "fst ?d = Ok (sample_client\<lparr>Wrapper := Some (replicate 20 2)\<rparr>, sample_opts\<lparr>OptsNonce := Some 4\<rparr>, replicate 20 2, sample_tx)"
    by (simp add: DeployBlobstreamContract_def DeployImplementation_def DeployERC1867Proxy_def deploy_env_def
        ref_env_def sample_opts_def andThen_def ref_lib_def Let_def)
  with d have r: "?d = (Ok (sample_client\<lparr>Wrapper := Some (replicate 20 2)\<rparr>, sample_opts\<lparr>OptsNonce := Some 4\<rparr>, replicate 20 2, sample_tx), h')"
    by simp
  have "OptsNonce sample_opts = Some 3" by (simp add: sample_opts_def)
  from DeployBlobstreamContract_proxy [OF r this] have "length h' = 3" by auto
  with r show ?thesis by simp
qed

end
