(* ===== verification/Validators.thy ===== *)
theory Validators imports Keys Evm begin

text \<open>
  \<open>p2p/validators.go\<close>: the stateless checks the DHT runs on a record before storing it, and the
  choice among several records of one key. The locale \<open>record_validator\<close> is what the DHT needs of
  any validator (the chosen index is in range), \<open>first_valid_validator\<close> what the two confirm
  validators promise besides.
\<close>

text \<open>\<open>if len(s) > 2 && s[:2] == "0x" { s = s[2:] }\<close>\<close>

definition strip_0x :: "string \<Rightarrow> string" where
  "strip_0x s = (if 2 < length s \<and> take 2 s = ''0x'' then drop 2 s else s)"

section \<open>Valset confirms\<close>

definition ValsetConfirm_Validate :: "lib \<Rightarrow> string \<Rightarrow> string \<Rightarrow> unit outcome" where
  "ValsetConfirm_Validate L key value =
     obind (ParseKey key) (\<lambda>(namespace, _, evmAddr, signBytes).
     obind (guard (namespace = ValsetConfirmNamespace) ErrInvalidConfirmNamespace) (\<lambda>_.
     obind (guard (IsHexAddress L evmAddr) ErrInvalidEVMAddress) (\<lambda>_.
     obind (UnmarshalValsetConfirm value) (\<lambda>vsc.
     obind (guard (EqualFold (VcEthAddress vsc) evmAddr) ErrNotTheSameEVMAddress) (\<lambda>_.
     obind (hex_DecodeString (strip_0x signBytes)) (\<lambda>bSignBytes.
     obind (hex_DecodeString (strip_0x (VcSignature vsc))) (\<lambda>bSignature.
     ValidateEthereumSignature L bSignBytes bSignature (HexToAddress L evmAddr))))))))"

text \<open>The loop of \<open>Select\<close>: the index of the first value that validates.\<close>

fun first_valid :: "(string \<Rightarrow> unit outcome) \<Rightarrow> nat \<Rightarrow> string list \<Rightarrow> nat outcome" where
  "first_valid validate index [] = Err ErrNoValidValueFound"
| "first_valid validate index (value # values) =
     (case validate value of
        Ok u \<Rightarrow> Ok index
      | Err e \<Rightarrow> first_valid validate (Suc index) values
      | Panic p \<Rightarrow> Panic p
      | Blocked \<Rightarrow> Blocked)"

definition ValsetConfirm_Select :: "lib \<Rightarrow> string \<Rightarrow> string list \<Rightarrow> nat outcome" where
  "ValsetConfirm_Select L key values =
     (if values = [] then Err ErrNoValues else first_valid (ValsetConfirm_Validate L key) 0 values)"

section \<open>The latest valset\<close>

definition LatestValset_Validate :: "string \<Rightarrow> string \<Rightarrow> unit outcome" where
  "LatestValset_Validate key value =
     obind (UnmarshalLatestValset value) (\<lambda>vs.
     if IsEmptyLatestValset vs then Err ErrEmptyValset
     else if key \<noteq> GetLatestValsetKey then Err ErrInvalidLatestValsetKey
     else Ok ())"

text \<open>The loop's variables are the index, \<open>latestNonce\<close> and \<open>latestIndex\<close>.\<close>

fun select_latest :: "nat \<Rightarrow> u64 \<Rightarrow> nat \<Rightarrow> string list \<Rightarrow> nat outcome" where
  "select_latest index latestNonce latestIndex [] = Ok latestIndex"
| "select_latest index latestNonce latestIndex (value # values) =
     obind (UnmarshalLatestValset value) (\<lambda>vs.
     select_latest (Suc index) (LvNonce vs)
       (if latestNonce < LvNonce vs then index else latestIndex) values)"

definition LatestValset_Select :: "string \<Rightarrow> string list \<Rightarrow> nat outcome" where
  "LatestValset_Select key values =
     (if key \<noteq> GetLatestValsetKey then Err ErrInvalidLatestValsetKey
      else if values = [] then Err ErrNoValues
      else select_latest 0 0 0 values)"

section \<open>Data commitment confirms\<close>

definition DataCommitmentConfirm_Validate :: "lib \<Rightarrow> string \<Rightarrow> string \<Rightarrow> unit outcome" where
  "DataCommitmentConfirm_Validate L key value =
     obind (ParseKey key) (\<lambda>(namespace, _, evmAddr, dataRootTupleRoot).
     obind (guard (namespace = DataCommitmentConfirmNamespace) ErrInvalidConfirmNamespace) (\<lambda>_.
     obind (guard (IsHexAddress L evmAddr) ErrInvalidEVMAddress) (\<lambda>_.
     obind (UnmarshalDataCommitmentConfirm value) (\<lambda>dcc.
     obind (guard (EqualFold (DccEthAddress dcc) evmAddr) ErrNotTheSameEVMAddress) (\<lambda>_.
     obind (hex_DecodeString (strip_0x dataRootTupleRoot)) (\<lambda>bDataRootTupleRoot.
     obind (hex_DecodeString (strip_0x (DccSignature dcc))) (\<lambda>bSignature.
     ValidateEthereumSignature L bDataRootTupleRoot bSignature (HexToAddress L evmAddr))))))))"

definition DataCommitmentConfirm_Select :: "lib \<Rightarrow> string \<Rightarrow> string list \<Rightarrow> nat outcome" where
  "DataCommitmentConfirm_Select L key values =
     (if values = [] then Err ErrNoValues else first_valid (DataCommitmentConfirm_Validate L key) 0 values)"

section \<open>What an accepted confirm is\<close>

text \<open>
  What the checks should mean, without the code: the hexadecimal digits of bytes, two for each, with
  or without \<open>0x\<close>; and EIP-191: the public key that is recovered from a signature of at least 65
  bytes and the hash of the message prefix and the digest belongs to the address.
\<close>

definition hex_digits :: "string \<Rightarrow> bytes \<Rightarrow> bool" where
  "hex_digits t b \<longleftrightarrow> length t = 2 * length b \<and>
     (\<forall>i < length b. \<exists>x y. hex_val (t ! (2 * i)) = Some x \<and> hex_val (t ! Suc (2 * i)) = Some y \<and> unat (b ! i) = 16 * x + y)"

definition hex_text :: "string \<Rightarrow> bytes \<Rightarrow> bool" where
  "hex_text s b \<longleftrightarrow> hex_digits s b \<or> (b \<noteq> [] \<and> (\<exists>t. s = ''0x'' @ t \<and> hex_digits t b))"

definition eip191_prefix :: bytes where
  "eip191_prefix = [0x19, 0x45, 0x74, 0x68, 0x65, 0x72, 0x65, 0x75, 0x6d, 0x20, 0x53, 0x69, 0x67, 0x6e, 0x65, 0x64,
     0x20, 0x4d, 0x65, 0x73, 0x73, 0x61, 0x67, 0x65, 0x3a, 0x0a, 0x33, 0x32]"

definition recovers_to :: "lib \<Rightarrow> bytes \<Rightarrow> bytes \<Rightarrow> address \<Rightarrow> bool" where
  "recovers_to L digest sig addr \<longleftrightarrow> 65 \<le> length sig \<and>
     (\<exists>pk pub. Ecrecover L (Keccak256Hash L (eip191_prefix @ digest)) sig = Ok pk \<and>
        UnmarshalPubkey L pk = Ok pub \<and> PubkeyToAddress L pub = addr)"

text \<open>
  A text \<open>sig\<close> is a signature, by the key of an address, of the digest whose hexadecimal text is
  \<open>digest\<close>; the address is known by its text.
\<close>

definition signed_by :: "lib \<Rightarrow> string \<Rightarrow> string \<Rightarrow> address \<Rightarrow> bool" where
  "signed_by L digest sig addr \<longleftrightarrow> (\<exists>d s signer. hex_text digest d \<and> hex_text sig s \<and>
     recovers_to L d s signer \<and> AddressHex L signer = AddressHex L addr)"

lemma hex_val_less: "hex_val c = Some x \<Longrightarrow> x < 16"
  by (auto simp: hex_val_def split: option.splits if_splits)

lemma hex_digits_Nil: "hex_digits [] b \<longleftrightarrow> b = []"
  by (auto simp: hex_digits_def)

lemma hex_digits_Cons:
  "hex_digits (c # d # t) b \<longleftrightarrow> (\<exists>x y b'. hex_val c = Some x \<and> hex_val d = Some y \<and> b = of_nat (16 * x + y) # b' \<and> hex_digits t b')"
proof
  assume h: "hex_digits (c # d # t) b"
  then obtain v b' where b: "b = v # b'" by (cases b) (auto simp: hex_digits_def)
  have n: "\<forall>i < Suc (length b'). \<exists>x y. hex_val ((c # d # t) ! (2 * i)) = Some x \<and>
      hex_val ((c # d # t) ! Suc (2 * i)) = Some y \<and> unat ((v # b') ! i) = 16 * x + y"
    using h unfolding hex_digits_def b by simp
  then obtain x y where v: "hex_val c = Some x" "hex_val d = Some y" "unat v = 16 * x + y" by fastforce
  have "v = of_nat (16 * x + y)" by (simp add: v(3) [symmetric] del: of_nat_add of_nat_mult)
  moreover have "hex_digits t b'"
    using h n unfolding hex_digits_def b by (auto dest!: spec [of _ "Suc i" for i])
  ultimately show "\<exists>x y b'. hex_val c = Some x \<and> hex_val d = Some y \<and> b = of_nat (16 * x + y) # b' \<and> hex_digits t b'"
    using v b by blast
next
  assume "\<exists>x y b'. hex_val c = Some x \<and> hex_val d = Some y \<and> b = of_nat (16 * x + y) # b' \<and> hex_digits t b'"
  then obtain x y b' where v: "hex_val c = Some x" "hex_val d = Some y" "b = of_nat (16 * x + y) # b'" "hex_digits t b'" by blast
  have "16 * x + y < 256" using v(1,2) [THEN hex_val_less] by simp
  then have u: "unat (of_nat (16 * x + y) :: byte) = 16 * x + y" by (simp add: unat_of_nat del: of_nat_add of_nat_mult)
  show "hex_digits (c # d # t) b"
    unfolding hex_digits_def
  proof (intro conjI allI impI)
    fix i assume "i < length b"
    then show "\<exists>x y. hex_val ((c # d # t) ! (2 * i)) = Some x \<and> hex_val ((c # d # t) ! Suc (2 * i)) = Some y \<and>
        unat (b ! i) = 16 * x + y"
      using v u by (cases i) (auto simp: hex_digits_def)
  qed (use v in \<open>simp add: hex_digits_def\<close>)
qed

lemma hex_DecodeString_digits: "hex_DecodeString s = Ok b \<longleftrightarrow> hex_digits s b"
proof (induction s arbitrary: b rule: hex_DecodeString.induct)
  case (2 c)
  have "length [c] \<noteq> 2 * length b" by (cases b) auto
  then show ?case by (auto simp: hex_digits_def)
qed (auto simp: hex_digits_Nil hex_digits_Cons obind_eq_Ok split: option.splits)

lemma hex_text_iff: "hex_text s b \<longleftrightarrow> hex_DecodeString (strip_0x s) = Ok b"
proof (cases "2 < length s \<and> take 2 s = ''0x''")
  case True
  then obtain t where t: "s = ''0x'' @ t" "t \<noteq> []" by (metis append_take_drop_id drop_eq_Nil leD)
  have "\<not> hex_digits s b" using t(1) by (simp add: hex_digits_Cons hex_val_def digit_val_def)
  moreover have "hex_digits t b \<Longrightarrow> b \<noteq> []" using t(2) by (auto simp: hex_digits_def)
  ultimately show ?thesis using True t(1) by (auto simp: hex_text_def strip_0x_def hex_DecodeString_digits)
next
  case False
  have "\<not> (b \<noteq> [] \<and> (\<exists>t. s = ''0x'' @ t \<and> hex_digits t b))"
  proof
    assume "b \<noteq> [] \<and> (\<exists>t. s = ''0x'' @ t \<and> hex_digits t b)"
    then obtain t where "s = ''0x'' @ t" "hex_digits t b" "b \<noteq> []" by blast
    then show False using False by (cases b) (auto simp: hex_digits_def)
  qed
  then show ?thesis using False by (auto simp: hex_text_def strip_0x_def hex_DecodeString_digits)
qed

lemma eip191_signaturePrefix: "signaturePrefix = eip191_prefix"
  by (simp add: signaturePrefix_def eip191_prefix_def string_bytes_def)

lemma recovers_to_iff: "recovers_to L d s a \<longleftrightarrow> EthAddressFromSignature L d s = Ok a"
  by (simp add: recovers_to_def EthAddressFromSignature_Ok protectedHash_def eip191_signaturePrefix)

lemma signed_by_iff:
  "signed_by L digest sig addr \<longleftrightarrow>
     (\<exists>d s. hex_DecodeString (strip_0x digest) = Ok d \<and> hex_DecodeString (strip_0x sig) = Ok s \<and>
        ValidateEthereumSignature L d s addr = Ok ())"
  unfolding signed_by_def hex_text_iff recovers_to_iff ValidateEthereumSignature_Ok by blast

lemma ValsetConfirm_Validate_Ok:
  "ValsetConfirm_Validate L key value = Ok () \<longleftrightarrow>
     (\<exists>n a d vc. ParseKey key = Ok (ValsetConfirmNamespace, n, a, d) \<and> IsHexAddress L a \<and>
        UnmarshalValsetConfirm value = Ok vc \<and> EqualFold (VcEthAddress vc) a \<and>
        signed_by L d (VcSignature vc) (HexToAddress L a))"
  by (auto simp: ValsetConfirm_Validate_def obind_eq_Ok signed_by_iff)

lemma DataCommitmentConfirm_Validate_Ok:
  "DataCommitmentConfirm_Validate L key value = Ok () \<longleftrightarrow>
     (\<exists>n a d dcc. ParseKey key = Ok (DataCommitmentConfirmNamespace, n, a, d) \<and> IsHexAddress L a \<and>
        UnmarshalDataCommitmentConfirm value = Ok dcc \<and> EqualFold (DccEthAddress dcc) a \<and>
        signed_by L d (DccSignature dcc) (HexToAddress L a))"
  by (auto simp: DataCommitmentConfirm_Validate_def obind_eq_Ok signed_by_iff)

text \<open>The shape of a key, and an authentic record: stated without the parser and the checks.\<close>

definition confirm_key_text :: "string \<Rightarrow> string \<Rightarrow> string \<Rightarrow> string \<Rightarrow> bool" where
  "confirm_key_text namespace a d key \<longleftrightarrow> (\<exists>p x n. key = p @ ''/'' @ namespace @ ''/'' @ x @ '':'' @ a @ '':'' @ d \<and>
     CHR ''/'' \<notin> set (p @ namespace @ x) \<and> CHR '':'' \<notin> set x \<and> namespace \<noteq> [] \<and> ParseUint 16 x = Ok n \<and>
     key_part a \<and> key_part d)"

definition authentic :: "lib \<Rightarrow> string \<Rightarrow> (string \<Rightarrow> 'c outcome) \<Rightarrow> ('c \<Rightarrow> string) \<Rightarrow> ('c \<Rightarrow> string) \<Rightarrow> string \<Rightarrow> string \<Rightarrow> bool" where
  "authentic L namespace unmarshal addr sig key value \<longleftrightarrow>
     (\<exists>a d c digest s. confirm_key_text namespace a d key \<and> IsHexAddress L a \<and>
        unmarshal value = Ok c \<and> EqualFold (addr c) a \<and>
        hex_text d digest \<and> hex_text (sig c) s \<and> recovers_to L digest s (HexToAddress L a))"

lemma ParseKey_iff: "(\<exists>n. ParseKey key = Ok (ns, n, a, d)) \<longleftrightarrow> confirm_key_text ns a d key"
proof
  assume "\<exists>n. ParseKey key = Ok (ns, n, a, d)"
  then obtain n where "ParseKey key = Ok (ns, n, a, d)" by blast
  then obtain p v x where s: "Split CHR ''/'' key = [p, ns, v]" "Split CHR '':'' v = [x, a, d]"
    and n: "ParseUint 16 x = Ok n" and ne: "ns \<noteq> []" "a \<noteq> []" "d \<noteq> []"
    by (auto simp: ParseKey_def Let_def length_3 split: if_splits outcome.splits)
  have key: "key = p @ CHR ''/'' # ns @ CHR ''/'' # v" using join_Split [of "CHR ''/''" key] s by simp
  have v: "v = x @ CHR '':'' # a @ CHR '':'' # d" using join_Split [of "CHR '':''" v] s by simp
  have c: "CHR '':'' \<notin> set x" "CHR '':'' \<notin> set a" "CHR '':'' \<notin> set d" by (rule Split_fresh_parts [of _ _ v]; simp add: s)+
  have "CHR ''/'' \<notin> set p" "CHR ''/'' \<notin> set ns" "CHR ''/'' \<notin> set v" by (rule Split_fresh_parts [of _ _ key]; simp add: s)+
  then show "confirm_key_text ns a d key"
    unfolding confirm_key_text_def using key v c n ne by (intro exI [of _ p] exI [of _ x] exI [of _ n]) (auto simp: key_part_def)
next
  assume "confirm_key_text ns a d key"
  then obtain p x n where k: "key = p @ CHR ''/'' # ns @ CHR ''/'' # x @ CHR '':'' # a @ CHR '':'' # d"
    "CHR ''/'' \<notin> set p" "CHR ''/'' \<notin> set ns" "CHR ''/'' \<notin> set x" "CHR '':'' \<notin> set x" "ns \<noteq> []"
    "ParseUint 16 x = Ok n" "key_part a" "key_part d"
    unfolding confirm_key_text_def by auto
  then have "Split CHR ''/'' key = [p, ns, x @ CHR '':'' # a @ CHR '':'' # d]"
    "Split CHR '':'' (x @ CHR '':'' # a @ CHR '':'' # d) = [x, a, d]"
    by (simp_all add: Split_append Split_fresh key_part_def)
  then show "\<exists>n. ParseKey key = Ok (ns, n, a, d)" using k by (simp add: ParseKey_def key_part_def)
qed

lemma signed_by_inj:
  "inj (AddressHex L) \<Longrightarrow> signed_by L d s a \<longleftrightarrow> (\<exists>digest sig. hex_text d digest \<and> hex_text s sig \<and> recovers_to L digest sig a)"
  unfolding signed_by_def by (metis injD)

lemma authentic_iff:
  "authentic L ns unmarshal addr sig key value \<longleftrightarrow>
     (\<exists>n a d c. ParseKey key = Ok (ns, n, a, d) \<and> IsHexAddress L a \<and> unmarshal value = Ok c \<and> EqualFold (addr c) a \<and>
        (\<exists>digest s. hex_text d digest \<and> hex_text (sig c) s \<and> recovers_to L digest s (HexToAddress L a)))"
  unfolding authentic_def ParseKey_iff [symmetric] by blast

section \<open>What the DHT relies on\<close>

locale record_validator =
  fixes validate :: "string \<Rightarrow> string \<Rightarrow> unit outcome"
    and select :: "string \<Rightarrow> string list \<Rightarrow> nat outcome"
  assumes select_range: "select key values = Ok i \<Longrightarrow> i < length values"
begin

lemma select_member: "select key values = Ok i \<Longrightarrow> values ! i \<in> set values"
  by (simp add: select_range)

lemma select_Nil: "select key [] \<noteq> Ok i"
  using select_range by fastforce

end

locale first_valid_validator =
  fixes validate :: "string \<Rightarrow> string \<Rightarrow> unit outcome"
    and select :: "string \<Rightarrow> string list \<Rightarrow> nat outcome"
  assumes select_def: "select key values =
      (if values = [] then Err ErrNoValues else first_valid (validate key) 0 values)"
begin

lemma first_valid_Ok:
  "first_valid (validate key) k values = Ok i \<Longrightarrow>
     k \<le> i \<and> i - k < length values \<and> validate key (values ! (i - k)) = Ok () \<and>
     (\<forall>j < i - k. validate key (values ! j) \<noteq> Ok ())"
proof (induction "values" arbitrary: k)
  case (Cons v vs)
  show ?case
  proof (cases "validate key v")
    case (Err e)
    with Cons.prems have "first_valid (validate key) (Suc k) vs = Ok i" by simp
    from Cons.IH [OF this] have IH: "Suc k \<le> i" "i - Suc k < length vs"
      "validate key (vs ! (i - Suc k)) = Ok ()" "\<forall>j < i - Suc k. validate key (vs ! j) \<noteq> Ok ()" by auto
    have "i - k = Suc (i - Suc k)" using IH(1) by simp
    then show ?thesis using IH Err by (auto simp: less_Suc_eq_0_disj)
  qed (use Cons.prems in auto)
qed simp

lemma select_first:
  "select key values = Ok i \<Longrightarrow> validate key (values ! i) = Ok () \<and> (\<forall>j < i. validate key (values ! j) \<noteq> Ok ())"
  using first_valid_Ok [of key 0 "values" i] by (auto simp: select_def split: if_splits)

lemma select_bound: "select key values = Ok i \<Longrightarrow> i < length values"
  using first_valid_Ok [of key 0 "values" i] by (auto simp: select_def split: if_splits)

lemma first_valid_none:
  "list_all (\<lambda>v. is_Err (validate key v)) values \<Longrightarrow> first_valid (validate key) k values = Err ErrNoValidValueFound"
  by (induction "values" arbitrary: k) (auto simp: is_Err_iff)

lemma first_valid_some:
  assumes "list_all (\<lambda>v. is_Err (validate key v)) us" "validate key v = Ok ()"
  shows "first_valid (validate key) k (us @ v # vs) = Ok (k + length us)"
  using assms by (induction us arbitrary: k) (auto simp: is_Err_iff)

lemma first_valid_iff:
  "first_valid (validate key) k values = Ok i \<longleftrightarrow>
     k \<le> i \<and> i - k < length values \<and> validate key (values ! (i - k)) = Ok () \<and>
     list_all (\<lambda>v. is_Err (validate key v)) (take (i - k) values)"
proof (induction "values" arbitrary: k)
  case (Cons v vs)
  have "i - k = Suc (i - Suc k)" if "Suc k \<le> i" using that by simp
  then show ?case
    by (cases "validate key v"; cases "i - k")
      (auto simp: Cons.IH Suc_le_eq le_less_linear split: if_splits)
qed simp

lemma select_iff:
  "select key values = Ok i \<longleftrightarrow>
     i < length values \<and> validate key (values ! i) = Ok () \<and>
     list_all (\<lambda>v. is_Err (validate key v)) (take i values)"
  by (cases "values = []") (simp_all add: select_def first_valid_iff)

end

sublocale first_valid_validator \<subseteq> record_validator
  by unfold_locales (rule select_bound)

interpretation vc_validator: first_valid_validator "ValsetConfirm_Validate L" "ValsetConfirm_Select L" for L
  by unfold_locales (simp add: ValsetConfirm_Select_def)

interpretation dcc_validator: first_valid_validator "DataCommitmentConfirm_Validate L" "DataCommitmentConfirm_Select L" for L
  by unfold_locales (simp add: DataCommitmentConfirm_Select_def)

section \<open>The choice of the latest valset\<close>

text \<open>The values all decode, to the valsets \<open>lvs\<close>.\<close>

definition decodes :: "string list \<Rightarrow> LatestValset list \<Rightarrow> bool" where
  "decodes values lvs \<longleftrightarrow> list_all2 (\<lambda>v lv. UnmarshalLatestValset v = Ok lv) values lvs"

lemma decodes_simps [simp]:
  "decodes [] lvs \<longleftrightarrow> lvs = []"
  "decodes (v # vs) lvs \<longleftrightarrow> (\<exists>lv lvs'. lvs = lv # lvs' \<and> UnmarshalLatestValset v = Ok lv \<and> decodes vs lvs')"
  by (auto simp: decodes_def list_all2_Cons1)

lemma select_latest_bound:
  "select_latest k n i values = Ok j \<Longrightarrow> i < k + length values \<Longrightarrow> j < k + length values"
  by (induction "values" arbitrary: k n i) (fastforce simp: obind_eq_Ok split: if_splits)+

interpretation lv_validator: record_validator LatestValset_Validate LatestValset_Select
  by unfold_locales (use select_latest_bound [of 0 0 0] in \<open>fastforce simp: LatestValset_Select_def split: if_splits\<close>)

text \<open>
  The indices (counted from \<open>k\<close>) of the nonces of a list that exceed the one before them, the
  first being compared with \<open>n\<close>. The index that is kept is the last of these.
\<close>

fun ascents :: "nat \<Rightarrow> u64 \<Rightarrow> u64 list \<Rightarrow> nat list" where
  "ascents k n [] = []"
| "ascents k n (m # ms) = (if n < m then [k] else []) @ ascents (Suc k) m ms"

lemma select_latest_last_ascent:
  "decodes values lvs \<Longrightarrow>
   select_latest k n i values = Ok (last (i # ascents k n (map LvNonce lvs)))"
  by (induction "values" arbitrary: k n i lvs) auto

lemma set_ascents:
  "l \<in> set (ascents k n ms) \<longleftrightarrow> k \<le> l \<and> l < k + length ms \<and> (n # ms) ! (l - k) < ms ! (l - k)"
proof (induction ms arbitrary: k n)
  case (Cons m ms)
  show ?case
  proof (cases "l = k")
    case False
    then have "l - k = Suc (l - Suc k)" if "k \<le> l" using that by simp
    then show ?thesis using False Cons.IH [of "Suc k" m] by auto
  next
    case True
    then show ?thesis using Cons.IH [of "Suc k" m] by auto
  qed
qed simp

lemma sorted_ascents: "sorted_wrt (<) (ascents k n ms)"
  by (induction ms arbitrary: k n) (auto simp: set_ascents sorted_wrt_append)

lemma LatestValset_Select_ascents:
  assumes "decodes values lvs" "values \<noteq> []"
  shows "LatestValset_Select GetLatestValsetKey values = Ok (last (0 # ascents 0 0 (map LvNonce lvs)))"
  using assms by (simp add: LatestValset_Select_def select_latest_last_ascent)

lemma last_Cons_sorted:
  "sorted_wrt (<) xs \<Longrightarrow> x \<in> set xs \<Longrightarrow> x \<le> (last xs :: nat)"
  by (induction xs) (auto simp: less_imp_le)

lemma last_ascent:
  assumes "j = last (0 # ascents 0 0 ms)"
  shows "j = 0 \<or> (j < length ms \<and> ms ! (j - 1) < ms ! j)"
    and "j < l \<Longrightarrow> l < length ms \<Longrightarrow> ms ! l \<le> ms ! (l - 1)"
proof -
  show "j = 0 \<or> (j < length ms \<and> ms ! (j - 1) < ms ! j)"
  proof (cases "ascents 0 0 ms = []")
    case False
    then have "j \<in> set (ascents 0 0 ms)" using assms by simp
    then show ?thesis using set_ascents [of j 0 0 ms] by (auto simp: nth_Cons' split: if_splits)
  qed (use assms in simp)
  assume "j < l" "l < length ms"
  moreover have "l \<notin> set (ascents 0 0 ms)"
    using last_Cons_sorted [OF sorted_ascents, of l 0 0 ms] assms \<open>j < l\<close> by (auto split: if_splits)
  ultimately show "ms ! l \<le> ms ! (l - 1)" by (cases l) (auto simp: set_ascents)
qed

section \<open>Confirms that are built are accepted\<close>

lemma built_vc_valid:
  assumes "key_part a" "key_part d" "IsHexAddress L a" "vc_utf8 vc" "VcEthAddress vc = a"
    and "signed_by L d (VcSignature vc) (HexToAddress L a)"
  shows "ValsetConfirm_Validate L (GetValsetConfirmKey n a d) (print (vc_json vc)) = Ok ()"
proof -
  have "UnmarshalValsetConfirm (print (vc_json vc)) = Ok vc"
    using Unmarshal_Marshal_vc [OF assms(4)] by (simp add: MarshalValsetConfirm_def)
  then show ?thesis unfolding ValsetConfirm_Validate_Ok using assms vc_key.parse_make [OF assms(1,2), of n] by auto
qed

lemma built_dcc_valid:
  assumes "key_part a" "key_part d" "IsHexAddress L a" "dcc_utf8 dcc" "DccEthAddress dcc = a"
    and "signed_by L d (DccSignature dcc) (HexToAddress L a)"
  shows "DataCommitmentConfirm_Validate L (GetDataCommitmentConfirmKey n a d) (print (dcc_json dcc)) = Ok ()"
proof -
  have "UnmarshalDataCommitmentConfirm (print (dcc_json dcc)) = Ok dcc"
    using Unmarshal_Marshal_dcc [OF assms(4)] by (simp add: MarshalDataCommitmentConfirm_def)
  then show ?thesis unfolding DataCommitmentConfirm_Validate_Ok using assms dcc_key.parse_make [OF assms(1,2), of n] by auto
qed

section \<open>Properties\<close>

text \<open>
  C4: The DHT's validators accept a record exactly when its key has the shape
  \<open>prefix/namespace/nonce:address:digest\<close> for their namespace with a hexadecimal nonce and a hex
  address, the record decodes to a confirm that names this address up to case, and the signature
  in it recovers, over the EIP-191 hash of the digest in the key, to a key of that address: no
  record can be stored under the address of a validator that has not signed that digest. Texts of
  addresses are assumed to differ for different addresses, as those of go-ethereum do.
\<close>

theorem confirm_validators_authenticate:
  assumes "inj (AddressHex L)"
  shows "(ValsetConfirm_Validate L key value = Ok () \<longleftrightarrow>
      authentic L ''vc'' UnmarshalValsetConfirm VcEthAddress VcSignature key value) \<and>
    (DataCommitmentConfirm_Validate L key value = Ok () \<longleftrightarrow>
      authentic L ''dcc'' UnmarshalDataCommitmentConfirm DccEthAddress DccSignature key value)"
  using signed_by_inj [OF assms] unfolding authentic_iff ValsetConfirm_Validate_Ok DataCommitmentConfirm_Validate_Ok
    ValsetConfirmNamespace_def DataCommitmentConfirmNamespace_def by simp

text \<open>
  Among several records of a confirm key, the validators select the first one they accept, all
  earlier ones being refused; they select nothing else.
\<close>

theorem confirm_validators_select_first:
  "(ValsetConfirm_Select L key values = Ok i \<longleftrightarrow>
     i < length values \<and> ValsetConfirm_Validate L key (values ! i) = Ok () \<and>
     list_all (\<lambda>v. is_Err (ValsetConfirm_Validate L key v)) (take i values)) \<and>
   (DataCommitmentConfirm_Select L key values = Ok i \<longleftrightarrow>
     i < length values \<and> DataCommitmentConfirm_Validate L key (values ! i) = Ok () \<and>
     list_all (\<lambda>v. is_Err (DataCommitmentConfirm_Validate L key v)) (take i values))"
  by (simp add: vc_validator.select_iff dcc_validator.select_iff)

text \<open>
  Among latest valsets that all decode, \<open>Select\<close> picks the last one whose nonce exceeds that of
  the value just before it (the first value if there is none), since it compares each nonce with
  the preceding one and not with the largest so far.
\<close>

theorem LatestValset_Select_last_ascent:
  assumes "decodes values lvs" and "values \<noteq> []"
  shows "\<exists>j < length lvs. LatestValset_Select GetLatestValsetKey values = Ok j \<and>
    (j = 0 \<or> LvNonce (lvs ! (j - 1)) < LvNonce (lvs ! j)) \<and>
    (\<forall>l. j < l \<and> l < length lvs \<longrightarrow> LvNonce (lvs ! l) \<le> LvNonce (lvs ! (l - 1)))"
proof -
  define j where "j = last (0 # ascents 0 0 (map LvNonce lvs))"
  have len: "0 < length lvs" using assms by (cases "values") auto
  have sel: "LatestValset_Select GetLatestValsetKey values = Ok j"
    using LatestValset_Select_ascents [OF assms] unfolding j_def .
  from last_ascent(1) [OF j_def] len have j: "j < length lvs" "j = 0 \<or> LvNonce (lvs ! (j - 1)) < LvNonce (lvs ! j)"
    by auto
  have "LvNonce (lvs ! l) \<le> LvNonce (lvs ! (l - 1))" if "j < l" "l < length lvs" for l
    using last_ascent(2) [OF j_def, of l] that by simp
  with sel j show ?thesis by blast
qed

definition lv_text :: "u64 \<Rightarrow> string" where
  "lv_text n = print (lv_json \<lparr>LvNonce = n, LvMembers = [], LvHeight = 0\<rparr>)"

lemma Unmarshal_lv_text: "UnmarshalLatestValset (lv_text n) = Ok \<lparr>LvNonce = n, LvMembers = [], LvHeight = 0\<rparr>"
  using Unmarshal_Marshal_lv [of "\<lparr>LvNonce = n, LvMembers = [], LvHeight = 0\<rparr>"]
  by (simp add: lv_text_def MarshalLatestValset_def lv_utf8_def)

theorem LatestValset_Select_last_ascent_witness:
  "\<exists>j < 3. LatestValset_Select GetLatestValsetKey [lv_text 1, lv_text 3, lv_text 2] = Ok j"
  using LatestValset_Select_last_ascent [of "[lv_text 1, lv_text 3, lv_text 2]"
      "map (\<lambda>n. \<lparr>LvNonce = n, LvMembers = [], LvHeight = 0\<rparr>) [1, 3, 2]"]
  by (auto simp: Unmarshal_lv_text)

text \<open>
  Hence \<open>Select\<close> does not return the value with the largest nonce, against its comment: of the
  nonces 10, 5 and 7 it picks 7.
\<close>

theorem LatestValset_Select_not_largest:
  "LatestValset_Select GetLatestValsetKey [lv_text 10, lv_text 5, lv_text 7] = Ok 2 \<and>
   UnmarshalLatestValset (lv_text 10) = Ok \<lparr>LvNonce = 10, LvMembers = [], LvHeight = 0\<rparr> \<and>
   UnmarshalLatestValset (lv_text 7) = Ok \<lparr>LvNonce = 7, LvMembers = [], LvHeight = 0\<rparr>"
  by (simp add: LatestValset_Select_def Unmarshal_lv_text)

text \<open>
  Of two values that decode, which is how the DHT compares a new record with a stored one,
  \<open>Select\<close> picks the one with the larger nonce, and the first on a tie.
\<close>

theorem LatestValset_Select_two:
  assumes "UnmarshalLatestValset v = Ok a" and "UnmarshalLatestValset w = Ok b"
  shows "LatestValset_Select GetLatestValsetKey [v, w] = Ok (if LvNonce a < LvNonce b then 1 else 0)"
  using assms by (simp add: LatestValset_Select_def)

theorem LatestValset_Select_two_witness:
  "LatestValset_Select GetLatestValsetKey [lv_text 4, lv_text 6] = Ok 1"
  using LatestValset_Select_two [OF Unmarshal_lv_text Unmarshal_lv_text, of 4 6] by simp

end
