(* ===== verification/Dht.thy ===== *)
theory Dht imports Validators begin

text \<open>
  \<open>p2p/dht.go\<close>: the DHT with its record validators, waiting for peers, and the typed put and get
  operations. Storing and finding records is the DHT's own work; \<open>dht_put\<close> and \<open>dht_get\<close> of the
  environment stand for it.
\<close>

definition ProtocolPrefix :: string where
  "ProtocolPrefix = ''/blobstream/0.1.0''"

text \<open>What \<open>NewBlobstreamDHT\<close> configures: the validator of each namespace.\<close>

record dht_config =
  Prefix :: string
  NamespacedValidators :: "(string \<times> ((string \<Rightarrow> string \<Rightarrow> unit outcome) \<times> (string \<Rightarrow> string list \<Rightarrow> nat outcome))) list"

definition NewBlobstreamDHT :: "lib \<Rightarrow> dht_config" where
  "NewBlobstreamDHT L = \<lparr>Prefix = ProtocolPrefix,
     NamespacedValidators =
       [(DataCommitmentConfirmNamespace, DataCommitmentConfirm_Validate L, DataCommitmentConfirm_Select L),
        (ValsetConfirmNamespace, ValsetConfirm_Validate L, ValsetConfirm_Select L),
        (LatestValsetNamespace, LatestValset_Validate, LatestValset_Select)]\<rparr>"

section \<open>Waiting for peers\<close>

definition listPeers :: "env \<Rightarrow> nat prog" where
  "listPeers E = observe (dht_peers E) (\<lambda>n. Dht (ListPeers n))"

definition wait :: "env \<Rightarrow> wake prog" where
  "wait E = observe (wake_up E) (\<lambda>w. Local (Wake w))"

fun waitForPeers_loop :: "env \<Rightarrow> int \<Rightarrow> nat \<Rightarrow> unit prog" where
  "waitForPeers_loop E peersThreshold 0 = lift Blocked"
| "waitForPeers_loop E peersThreshold (Suc rounds) =
     andThen (wait E) (\<lambda>w. case w of
         WCtx e \<Rightarrow> throw e
       | WTimeout \<Rightarrow> throw ErrPeersTimeout
       | WTick \<Rightarrow>
           andThen (listPeers E) (\<lambda>peersLen.
           if peersThreshold \<le> int peersLen then ret ()
           else waitForPeers_loop E peersThreshold rounds))"

definition WaitForPeers :: "env \<Rightarrow> nat \<Rightarrow> int \<Rightarrow> unit prog" where
  "WaitForPeers E rounds peersThreshold =
     (if peersThreshold < 1 then throw ErrPeersThresholdCannotBeNegative
      else
        andThen (listPeers E) (\<lambda>peersLen.
        if peersThreshold \<le> int peersLen then ret ()
        else waitForPeers_loop E peersThreshold rounds))"

section \<open>Records\<close>

definition dhtPutValue :: "env \<Rightarrow> string \<Rightarrow> string \<Rightarrow> unit prog" where
  "dhtPutValue E key value = call (dht_put E key value) (\<lambda>r. Dht (PutValue key value r))"

definition dhtGetValue :: "env \<Rightarrow> string \<Rightarrow> string prog" where
  "dhtGetValue E key = call (dht_get E key) (\<lambda>r. Dht (GetValue key r))"

definition PutDataCommitmentConfirm :: "env \<Rightarrow> string \<Rightarrow> DataCommitmentConfirm \<Rightarrow> unit prog" where
  "PutDataCommitmentConfirm E key dcc =
     andThen (lift (MarshalDataCommitmentConfirm dcc)) (\<lambda>encodedData. dhtPutValue E key encodedData)"

definition GetDataCommitmentConfirm :: "env \<Rightarrow> string \<Rightarrow> DataCommitmentConfirm prog" where
  "GetDataCommitmentConfirm E key =
     andThen (dhtGetValue E key) (\<lambda>encodedConfirm. lift (UnmarshalDataCommitmentConfirm encodedConfirm))"

definition PutValsetConfirm :: "env \<Rightarrow> string \<Rightarrow> ValsetConfirm \<Rightarrow> unit prog" where
  "PutValsetConfirm E key vc =
     andThen (lift (MarshalValsetConfirm vc)) (\<lambda>encodedData. dhtPutValue E key encodedData)"

definition GetValsetConfirm :: "env \<Rightarrow> string \<Rightarrow> ValsetConfirm prog" where
  "GetValsetConfirm E key =
     andThen (dhtGetValue E key) (\<lambda>encodedConfirm. lift (UnmarshalValsetConfirm encodedConfirm))"

definition PutLatestValset :: "env \<Rightarrow> LatestValset \<Rightarrow> unit prog" where
  "PutLatestValset E v =
     andThen (lift (MarshalLatestValset v)) (\<lambda>encodedData. dhtPutValue E GetLatestValsetKey encodedData)"

definition GetLatestValset :: "env \<Rightarrow> LatestValset prog" where
  "GetLatestValset E =
     andThen (dhtGetValue E GetLatestValsetKey) (\<lambda>encoded. lift (UnmarshalLatestValset encoded))"

section \<open>Lemmas\<close>

lemma wait_run [simp]: "andThen (wait E) f h = f (wake_up E h) (Local (Wake (wake_up E h)) # h)"
  by (simp add: wait_def)

lemma listPeers_run [simp]: "andThen (listPeers E) f h = f (dht_peers E h) (Dht (ListPeers (dht_peers E h)) # h)"
  by (simp add: listPeers_def)

lemma dhtPutValue_run [simp]:
  "dhtPutValue E k v h = (dht_put E k v h, Dht (PutValue k v (dht_put E k v h)) # h)"
  by (simp add: dhtPutValue_def)

lemma dhtGetValue_run [simp]:
  "dhtGetValue E k h = (dht_get E k h, Dht (GetValue k (dht_get E k h)) # h)"
  by (simp add: dhtGetValue_def)

lemma waitForPeers_loop_Ok:
  "waitForPeers_loop E th k h = (Ok u, h') \<Longrightarrow> \<exists>n t. h' = Dht (ListPeers n) # t \<and> th \<le> int n"
  by (induction k arbitrary: h) (auto split: wake.splits if_splits)

lemma waitForPeers_loop_returns:
  "(\<And>h. N \<le> length h \<Longrightarrow> wake_up E h \<noteq> WTick) \<Longrightarrow> N + 2 \<le> length h + 2 * k \<Longrightarrow> 0 < k \<Longrightarrow>
   fst (waitForPeers_loop E th k h) \<noteq> Blocked"
proof (induction k arbitrary: h)
  case (Suc k)
  show ?case
  proof (cases "N \<le> length h")
    case True
    then show ?thesis using Suc.prems(1) [of h] by (auto split: wake.splits)
  next
    case False
    then have "0 < k" using Suc.prems(2) by (cases k) auto
    with Suc show ?thesis by (auto split: wake.splits)
  qed
qed simp

lemma emits_dhtGetValue [emits_intros]: "(\<And>r. P (Dht (GetValue k r))) \<Longrightarrow> emits P (dhtGetValue E k)"
  unfolding dhtGetValue_def by (intro emits_intros)

lemma emits_dhtPutValue [emits_intros]: "(\<And>r. P (Dht (PutValue k v r))) \<Longrightarrow> emits P (dhtPutValue E k v)"
  unfolding dhtPutValue_def by (intro emits_intros)

lemma emits_listPeers [emits_intros]: "(\<And>n. P (Dht (ListPeers n))) \<Longrightarrow> emits P (listPeers E)"
  unfolding listPeers_def by (intro emits_intros)

lemma emits_wait [emits_intros]: "(\<And>w. P (Local (Wake w))) \<Longrightarrow> emits P (wait E)"
  unfolding wait_def by (intro emits_intros)

section \<open>Properties\<close>

text \<open>
  \<open>WaitForPeers\<close> returns nil only right after it has seen at least the wanted number of peers,
  which must be positive; and once the timer or the context fires it returns, whatever the
  routing table does: with more rounds than calls before that moment it is not still waiting.
\<close>

theorem WaitForPeers_sees_peers:
  assumes "\<And>h. N \<le> length h \<Longrightarrow> wake_up E h \<noteq> WTick" and "N < 2 * rounds"
  shows "fst (WaitForPeers E rounds th h) \<noteq> Blocked \<and>
    (fst (WaitForPeers E rounds th h) = Ok () \<longrightarrow>
      1 \<le> th \<and> (\<exists>n t. snd (WaitForPeers E rounds th h) = Dht (ListPeers n) # t \<and> th \<le> int n))"
proof -
  have b: "fst (WaitForPeers E rounds th h) \<noteq> Blocked"
    using waitForPeers_loop_returns [of N E "Dht (ListPeers (dht_peers E h)) # h" rounds th] assms
    by (auto simp: WaitForPeers_def)
  moreover have "\<exists>n t. h' = Dht (ListPeers n) # t \<and> th \<le> int n"
    if "WaitForPeers E rounds th h = (Ok (), h')" for h'
    using that by (auto simp: WaitForPeers_def split: if_splits dest: waitForPeers_loop_Ok)
  moreover have "1 \<le> th" if "fst (WaitForPeers E rounds th h) = Ok ()"
    using that by (auto simp: WaitForPeers_def split: if_splits)
  ultimately show ?thesis by (metis prod.collapse)
qed

theorem WaitForPeers_sees_peers_witness:
  "fst (WaitForPeers (ref_env\<lparr>dht_peers := (\<lambda>h. length h)\<rparr>) 1 1 []) \<noteq> Blocked"
  using WaitForPeers_sees_peers [of 0 "ref_env\<lparr>dht_peers := (\<lambda>h. length h)\<rparr>" 1 1 "[]"]
  by (simp add: ref_env_def)

end
