(* ===== verification/Querier.thy ===== *)
theory Querier imports Dht begin

text \<open>
  \<open>p2p/querier.go\<close>: looking up the confirms of the members of a validator set and waiting until
  they carry two thirds of the power. The loops over \<open>select\<close> take a number of rounds; a loop that
  is still waiting after them is \<open>Blocked\<close>.
\<close>

section \<open>One confirm\<close>

definition QueryValsetConfirmByEVMAddress :: "env \<Rightarrow> u64 \<Rightarrow> string \<Rightarrow> string \<Rightarrow> ValsetConfirm option prog" where
  "QueryValsetConfirmByEVMAddress E nonce address signBytes =
     handle (GetValsetConfirm E (GetValsetConfirmKey nonce address signBytes))
       (\<lambda>confirm. ret (Some confirm))
       (\<lambda>e. if errors_Is e RoutingNotFound then ret None else throw e)"

definition QueryDataCommitmentConfirmByEVMAddress :: "env \<Rightarrow> u64 \<Rightarrow> string \<Rightarrow> string \<Rightarrow> DataCommitmentConfirm option prog" where
  "QueryDataCommitmentConfirmByEVMAddress E nonce address dataRootTupleRoot =
     handle (GetDataCommitmentConfirm E (GetDataCommitmentConfirmKey nonce address dataRootTupleRoot))
       (\<lambda>confirm. ret (Some confirm))
       (\<lambda>e. if errors_Is e RoutingNotFound then ret None else throw e)"

section \<open>The confirms of all members\<close>

text \<open>
  The loop of \<open>QueryDataCommitmentConfirms\<close> and \<open>QueryValsetConfirms\<close>: what is found is appended,
  what is not found is skipped, any other error ends it.
\<close>

fun collect :: "(bridge_validator \<Rightarrow> 'c prog) \<Rightarrow> bridge_validator list \<Rightarrow> 'c list \<Rightarrow> 'c list prog" where
  "collect get [] confirms = ret confirms"
| "collect get (m # ms) confirms =
     handle (get m)
       (\<lambda>confirm. collect get ms (confirms @ [confirm]))
       (\<lambda>e. if errors_Is e RoutingNotFound then collect get ms confirms else throw e)"

definition QueryDataCommitmentConfirms :: "env \<Rightarrow> valset \<Rightarrow> u64 \<Rightarrow> string \<Rightarrow> DataCommitmentConfirm list prog" where
  "QueryDataCommitmentConfirms E valset nonce dataRootTupleRoot =
     collect (\<lambda>m. GetDataCommitmentConfirm E (GetDataCommitmentConfirmKey nonce (EvmAddress m) dataRootTupleRoot))
       (Members valset) []"

definition QueryValsetConfirms :: "env \<Rightarrow> u64 \<Rightarrow> valset \<Rightarrow> string \<Rightarrow> ValsetConfirm list prog" where
  "QueryValsetConfirms E nonce valset signBytes =
     collect (\<lambda>m. GetValsetConfirm E (GetValsetConfirmKey nonce (EvmAddress m) signBytes))
       (Members valset) []"

definition QueryLatestValset :: "env \<Rightarrow> LatestValset prog" where
  "QueryLatestValset E = GetLatestValset E"

section \<open>Two thirds of the power\<close>

text \<open>The map from address to validator: a later member with the same address replaces an earlier one.\<close>

definition vals :: "valset \<Rightarrow> string \<Rightarrow> bridge_validator option" where
  "vals previousValset = foldl (\<lambda>f v. f(EvmAddress v \<mapsto> v)) Map.empty (Members previousValset)"

text \<open>\<open>currThreshold\<close>: the power of the signers that are members, in 64-bit arithmetic.\<close>

fun signed_power :: "(string \<Rightarrow> bridge_validator option) \<Rightarrow> u64 \<Rightarrow> string list \<Rightarrow> u64" where
  "signed_power vs currThreshold [] = currThreshold"
| "signed_power vs currThreshold (addr # addrs) =
     (case vs addr of
        None \<Rightarrow> signed_power vs currThreshold addrs
      | Some val \<Rightarrow> signed_power vs (currThreshold + Power val) addrs)"

text \<open>
  \<open>queryFunc\<close>, which assigns \<open>validConfirms\<close> when the threshold is reached; otherwise
  \<open>validConfirms\<close> stays empty.
\<close>

definition queryFunc :: "lib \<Rightarrow> valset \<Rightarrow> ('c \<Rightarrow> string) \<Rightarrow> 'c list prog \<Rightarrow> 'c list prog" where
  "queryFunc L previousValset ethAddress query =
     andThen query (\<lambda>confirms.
     ret (if TwoThirdsThreshold L previousValset \<le> signed_power (vals previousValset) 0 (map ethAddress confirms)
          then confirms else []))"

fun pollConfirms :: "env \<Rightarrow> go_error \<Rightarrow> 'c list prog \<Rightarrow> nat \<Rightarrow> 'c list prog" where
  "pollConfirms E timeoutError qf 0 = lift Blocked"
| "pollConfirms E timeoutError qf (Suc rounds) =
     andThen (wait E) (\<lambda>w. case w of
         WCtx e \<Rightarrow> throw e
       | WTimeout \<Rightarrow> throw timeoutError
       | WTick \<Rightarrow>
           andThen qf (\<lambda>validConfirms.
           if length validConfirms \<noteq> 0 then ret validConfirms
           else pollConfirms E timeoutError qf rounds))"

definition queryTwoThirds :: "env \<Rightarrow> go_error \<Rightarrow> 'c list prog \<Rightarrow> nat \<Rightarrow> 'c list prog" where
  "queryTwoThirds E timeoutError qf rounds =
     andThen qf (\<lambda>validConfirms.
     if length validConfirms \<noteq> 0 then ret validConfirms
     else pollConfirms E timeoutError qf rounds)"

definition QueryTwoThirdsDataCommitmentConfirms ::
  "lib \<Rightarrow> env \<Rightarrow> nat \<Rightarrow> valset \<Rightarrow> u64 \<Rightarrow> string \<Rightarrow> DataCommitmentConfirm list prog" where
  "QueryTwoThirdsDataCommitmentConfirms L E rounds previousValset nonce dataRootTupleRoot =
     queryTwoThirds E (Wrap ErrNotEnoughDataCommitmentConfirms ''failure to query for majority validator set confirms: timout'')
       (queryFunc L previousValset DccEthAddress (QueryDataCommitmentConfirms E previousValset nonce dataRootTupleRoot)) rounds"

definition QueryTwoThirdsValsetConfirms ::
  "lib \<Rightarrow> env \<Rightarrow> nat \<Rightarrow> u64 \<Rightarrow> valset \<Rightarrow> string \<Rightarrow> ValsetConfirm list prog" where
  "QueryTwoThirdsValsetConfirms L E rounds valsetNonce previousValset signBytes =
     queryTwoThirds E (Wrap ErrNotEnoughValsetConfirms ''failure to query for majority validator set confirms: timout'')
       (queryFunc L previousValset VcEthAddress (QueryValsetConfirms E valsetNonce previousValset signBytes)) rounds"

section \<open>What a lookup of confirms returns\<close>

text \<open>
  \<open>lookup_answer t key unmarshal m found\<close>: among the calls \<open>t\<close>, the DHT was asked for the record of
  member \<open>m\<close>, and \<open>found\<close> is the confirm it answered, or nothing if it had none.
\<close>

definition lookup_answer ::
  "history \<Rightarrow> (bridge_validator \<Rightarrow> string) \<Rightarrow> (string \<Rightarrow> 'c outcome) \<Rightarrow> bridge_validator \<Rightarrow> 'c option \<Rightarrow> bool" where
  "lookup_answer t key unmarshal m found \<longleftrightarrow> (case found of
       Some c \<Rightarrow> \<exists>v. Dht (GetValue (key m) (Ok v)) \<in> set t \<and> unmarshal v = Ok c
     | None \<Rightarrow> \<exists>e. Dht (GetValue (key m) (Err e)) \<in> set t \<and> errors_Is e RoutingNotFound)"

definition somes :: "'c option list \<Rightarrow> 'c list" where
  "somes xs = map the (filter (\<lambda>x. x \<noteq> None) xs)"

lemma somes_simps [simp]: "somes [] = []" "somes (None # xs) = somes xs" "somes (Some c # xs) = c # somes xs"
  by (simp_all add: somes_def)

lemma lookup_answer_mono:
  "lookup_answer t key un m f \<Longrightarrow> set t \<subseteq> set t' \<Longrightarrow> lookup_answer t' key un m f"
  by (fastforce simp: lookup_answer_def split: option.splits)

text \<open>
  What the pollers need of a lookup: it is one DHT call followed by decoding, and a record that does
  not decode is not mistaken for a missing one.
\<close>

locale confirm_lookup =
  fixes E :: env
    and get :: "bridge_validator \<Rightarrow> 'c prog"
    and key :: "bridge_validator \<Rightarrow> string"
    and unmarshal :: "string \<Rightarrow> 'c outcome"
  assumes get_run: "get m h = (obind (dht_get E (key m) h) unmarshal, Dht (GetValue (key m) (dht_get E (key m) h)) # h)"
    and decode_error: "unmarshal v = Err e \<Longrightarrow> \<not> errors_Is e RoutingNotFound"
    and decode_returns: "unmarshal v \<noteq> Blocked"
begin

lemma collect_step:
  "collect get (m # ms) acc h =
     (let h1 = Dht (GetValue (key m) (dht_get E (key m) h)) # h in
      case obind (dht_get E (key m) h) unmarshal of
        Ok c \<Rightarrow> collect get ms (acc @ [c]) h1
      | Err e \<Rightarrow> if errors_Is e RoutingNotFound then collect get ms acc h1 else (Err e, h1)
      | Panic p \<Rightarrow> (Panic p, h1)
      | Blocked \<Rightarrow> (Blocked, h1))"
  using get_run [of m h] by (simp add: handle_def Let_def split: outcome.split)

lemma collect_answers:
  "collect get ms acc h = (Ok cs, h') \<Longrightarrow>
   \<exists>t found. h' = t @ h \<and> cs = acc @ somes found \<and> list_all2 (lookup_answer t key unmarshal) ms found"
proof (induction ms arbitrary: acc h)
  case (Cons m ms)
  let ?e = "Dht (GetValue (key m) (dht_get E (key m) h))"
  have rec: "\<exists>t found. h' = t @ h \<and> cs = acc @ somes found \<and> list_all2 (lookup_answer t key unmarshal) (m # ms) found"
    if c: "collect get ms acc' (?e # h) = (Ok cs, h')" and f: "lookup_answer [?e] key unmarshal m f"
      and a: "acc' = acc @ somes [f]" for acc' f
  proof -
    from Cons.IH [OF c] obtain t found where t: "h' = t @ ?e # h" "cs = acc' @ somes found"
      "list_all2 (lookup_answer t key unmarshal) ms found" by blast
    have "list_all2 (lookup_answer (t @ [?e]) key unmarshal) (m # ms) (f # found)"
      using t(3) f by (auto elim!: lookup_answer_mono list_all2_mono)
    moreover have "cs = acc @ somes (f # found)" using t(2) a by (cases f) auto
    ultimately show ?thesis using t(1) by (intro exI [of _ "t @ [?e]"] exI [of _ "f # found"]) simp
  qed
  show ?case
  proof (cases "dht_get E (key m) h")
    case (Ok v)
    show ?thesis
    proof (cases "unmarshal v")
      case (Ok c)
      then show ?thesis using Cons.prems \<open>dht_get E (key m) h = Ok v\<close>
        by (intro rec [of "acc @ [c]" "Some c"])
          (simp_all add: collect_step lookup_answer_def del: collect.simps)
    qed (use Cons.prems Ok decode_error in \<open>auto simp: collect_step split: if_splits simp del: collect.simps\<close>)
  next
    case (Err e)
    then show ?thesis using Cons.prems
      by (intro rec [of acc None])
        (auto simp: collect_step lookup_answer_def Let_def split: if_splits simp del: collect.simps)
  qed (use Cons.prems in \<open>auto simp: collect_step simp del: collect.simps\<close>)
qed simp

lemma collect_returns:
  "(\<And>k h. dht_get E k h \<noteq> Blocked) \<Longrightarrow> fst (collect get ms acc h) \<noteq> Blocked"
proof (induction ms arbitrary: acc h)
  case (Cons m ms)
  then have "obind (dht_get E (key m) h) unmarshal \<noteq> Blocked"
    using decode_returns by (cases "dht_get E (key m) h") auto
  with Cons show ?case
    by (cases "obind (dht_get E (key m) h) unmarshal") (auto simp: collect_step Let_def simp del: collect.simps)
qed simp

lemma collect_emits: "\<exists>t. snd (collect get ms acc h) = t @ h \<and> (\<forall>e \<in> set t. \<exists>m \<in> set ms. \<exists>r. e = Dht (GetValue (key m) r))"
proof (induction ms arbitrary: acc h)
  case (Cons m ms)
  let ?e = "Dht (GetValue (key m) (dht_get E (key m) h))"
  have "\<exists>t. snd (collect get ms acc' (?e # h)) = t @ h \<and>
      (\<forall>e \<in> set t. \<exists>m' \<in> set (m # ms). \<exists>r. e = Dht (GetValue (key m') r))" for acc'
  proof -
    obtain t where "snd (collect get ms acc' (?e # h)) = t @ ?e # h"
      "\<forall>e \<in> set t. \<exists>m \<in> set ms. \<exists>r. e = Dht (GetValue (key m) r)" using Cons.IH by blast
    then show ?thesis by (intro exI [of _ "t @ [?e]"]) auto
  qed
  moreover have "\<exists>t. ?e # h = t @ h \<and> (\<forall>e \<in> set t. \<exists>m' \<in> set (m # ms). \<exists>r. e = Dht (GetValue (key m') r))"
    by (intro exI [of _ "[?e]"]) auto
  ultimately show ?case
    by (cases "obind (dht_get E (key m) h) unmarshal") (simp_all add: collect_step Let_def del: collect.simps)
qed simp

end

text \<open>The decoders return a value or the JSON error.\<close>

definition ok_or_json :: "'a outcome \<Rightarrow> bool" where
  "ok_or_json r \<longleftrightarrow> is_Ok r \<or> r = Err ErrJson"

lemma ok_or_json_simps [simp]: "ok_or_json (Ok x)" "ok_or_json (Err ErrJson)"
  by (simp_all add: ok_or_json_def)

lemma ok_or_json_obind [simp, intro]:
  "ok_or_json m \<Longrightarrow> (\<And>x. m = Ok x \<Longrightarrow> ok_or_json (f x)) \<Longrightarrow> ok_or_json (obind m f)"
  by (cases m) (auto simp: ok_or_json_def)

lemma ok_or_json_D: "ok_or_json r \<Longrightarrow> r \<noteq> Blocked" "ok_or_json r \<Longrightarrow> r = Err e \<Longrightarrow> e = ErrJson"
  by (auto simp: ok_or_json_def)

lemma decode_string_json [simp]: "ok_or_json (decode_string v old)"
  by (cases v) auto

lemma parse_json [simp]: "ok_or_json (parse s)"
  by (auto simp: parse_def split: option.splits)

lemma decode_fields_json: "(\<And>k v x. ok_or_json (upd k v x)) \<Longrightarrow> ok_or_json (decode_fields upd fs x)"
  by (induction fs arbitrary: x) auto

lemma decode_struct_json: "(\<And>k v x. ok_or_json (upd k v x)) \<Longrightarrow> ok_or_json (decode_struct upd z j)"
  by (cases j) (auto simp: decode_fields_json)

lemma vc_unmarshal_json: "ok_or_json (UnmarshalValsetConfirm s)"
  unfolding UnmarshalValsetConfirm_def
  by (intro ok_or_json_obind parse_json decode_struct_json) (simp add: vc_field_def)

lemma dcc_unmarshal_json: "ok_or_json (UnmarshalDataCommitmentConfirm s)"
  unfolding UnmarshalDataCommitmentConfirm_def
  by (intro ok_or_json_obind parse_json decode_struct_json) (simp add: dcc_field_def)

lemma GetValsetConfirm_run:
  "GetValsetConfirm E k h = (obind (dht_get E k h) UnmarshalValsetConfirm, Dht (GetValue k (dht_get E k h)) # h)"
  by (cases "dht_get E k h") (simp_all add: GetValsetConfirm_def andThen_def)

lemma GetDataCommitmentConfirm_run:
  "GetDataCommitmentConfirm E k h =
     (obind (dht_get E k h) UnmarshalDataCommitmentConfirm, Dht (GetValue k (dht_get E k h)) # h)"
  by (cases "dht_get E k h") (simp_all add: GetDataCommitmentConfirm_def andThen_def)

interpretation vc_lookup: confirm_lookup E
    "\<lambda>m. GetValsetConfirm E (GetValsetConfirmKey nonce (EvmAddress m) digest)"
    "\<lambda>m. GetValsetConfirmKey nonce (EvmAddress m) digest" UnmarshalValsetConfirm for E nonce digest
  by unfold_locales
    (use ok_or_json_D [OF vc_unmarshal_json] in \<open>force simp: GetValsetConfirm_run\<close>)+

interpretation dcc_lookup: confirm_lookup E
    "\<lambda>m. GetDataCommitmentConfirm E (GetDataCommitmentConfirmKey nonce (EvmAddress m) digest)"
    "\<lambda>m. GetDataCommitmentConfirmKey nonce (EvmAddress m) digest" UnmarshalDataCommitmentConfirm for E nonce digest
  by unfold_locales
    (use ok_or_json_D [OF dcc_unmarshal_json] in \<open>force simp: GetDataCommitmentConfirm_run\<close>)+

section \<open>Polling\<close>

lemma pollConfirms_Ok:
  "pollConfirms E te qf k h = (Ok cs, h') \<Longrightarrow> \<exists>h0. qf h0 = (Ok cs, h') \<and> cs \<noteq> []"
proof (induction k arbitrary: h)
  case (Suc k)
  then show ?case
    by (auto simp: andThen_eq_Ok split: wake.splits if_splits)
qed simp

lemma queryTwoThirds_Ok:
  "queryTwoThirds E te qf k h = (Ok cs, h') \<Longrightarrow> \<exists>h0. qf h0 = (Ok cs, h') \<and> cs \<noteq> []"
  by (auto simp: queryTwoThirds_def andThen_eq_Ok split: if_splits dest: pollConfirms_Ok)

lemma queryFunc_Ok:
  "queryFunc L vs addr query h = (Ok cs, h') \<Longrightarrow> cs \<noteq> [] \<Longrightarrow>
   query h = (Ok cs, h') \<and> TwoThirdsThreshold L vs \<le> signed_power (vals vs) 0 (map addr cs)"
  by (auto simp: queryFunc_def andThen_eq_Ok split: if_splits)

lemma pollConfirms_returns:
  assumes "\<And>h. N \<le> length h \<Longrightarrow> wake_up E h \<noteq> WTick" and "\<And>h. fst (qf h) \<noteq> Blocked"
    and "\<And>h. length h \<le> length (snd (qf h))"
  shows "N + 1 \<le> length h + k \<Longrightarrow> 0 < k \<Longrightarrow> fst (pollConfirms E te qf k h) \<noteq> Blocked"
proof (induction k arbitrary: h)
  case (Suc k)
  show ?case
  proof (cases "wake_up E h")
    case WTick
    let ?h = "Local (Wake WTick) # h"
    obtain r h1 where q: "qf ?h = (r, h1)" by fastforce
    have "Suc (length h) \<le> length h1" using assms(3) [of ?h] q by simp
    moreover have "0 < k" using Suc.prems assms(1) [of h] WTick by (cases k) auto
    ultimately have "fst (pollConfirms E te qf k h1) \<noteq> Blocked" using Suc by (intro Suc.IH) auto
    moreover have "r \<noteq> Blocked" using assms(2) [of ?h] q by simp
    ultimately show ?thesis using WTick q by (cases r) (simp_all add: andThen_Ok andThen_Err andThen_Panic)
  qed simp_all
qed simp

section \<open>A small network\<close>

text \<open>One member, whose confirms the DHT has; for witnesses.\<close>

definition one_member :: valset where
  "one_member = \<lparr>Nonce = 4, Members = [\<lparr>Power = 100, EvmAddress = ''0xaa''\<rparr>], Height = 9, Time = 0\<rparr>"

definition one_vc :: ValsetConfirm where
  "one_vc = \<lparr>VcEthAddress = ''0xaa'', VcSignature = ''01''\<rparr>"

definition one_dcc :: DataCommitmentConfirm where
  "one_dcc = \<lparr>DccSignature = ''01'', DccEthAddress = ''0xaa''\<rparr>"

definition one_env :: env where
  "one_env = ref_env\<lparr>dht_get := (\<lambda>k h.
     if k = GetValsetConfirmKey 5 ''0xaa'' ''0x00'' then Ok (print (vc_json one_vc))
     else if k = GetDataCommitmentConfirmKey 5 ''0xaa'' ''0x00'' then Ok (print (dcc_json one_dcc))
     else Err RoutingNotFound)\<rparr>"

lemma one_unmarshal:
  "UnmarshalValsetConfirm (print (vc_json one_vc)) = Ok one_vc"
  "UnmarshalDataCommitmentConfirm (print (dcc_json one_dcc)) = Ok one_dcc"
  using Unmarshal_Marshal_vc [of one_vc] Unmarshal_Marshal_dcc [of one_dcc]
  by (simp_all add: MarshalValsetConfirm_def MarshalDataCommitmentConfirm_def vc_utf8_def dcc_utf8_def
      one_vc_def one_dcc_def valid_utf8_ascii)

lemma one_get:
  "dht_get one_env (GetValsetConfirmKey 5 ''0xaa'' ''0x00'') h = Ok (print (vc_json one_vc))"
  "dht_get one_env (GetDataCommitmentConfirmKey 5 ''0xaa'' ''0x00'') h = Ok (print (dcc_json one_dcc))"
  by (simp_all add: one_env_def GetValsetConfirmKey_def GetDataCommitmentConfirmKey_def
      ValsetConfirmNamespace_def DataCommitmentConfirmNamespace_def)

lemma one_power: "TwoThirdsThreshold ref_lib one_member \<le> signed_power (vals one_member) 0 [''0xaa'']"
  by (simp add: ref_lib_def one_member_def total_power_def vals_def)

lemma one_query_vc: "\<exists>h'. QueryTwoThirdsValsetConfirms ref_lib one_env 1 5 one_member ''0x00'' [] = (Ok [one_vc], h')"
proof -
  have "QueryValsetConfirms one_env 5 one_member ''0x00'' [] =
      (Ok [one_vc], [Dht (GetValue (GetValsetConfirmKey 5 ''0xaa'' ''0x00'') (Ok (print (vc_json one_vc))))])"
    by (simp add: QueryValsetConfirms_def one_member_def handle_def GetValsetConfirm_run one_get one_unmarshal)
  then show ?thesis using one_power
    by (simp add: QueryTwoThirdsValsetConfirms_def queryTwoThirds_def queryFunc_def andThen_def one_vc_def)
qed

lemma one_query_dcc:
  "\<exists>h'. QueryTwoThirdsDataCommitmentConfirms ref_lib one_env 1 one_member 5 ''0x00'' [] = (Ok [one_dcc], h')"
proof -
  have "QueryDataCommitmentConfirms one_env one_member 5 ''0x00'' [] =
      (Ok [one_dcc], [Dht (GetValue (GetDataCommitmentConfirmKey 5 ''0xaa'' ''0x00'') (Ok (print (dcc_json one_dcc))))])"
    by (simp add: QueryDataCommitmentConfirms_def one_member_def handle_def GetDataCommitmentConfirm_run one_get one_unmarshal)
  then show ?thesis using one_power
    by (simp add: QueryTwoThirdsDataCommitmentConfirms_def queryTwoThirds_def queryFunc_def andThen_def one_dcc_def)
qed

section \<open>Properties\<close>

text \<open>
  C7: When the valset poller returns, it returns a non-empty list of confirms whose signers, counted
  as the code counts them, hold at least the threshold of the previous validator set, and the
  list is what the DHT answered in that very round for each of its members, in the order of the
  members: decoded records of the members that had one, no others, none dropped.
\<close>

theorem QueryTwoThirdsValsetConfirms_enough:
  assumes "QueryTwoThirdsValsetConfirms L E rounds nonce vs signBytes h = (Ok cs, h')"
  shows "cs \<noteq> [] \<and> TwoThirdsThreshold L vs \<le> signed_power (vals vs) 0 (map VcEthAddress cs) \<and>
    (\<exists>t h0 found. h' = t @ h0 \<and> cs = somes found \<and>
       list_all2 (lookup_answer t (\<lambda>m. GetValsetConfirmKey nonce (EvmAddress m) signBytes) UnmarshalValsetConfirm)
         (Members vs) found)"
proof -
  from assms obtain h0 where "cs \<noteq> []"
    and q: "queryFunc L vs VcEthAddress (QueryValsetConfirms E nonce vs signBytes) h0 = (Ok cs, h')"
    unfolding QueryTwoThirdsValsetConfirms_def by (blast dest: queryTwoThirds_Ok)
  from queryFunc_Ok [OF q this(1)] \<open>cs \<noteq> []\<close> show ?thesis
    unfolding QueryValsetConfirms_def by (auto dest!: vc_lookup.collect_answers)
qed

theorem QueryTwoThirdsValsetConfirms_enough_witness:
  "TwoThirdsThreshold ref_lib one_member \<le> signed_power (vals one_member) 0 (map VcEthAddress [one_vc])"
proof -
  obtain h' where "QueryTwoThirdsValsetConfirms ref_lib one_env 1 5 one_member ''0x00'' [] = (Ok [one_vc], h')"
    using one_query_vc by blast
  from QueryTwoThirdsValsetConfirms_enough [OF this] show ?thesis by blast
qed

text \<open>
  C8: The same holds of the data commitment poller, for the keys of the data root tuple root.
\<close>

theorem QueryTwoThirdsDataCommitmentConfirms_enough:
  assumes "QueryTwoThirdsDataCommitmentConfirms L E rounds vs nonce root h = (Ok cs, h')"
  shows "cs \<noteq> [] \<and> TwoThirdsThreshold L vs \<le> signed_power (vals vs) 0 (map DccEthAddress cs) \<and>
    (\<exists>t h0 found. h' = t @ h0 \<and> cs = somes found \<and>
       list_all2 (lookup_answer t (\<lambda>m. GetDataCommitmentConfirmKey nonce (EvmAddress m) root) UnmarshalDataCommitmentConfirm)
         (Members vs) found)"
proof -
  from assms obtain h0 where "cs \<noteq> []"
    and q: "queryFunc L vs DccEthAddress (QueryDataCommitmentConfirms E vs nonce root) h0 = (Ok cs, h')"
    unfolding QueryTwoThirdsDataCommitmentConfirms_def by (blast dest: queryTwoThirds_Ok)
  from queryFunc_Ok [OF q this(1)] \<open>cs \<noteq> []\<close> show ?thesis
    unfolding QueryDataCommitmentConfirms_def by (auto dest!: dcc_lookup.collect_answers)
qed

theorem QueryTwoThirdsDataCommitmentConfirms_enough_witness:
  "TwoThirdsThreshold ref_lib one_member \<le> signed_power (vals one_member) 0 (map DccEthAddress [one_dcc])"
proof -
  obtain h' where "QueryTwoThirdsDataCommitmentConfirms ref_lib one_env 1 one_member 5 ''0x00'' [] = (Ok [one_dcc], h')"
    using one_query_dcc by blast
  from QueryTwoThirdsDataCommitmentConfirms_enough [OF this] show ?thesis by blast
qed

text \<open>
  C29: Waiting for confirms ends: if the DHT answers every call and the timer or the context fires
  after at most \<open>N\<close> calls, the poller returns within \<open>N + 1\<close> rounds, whatever the DHT answers.
\<close>

theorem QueryTwoThirdsValsetConfirms_returns:
  assumes "\<And>h. N \<le> length h \<Longrightarrow> wake_up E h \<noteq> WTick" and "\<And>k h. dht_get E k h \<noteq> Blocked"
  shows "fst (QueryTwoThirdsValsetConfirms L E (Suc N) nonce vs signBytes h) \<noteq> Blocked"
proof -
  let ?q = "queryFunc L vs VcEthAddress (QueryValsetConfirms E nonce vs signBytes)"
  let ?c = "QueryValsetConfirms E nonce vs signBytes"
  have c: "fst (?c h) \<noteq> Blocked" "length h \<le> length (snd (?c h))" for h
    using vc_lookup.collect_returns [of E, OF assms(2)] vc_lookup.collect_emits [of E nonce signBytes "Members vs" "[]" h]
    unfolding QueryValsetConfirms_def by auto
  have q: "fst (?q h) \<noteq> Blocked" "length h \<le> length (snd (?q h))" for h
    using c [of h] by (cases "?c h"; cases "fst (?c h)"; simp add: queryFunc_def andThen_def)+
  obtain r h1 where r: "?q h = (r, h1)" by fastforce
  have "fst (pollConfirms E te ?q (Suc N) h1) \<noteq> Blocked" for te
    by (rule pollConfirms_returns [of N]) (use assms(1) q in auto)
  moreover have "r \<noteq> Blocked" using q(1) [of h] r by simp
  ultimately show ?thesis using r
    by (cases r) (auto simp: QueryTwoThirdsValsetConfirms_def queryTwoThirds_def andThen_Ok andThen_Err andThen_Panic)
qed

theorem QueryTwoThirdsValsetConfirms_returns_witness:
  "fst (QueryTwoThirdsValsetConfirms ref_lib ref_env (Suc 0) 5 sample_valset ''0x00'' []) \<noteq> Blocked"
  by (rule QueryTwoThirdsValsetConfirms_returns) (simp_all add: ref_env_def)

text \<open>
  The pollers never return an empty list without an error, although their comments say so: when
  the time is up before two thirds have signed, they return the error of missing confirms.
\<close>

theorem QueryTwoThirds_timeout:
  assumes "queryFunc L vs VcEthAddress (QueryValsetConfirms E nonce vs signBytes) h = (Ok [], h1)"
    and "wake_up E h1 = WTimeout"
  shows "QueryTwoThirdsValsetConfirms L E (Suc rounds) nonce vs signBytes h =
     (Err (Wrap ErrNotEnoughValsetConfirms ''failure to query for majority validator set confirms: timout''),
      Local (Wake WTimeout) # h1)"
  using assms by (simp add: QueryTwoThirdsValsetConfirms_def queryTwoThirds_def andThen_Ok)

theorem QueryTwoThirds_timeout_witness:
  "QueryTwoThirdsValsetConfirms ref_lib ref_env (Suc 0) 5 (sample_valset\<lparr>Members := []\<rparr>) ''0x00'' [] =
     (Err (Wrap ErrNotEnoughValsetConfirms ''failure to query for majority validator set confirms: timout''),
      [Local (Wake WTimeout)])"
  by (rule QueryTwoThirds_timeout)
    (simp_all add: queryFunc_def QueryValsetConfirms_def ref_env_def)

text \<open>
  The validators compare addresses without regard to case but the poller counts power under the
  exact text: a record that is accepted under a member's key stays accepted when the address in
  it is written in another case, which needs no key, and then counts for nothing.
\<close>

theorem recased_confirm_not_counted:
  assumes "ValsetConfirm_Validate L key (print (vc_json vc)) = Ok ()"
    and "vc_utf8 vc" and "valid_utf8 c" and "EqualFold c (VcEthAddress vc)" and "vals vs c = None"
  shows "ValsetConfirm_Validate L key (print (vc_json (vc\<lparr>VcEthAddress := c\<rparr>))) = Ok () \<and>
    signed_power (vals vs) 0 (map VcEthAddress [vc\<lparr>VcEthAddress := c\<rparr>]) = 0"
proof -
  have "UnmarshalValsetConfirm (print (vc_json vc)) = Ok vc"
    "UnmarshalValsetConfirm (print (vc_json (vc\<lparr>VcEthAddress := c\<rparr>))) = Ok (vc\<lparr>VcEthAddress := c\<rparr>)"
    using Unmarshal_Marshal_vc [of vc] Unmarshal_Marshal_vc [of "vc\<lparr>VcEthAddress := c\<rparr>"] assms(2,3)
    by (simp_all add: MarshalValsetConfirm_def vc_utf8_def)
  then show ?thesis using assms(1,4,5)
    unfolding ValsetConfirm_Validate_Ok by (auto intro: EqualFold_trans)
qed

definition upper_addr :: string where
  "upper_addr = ''0x'' @ replicate 40 (CHR ''A'')"

definition lower_addr :: string where
  "lower_addr = ''0x'' @ replicate 40 (CHR ''a'')"

definition upper_vc :: ValsetConfirm where
  "upper_vc = \<lparr>VcEthAddress = upper_addr,
     VcSignature = hex_EncodeToString (replicate 20 0xAA @ replicate 32 5 @ replicate 13 0)\<rparr>"

lemma strip_0x_hex [simp]:
  "strip_0x (hex_EncodeToString bs) = hex_EncodeToString bs"
  using take_2_hex [of bs] by (simp add: strip_0x_def)

lemma strip_0x_prefix: "bs \<noteq> [] \<Longrightarrow> strip_0x (''0x'' @ hex_EncodeToString bs) = hex_EncodeToString bs"
  by (simp add: strip_0x_def)

lemma protectedHash_ref: "length d = 32 \<Longrightarrow> protectedHash ref_lib d = d"
  by (simp add: protectedHash_def ref_lib_def left_pad_def signaturePrefix_def string_bytes_def)

text \<open>In the reference instance, the address, the digest and a recovery byte sign the digest.\<close>

lemma ref_signed_by:
  assumes "length a = 20" "length d = 32" "length z = 13"
  shows "signed_by ref_lib (''0x'' @ hex_EncodeToString d) (hex_EncodeToString (a @ d @ z)) a"
proof -
  have "d \<noteq> []" using assms by auto
  then have s: "strip_0x (''0x'' @ hex_EncodeToString d) = hex_EncodeToString d" by (rule strip_0x_prefix)
  have "EthAddressFromSignature ref_lib d (a @ d @ z) = Ok a"
    unfolding EthAddressFromSignature_Ok protectedHash_ref [OF assms(2)] using assms by (simp add: ref_lib_def)
  then show ?thesis
    unfolding signed_by_iff s strip_0x_hex hex_roundtrip ValidateEthereumSignature_Ok by auto
qed

lemma decode_upper: "hex_DecodeString (replicate (2 * n) (CHR ''A'')) = Ok (replicate n 0xAA)"
  by (induction n) (simp_all add: hex_val_def digit_val_def)

lemma ref_HexToAddress_upper: "HexToAddress ref_lib upper_addr = replicate 20 0xAA"
proof -
  have "strip0x upper_addr = replicate (2 * 20) (CHR ''A'')" by (simp add: strip0x_def upper_addr_def)
  then have "from_hex upper_addr = replicate 20 0xAA"
    using decode_upper [of 20] by (simp add: from_hex_def)
  then show ?thesis by (simp add: ref_lib_def left_pad_def)
qed

lemma char_a: "char_of (97 :: nat) = CHR ''a''"
  by code_simp

lemma upper_lower: "EqualFold lower_addr upper_addr" "lower_addr \<noteq> upper_addr"
  "IsHexAddress ref_lib upper_addr" "key_part upper_addr"
  by (simp_all add: EqualFold_def ToLower_def lower_addr_def upper_addr_def lower_char_def ref_lib_def
      strip0x_def list_all_iff hex_val_def digit_val_def key_part_def char_a)

lemma upper_utf8: "valid_utf8 lower_addr" "valid_utf8 upper_addr"
  by (rule valid_utf8_ascii; simp add: lower_addr_def upper_addr_def list_all_iff)+

lemma hex_ascii: "valid_utf8 (hex_EncodeToString bs)"
proof (rule valid_utf8_ascii, unfold list_all_iff, rule ballI)
  fix c assume "c \<in> set (hex_EncodeToString bs)"
  then show "cn c < 128" using set_hex_EncodeToString [of c bs] digit_char_ascii by fastforce
qed

lemma hex_key_part: "bs \<noteq> [] \<Longrightarrow> key_part (''0x'' @ hex_EncodeToString bs)"
  using hex_EncodeToString_fresh [of "CHR ''/''" bs] hex_EncodeToString_fresh [of "CHR '':''" bs]
  by (simp add: key_part_def digit_val_def)

lemma upper_vc_utf8: "vc_utf8 upper_vc"
  by (simp add: vc_utf8_def upper_vc_def upper_utf8 hex_ascii)

abbreviation upper_key :: "bytes \<Rightarrow> string" where
  "upper_key digest \<equiv> GetValsetConfirmKey 5 upper_addr (''0x'' @ hex_EncodeToString digest)"

lemma upper_vc_valid: "ValsetConfirm_Validate ref_lib (upper_key (replicate 32 5)) (print (vc_json upper_vc)) = Ok ()"
proof -
  have "signed_by ref_lib (''0x'' @ hex_EncodeToString (replicate 32 5)) (VcSignature upper_vc) (HexToAddress ref_lib upper_addr)"
    using ref_signed_by [of "replicate 20 0xAA" "replicate 32 5" "replicate 13 0"]
    by (simp add: upper_vc_def ref_HexToAddress_upper)
  then show ?thesis
    by (intro built_vc_valid upper_vc_utf8 upper_lower hex_key_part) (simp_all add: upper_vc_def)
qed

lemma upper_vc_other_digest:
  "ValsetConfirm_Validate ref_lib (upper_key (replicate 32 6)) (print (vc_json upper_vc)) \<noteq> Ok ()"
proof
  let ?d = "''0x'' @ hex_EncodeToString (replicate 32 6)"
  assume "ValsetConfirm_Validate ref_lib (upper_key (replicate 32 6)) (print (vc_json upper_vc)) = Ok ()"
  then obtain n a d vc where p: "ParseKey (upper_key (replicate 32 6)) = Ok (ValsetConfirmNamespace, n, a, d)"
    and u: "UnmarshalValsetConfirm (print (vc_json upper_vc)) = Ok vc"
    and s: "signed_by ref_lib d (VcSignature vc) (HexToAddress ref_lib a)"
    unfolding ValsetConfirm_Validate_Ok by blast
  have "key_part ?d" by (rule hex_key_part) simp
  then have d: "d = ?d" using p vc_key.parse_make [OF upper_lower(4), of ?d 5] by simp
  have vc: "vc = upper_vc"
    using u Unmarshal_Marshal_vc [OF upper_vc_utf8] by (simp add: MarshalValsetConfirm_def)
  have "strip_0x ?d = hex_EncodeToString (replicate 32 6)" by (rule strip_0x_prefix) simp
  then show False
    using s unfolding d vc signed_by_iff upper_vc_def ValidateEthereumSignature_Ok EthAddressFromSignature_Ok
    by (simp add: strip_0x_hex hex_roundtrip protectedHash_ref del: replicate.simps) (simp add: ref_lib_def)
qed

theorem confirm_validators_authenticate_witness:
  "authentic ref_lib ''vc'' UnmarshalValsetConfirm VcEthAddress VcSignature (upper_key (replicate 32 5)) (print (vc_json upper_vc)) \<and>
   \<not> authentic ref_lib ''vc'' UnmarshalValsetConfirm VcEthAddress VcSignature (upper_key (replicate 32 6)) (print (vc_json upper_vc))"
proof -
  have "inj (AddressHex ref_lib)" by (simp add: inj_def ref_lib_def hex_inject)
  from confirm_validators_authenticate [OF this] show ?thesis
    using upper_vc_valid upper_vc_other_digest by blast
qed

theorem recased_confirm_not_counted_witness:
  "ValsetConfirm_Validate ref_lib (GetValsetConfirmKey 5 upper_addr (''0x'' @ hex_EncodeToString (replicate 32 5)))
     (print (vc_json (upper_vc\<lparr>VcEthAddress := lower_addr\<rparr>))) = Ok () \<and>
   signed_power (vals (one_member\<lparr>Members := [\<lparr>Power = 100, EvmAddress = upper_addr\<rparr>]\<rparr>)) 0 [upper_addr] = 100 \<and>
   signed_power (vals (one_member\<lparr>Members := [\<lparr>Power = 100, EvmAddress = upper_addr\<rparr>]\<rparr>)) 0 [lower_addr] = 0"
proof -
  let ?vs = "one_member\<lparr>Members := [\<lparr>Power = 100, EvmAddress = upper_addr\<rparr>]\<rparr>"
  let ?key = "GetValsetConfirmKey 5 upper_addr (''0x'' @ hex_EncodeToString (replicate 32 5))"
  have n: "vals ?vs lower_addr = None" using upper_lower(2) by (simp add: vals_def)
  have p: "signed_power (vals ?vs) 0 [upper_addr] = 100" by (simp add: vals_def)
  show ?thesis
    using recased_confirm_not_counted [OF upper_vc_valid upper_vc_utf8 upper_utf8(1) _ n] upper_lower(1) p by (simp add: upper_vc_def)
qed

end
