(* ===== verification/Helpers.thy ===== *)
theory Helpers imports Reference begin

text \<open>
  The package \<open>helpers\<close>: retrying a method with exponential delays, a ticker that also ticks at its
  start, and parsing the addresses of bootstrappers.
\<close>

section \<open>helpers/retrier.go\<close>

text \<open>A \<open>time.Duration\<close> is a signed 64-bit number of nanoseconds.\<close>

record retrier =
  retriesNumber :: int
  baseDelay :: u64

definition DefaultRetrierDelay :: u64 where
  "DefaultRetrierDelay = 10 * 1000000000"

definition NewRetrier :: "int \<Rightarrow> u64 \<Rightarrow> retrier" where
  "NewRetrier n d = \<lparr>retriesNumber = n, baseDelay = d\<rparr>"

text \<open>\<open>1 << retryCount * r.baseDelay\<close> is \<open>(1 << retryCount) * r.baseDelay\<close>, in 64 bits.\<close>

definition NextTick :: "retrier \<Rightarrow> nat \<Rightarrow> u64" where
  "NextTick r retryCount = push_bit retryCount 1 * baseDelay r"

text \<open>What \<open><-ctx.Done()\<close> would give, and a timer that has fired after the given delay.\<close>

definition ctxErr :: "env \<Rightarrow> go_error option prog" where
  "ctxErr E = observe (ctx_err E) (\<lambda>e. Local (CtxErr e))"

definition timer :: "u64 \<Rightarrow> unit prog" where
  "timer d = andThen (observe (\<lambda>_. sint d) (\<lambda>n. Local (TimerFired n))) (\<lambda>_. ret ())"

text \<open>The loop of \<open>Retry\<close>: rounds left, the round number and the error of the last attempt.\<close>

fun retry_loop :: "env \<Rightarrow> retrier \<Rightarrow> unit prog \<Rightarrow> nat \<Rightarrow> nat \<Rightarrow> go_error option \<Rightarrow> unit prog" where
  "retry_loop E r retryMethod 0 i err = (case err of None \<Rightarrow> ret () | Some e \<Rightarrow> throw e)"
| "retry_loop E r retryMethod (Suc left) i err =
     andThen (ctxErr E) (\<lambda>c. case c of
         Some e \<Rightarrow> throw e
       | None \<Rightarrow>
           andThen (timer (NextTick r i)) (\<lambda>_.
           handle retryMethod
             (\<lambda>_. ret ())
             (\<lambda>e. retry_loop E r retryMethod left (Suc i) (Some e))))"

definition Retry :: "env \<Rightarrow> retrier \<Rightarrow> unit prog \<Rightarrow> unit prog" where
  "Retry E r retryMethod = retry_loop E r retryMethod (nat (retriesNumber r)) 0 None"

definition RetryThenFail :: "env \<Rightarrow> retrier \<Rightarrow> unit prog \<Rightarrow> unit prog" where
  "RetryThenFail E r retryMethod = handle (Retry E r retryMethod) ret (\<lambda>e. panic ''retry failed'')"

section \<open>helpers/ticker.go\<close>

fun ticker_loop :: "env \<Rightarrow> u64 \<Rightarrow> unit prog \<Rightarrow> nat \<Rightarrow> unit prog" where
  "ticker_loop E duration f 0 = lift Blocked"
| "ticker_loop E duration f (Suc rounds) =
     andThen (ctxErr E) (\<lambda>c. case c of
         Some e \<Rightarrow> throw e
       | None \<Rightarrow>
           andThen (timer duration) (\<lambda>_.
           andThen f (\<lambda>_. ticker_loop E duration f rounds)))"

definition ImmediateTicker :: "env \<Rightarrow> nat \<Rightarrow> u64 \<Rightarrow> unit prog \<Rightarrow> unit prog" where
  "ImmediateTicker E rounds duration f = andThen f (\<lambda>_. ticker_loop E duration f rounds)"

section \<open>helpers/parse.go\<close>

text \<open>\<open>addrInfoFromString\<close> is libp2p's parser of one multiaddress.\<close>

fun ParseAddrInfos :: "(string \<Rightarrow> 'p outcome) \<Rightarrow> string list \<Rightarrow> 'p list outcome" where
  "ParseAddrInfos addrInfoFromString [] = Ok []"
| "ParseAddrInfos addrInfoFromString (addr # addrs) =
     obind (addrInfoFromString addr) (\<lambda>info.
     obind (ParseAddrInfos addrInfoFromString addrs) (\<lambda>infos. Ok (info # infos)))"

section \<open>Lemmas\<close>

lemma ctxErr_apply [simp]: "ctxErr E h = (Ok (ctx_err E h), Local (CtxErr (ctx_err E h)) # h)"
  by (simp add: ctxErr_def)

lemma timer_apply [simp]: "timer d h = (Ok (), Local (TimerFired (sint d)) # h)"
  by (simp add: timer_def)

lemma ctxErr_run [simp]: "andThen (ctxErr E) f h = f (ctx_err E h) (Local (CtxErr (ctx_err E h)) # h)"
  by (simp add: ctxErr_def)

lemma timer_run [simp]: "andThen (timer d) f h = f () (Local (TimerFired (sint d)) # h)"
  by (simp add: timer_def andThen_def)

lemma emits_ctxErr [emits_intros]: "(\<And>e. P (Local (CtxErr e))) \<Longrightarrow> emits P (ctxErr E)"
  unfolding ctxErr_def by (intro emits_intros)

lemma emits_timer [emits_intros]: "(\<And>d. P (Local (TimerFired d))) \<Longrightarrow> emits P (timer d)"
  unfolding timer_def by (intro emits_intros)

lemma emits_retry_loop [emits_intros]:
  assumes "emits P m" "\<And>e. P (Local (CtxErr e))" "\<And>d. P (Local (TimerFired d))"
  shows "emits P (retry_loop E r m k i err)"
  by (induction k arbitrary: i err) (auto intro!: emits_intros assms split: option.splits)

lemma emits_Retry [emits_intros]:
  "emits P m \<Longrightarrow> (\<And>e. P (Local (CtxErr e))) \<Longrightarrow> (\<And>d. P (Local (TimerFired d))) \<Longrightarrow> emits P (Retry E r m)"
  unfolding Retry_def by (rule emits_retry_loop)

lemma emits_ticker_loop [emits_intros]:
  assumes "emits P m" "\<And>e. P (Local (CtxErr e))" "\<And>d. P (Local (TimerFired d))"
  shows "emits P (ticker_loop E d m k)"
  by (induction k) (simp_all only: ticker_loop.simps, (intro emits_intros assms | assumption)+)

text \<open>The delays that timers were set to, oldest first.\<close>

fun delays :: "history \<Rightarrow> int list" where
  "delays [] = []"
| "delays (Local (TimerFired d) # h) = delays h @ [d]"
| "delays (e # h) = delays h"

lemma delays_append: "delays (t @ h) = delays h @ delays t"
  by (induction t rule: delays.induct) auto

text \<open>\<open>quiet m\<close>: the method sets no timers itself.\<close>

definition quiet :: "unit prog \<Rightarrow> bool" where
  "quiet m \<longleftrightarrow> (\<forall>h. delays (snd (m h)) = delays h)"

lemma retry_loop_delays:
  "quiet m \<Longrightarrow> retry_loop E r m k i err h = (res, h') \<Longrightarrow>
   \<exists>n \<le> k. delays h' = delays h @ map (\<lambda>j. sint (NextTick r j)) [i ..< i + n]"
proof (induction k arbitrary: i err h)
  case 0
  then show ?case by (auto split: option.splits)
next
  case (Suc k)
  show ?case
  proof (cases "ctx_err E h")
    case (Some e)
    then show ?thesis using Suc.prems by (intro exI [of _ 0]) auto
  next
    case None
    let ?h1 = "Local (TimerFired (sint (NextTick r i))) # Local (CtxErr None) # h"
    obtain r1 h2 where m: "m ?h1 = (r1, h2)" by fastforce
    have "delays (snd (m ?h1)) = delays ?h1" using Suc.prems(1) unfolding quiet_def by blast
    with m have d: "delays h2 = delays h @ [sint (NextTick r i)]" by simp
    show ?thesis
    proof (cases r1)
      case (Err e)
      with Suc.prems m None have "retry_loop E r m k (Suc i) (Some e) h2 = (res, h')"
        by (simp add: handle_Err)
      from Suc.IH [OF Suc.prems(1) this] obtain n where n: "n \<le> k"
        "delays h' = delays h2 @ map (\<lambda>j. sint (NextTick r j)) [Suc i ..< Suc i + n]" by blast
      then show ?thesis using d by (intro exI [of _ "Suc n"]) (auto simp: upt_conv_Cons simp del: upt_Suc)
    qed (use Suc.prems m None d in \<open>auto simp: handle_def intro!: exI [of _ 1]\<close>)
  qed
qed

lemma retry_loop_last:
  "retry_loop E r m k i err h = (res, h') \<Longrightarrow> 0 < k \<Longrightarrow>
   (\<exists>e t. res = Err e \<and> h' = Local (CtxErr (Some e)) # t) \<or> (\<exists>h0. m h0 = (res, h'))"
proof (induction k arbitrary: i err h)
  case (Suc k)
  show ?case
  proof (cases "ctx_err E h")
    case None
    let ?h1 = "Local (TimerFired (sint (NextTick r i))) # Local (CtxErr None) # h"
    obtain r1 h2 where m: "m ?h1 = (r1, h2)" by fastforce
    show ?thesis
    proof (cases r1)
      case (Err e)
      with Suc.prems m None have l: "retry_loop E r m k (Suc i) (Some e) h2 = (res, h')"
        by (simp add: handle_Err)
      show ?thesis
      proof (cases k)
        case 0
        then show ?thesis using l Err m by auto
      qed (use Suc.IH [OF l] in simp)
    qed (use Suc.prems m None in \<open>auto simp: handle_def\<close>)
  qed (use Suc.prems in auto)
qed simp

lemma NextTick_small:
  assumes "unat (baseDelay r) * 2 ^ n < 2 ^ 63"
  shows "sint (NextTick r n) = int (unat (baseDelay r) * 2 ^ n)"
proof -
  have "NextTick r n = of_nat (unat (baseDelay r) * 2 ^ n)"
    by (simp add: NextTick_def push_bit_eq_mult mult.commute)
  then have "unat (NextTick r n) = (unat (baseDelay r) * 2 ^ n) mod 2 ^ 64"
    by (simp only: unat_of_nat) simp
  also have "\<dots> = unat (baseDelay r) * 2 ^ n"
    using assms by (intro mod_less) simp
  finally have "unat (NextTick r n) = unat (baseDelay r) * 2 ^ n" .
  with assms int64_small [of "NextTick r n"] show ?thesis by (simp add: int64_def)
qed

lemma ticker_loop_never_ok: "fst (ticker_loop E d f k h) \<noteq> Ok ()"
proof (induction k arbitrary: h)
  case (Suc k)
  show ?case
  proof (cases "ctx_err E h")
    case None
    obtain r1 h2 where m: "f (Local (TimerFired (sint d)) # Local (CtxErr None) # h) = (r1, h2)" by fastforce
    then show ?thesis using Suc [of h2] None
      by (cases r1) (simp_all add: andThen_Ok andThen_Err andThen_Panic andThen_Blocked)
  qed simp
qed simp

section \<open>Properties\<close>

text \<open>
  \<open>Retry\<close> waits before each attempt, for delays that are the first of the sequence
  \<open>NextTick 0, NextTick 1, ...\<close> and at most \<open>retriesNumber\<close> of them; it ends with the context's error
  or with the result of its last attempt, so that it succeeds only if an attempt did. As long as
  the product fits in 63 bits, each delay is the base delay times a power of two.
\<close>

theorem Retry_attempts:
  assumes "quiet m" and "0 < retriesNumber r" and "Retry E r m h = (res, h')"
  shows "(\<exists>n \<le> nat (retriesNumber r). delays h' = delays h @ map (\<lambda>j. sint (NextTick r j)) [0 ..< n]) \<and>
    ((\<exists>e t. res = Err e \<and> h' = Local (CtxErr (Some e)) # t) \<or> (\<exists>h0. m h0 = (res, h'))) \<and>
    (\<forall>n. unat (baseDelay r) * 2 ^ n < 2 ^ 63 \<longrightarrow> sint (NextTick r n) = int (unat (baseDelay r) * 2 ^ n))"
  using assms retry_loop_delays [of m E r "nat (retriesNumber r)" 0 None h res h']
    retry_loop_last [of E r m "nat (retriesNumber r)" 0 None h res h'] NextTick_small [of r]
  by (simp add: Retry_def)

theorem Retry_attempts_witness:
  "\<exists>n \<le> 2. delays (snd (Retry ref_env \<lparr>retriesNumber = 2, baseDelay = 10\<rparr> (throw (Ext ''x'')) [])) =
     delays [] @ map (\<lambda>j. sint (NextTick \<lparr>retriesNumber = 2, baseDelay = 10\<rparr> j)) [0 ..< n]"
proof -
  let ?r = "\<lparr>retriesNumber = 2, baseDelay = 10\<rparr>"
  have "quiet (throw (Ext ''x''))" by (simp add: quiet_def)
  from Retry_attempts [OF this, of ?r ref_env "[]"] show ?thesis
    by (cases "Retry ref_env ?r (throw (Ext ''x'')) []") (simp add: numeral_2_eq_2)
qed

text \<open>
  The exponential delay wraps around: from the 30th attempt on with the default base delay of 10
  seconds the product leaves the range of a duration; the 30th delay is negative, which fires
  the timer at once, and from the 64th on the shift gives zero.
\<close>

theorem NextTick_wraps:
  "sint (NextTick \<lparr>retriesNumber = n, baseDelay = DefaultRetrierDelay\<rparr> 29) = 10000000000 * 2 ^ 29 \<and>
   sint (NextTick \<lparr>retriesNumber = n, baseDelay = DefaultRetrierDelay\<rparr> 30) < 0 \<and>
   NextTick \<lparr>retriesNumber = n, baseDelay = DefaultRetrierDelay\<rparr> 64 = 0"
  by (simp add: NextTick_def DefaultRetrierDelay_def push_bit_eq_mult)

text \<open>
  \<open>ImmediateTicker\<close> runs its method once before it waits, stops with the method's error as soon as
  it has one, and never returns nil: it returns only an error, of the method or of the context.
\<close>

theorem ImmediateTicker_never_nil:
  "fst (ImmediateTicker E rounds d f h) \<noteq> Ok () \<and>
   (\<forall>e h1. f h = (Err e, h1) \<longrightarrow> ImmediateTicker E rounds d f h = (Err e, h1))"
proof -
  obtain r h1 where f: "f h = (r, h1)" by fastforce
  then show ?thesis using ticker_loop_never_ok [of E d f rounds h1]
    by (cases r) (auto simp: ImmediateTicker_def andThen_def)
qed

theorem ImmediateTicker_never_nil_witness:
  "ImmediateTicker ref_env 5 100 (throw ErrNotFound) [] = (Err ErrNotFound, [])"
  using ImmediateTicker_never_nil [of ref_env 5 100 "throw ErrNotFound" "[]"] by simp

end
