(* ===== verification/Rpc.thy ===== *)
theory Rpc imports Helpers Types begin

text \<open>
  The package \<open>rpc\<close>: the queries of the application (\<open>app_querier.go\<close>), which answer for the latest
  height or for a given one and fall back through history in steps of 20 days of blocks, and those
  of tendermint (\<open>tm_querier.go\<close>).

  Go pointers and interfaces that may be nil are options. The loops over history take a number of
  rounds; the lemmas show how many are enough.
\<close>

section \<open>rpc/app\_querier.go: attestations\<close>

definition unmarshallAttestation :: "lib \<Rightarrow> string option \<Rightarrow> attestation option outcome" where
  "unmarshallAttestation L a = UnpackAny L a"

definition queryAttestation :: "env \<Rightarrow> u64 option \<Rightarrow> u64 \<Rightarrow> string option prog" where
  "queryAttestation E height nonce =
     call (app_attestation E height nonce) (\<lambda>r. App (Attestation height nonce r))"

definition QueryAttestationByNonce :: "lib \<Rightarrow> env \<Rightarrow> u64 \<Rightarrow> attestation option prog" where
  "QueryAttestationByNonce L E nonce =
     andThen (queryAttestation E None nonce) (\<lambda>a.
     if a = None then ret None else lift (unmarshallAttestation L a))"

definition QueryHistoricalAttestationByNonce :: "lib \<Rightarrow> env \<Rightarrow> u64 \<Rightarrow> u64 \<Rightarrow> attestation option prog" where
  "QueryHistoricalAttestationByNonce L E nonce height =
     andThen (queryAttestation E (Some height) nonce) (\<lambda>a.
     if a = None then ret None else lift (unmarshallAttestation L a))"

text \<open>
  The loop of \<open>QueryRecursiveHistoricalAttestationByNonce\<close>. Unlike the two functions above it does
  not test for a missing attestation before unmarshalling.
\<close>

fun recursiveAttestation :: "lib \<Rightarrow> env \<Rightarrow> nat \<Rightarrow> u64 \<Rightarrow> u64 \<Rightarrow> attestation option prog" where
  "recursiveAttestation L E 0 nonce currentHeight = lift Blocked"
| "recursiveAttestation L E (Suc rounds) nonce currentHeight =
     (if currentHeight < 1 then throw ErrNotFound
      else
        andThen (ctxErr E) (\<lambda>c. case c of
            Some e \<Rightarrow> throw e
          | None \<Rightarrow>
              handle (queryAttestation E (Some currentHeight) nonce)
                (\<lambda>a. lift (unmarshallAttestation L a))
                (\<lambda>e. if currentHeight \<le> BlocksIn20DaysPeriod L then throw ErrNotFound
                     else recursiveAttestation L E rounds nonce (currentHeight - BlocksIn20DaysPeriod L))))"

definition QueryRecursiveHistoricalAttestationByNonce :: "lib \<Rightarrow> env \<Rightarrow> u64 \<Rightarrow> u64 \<Rightarrow> attestation option prog" where
  "QueryRecursiveHistoricalAttestationByNonce L E nonce height =
     recursiveAttestation L E (Suc (unat height)) nonce height"

definition QueryLatestAttestationNonce :: "env \<Rightarrow> u64 prog" where
  "QueryLatestAttestationNonce E = call (app_latest_nonce E None) (\<lambda>r. App (LatestNonce None r))"

definition QueryHistoricalLatestAttestationNonce :: "env \<Rightarrow> u64 \<Rightarrow> u64 prog" where
  "QueryHistoricalLatestAttestationNonce E height =
     call (app_latest_nonce E (Some height)) (\<lambda>r. App (LatestNonce (Some height) r))"

section \<open>rpc/app\_querier.go: data commitments\<close>

definition QueryDataCommitmentByNonce :: "lib \<Rightarrow> env \<Rightarrow> u64 \<Rightarrow> data_commitment prog" where
  "QueryDataCommitmentByNonce L E nonce =
     andThen (QueryAttestationByNonce L E nonce) (\<lambda>attestation. case attestation of
         None \<Rightarrow> throw ErrAttestationNotFound
       | Some (AttDataCommitment dcc) \<Rightarrow> ret dcc
       | Some _ \<Rightarrow> throw ErrAttestationNotDataCommitmentRequest)"

definition QueryDataCommitmentForHeight :: "env \<Rightarrow> u64 \<Rightarrow> data_commitment option prog" where
  "QueryDataCommitmentForHeight E height =
     call (app_dc_for_height E height) (\<lambda>r. App (DataCommitmentForHeight height r))"

definition QueryLatestDataCommitment :: "env \<Rightarrow> data_commitment option prog" where
  "QueryLatestDataCommitment E = call (app_latest_dc E) (\<lambda>r. App (LatestDataCommitment r))"

section \<open>rpc/app\_querier.go: valsets\<close>

definition valset_of_attestation :: "attestation option \<Rightarrow> valset prog" where
  "valset_of_attestation attestation = (case attestation of
       None \<Rightarrow> throw ErrAttestationNotFound
     | Some (AttValset value) \<Rightarrow> ret value
     | Some _ \<Rightarrow> throw ErrUnmarshalValset)"

definition QueryValsetByNonce :: "lib \<Rightarrow> env \<Rightarrow> u64 \<Rightarrow> valset prog" where
  "QueryValsetByNonce L E nonce = andThen (QueryAttestationByNonce L E nonce) valset_of_attestation"

definition QueryHistoricalValsetByNonce :: "lib \<Rightarrow> env \<Rightarrow> u64 \<Rightarrow> u64 \<Rightarrow> valset prog" where
  "QueryHistoricalValsetByNonce L E nonce height =
     andThen (QueryHistoricalAttestationByNonce L E nonce height) valset_of_attestation"

definition QueryLastValsetBeforeNonce :: "env \<Rightarrow> u64 \<Rightarrow> valset option prog" where
  "QueryLastValsetBeforeNonce E nonce =
     call (app_valset_before E None nonce) (\<lambda>r. App (ValsetBefore None nonce r))"

definition QueryHistoricalLastValsetBeforeNonce :: "env \<Rightarrow> u64 \<Rightarrow> u64 \<Rightarrow> valset option prog" where
  "QueryHistoricalLastValsetBeforeNonce E nonce height =
     call (app_valset_before E (Some height) nonce) (\<lambda>r. App (ValsetBefore (Some height) nonce r))"

definition QueryLatestValset :: "lib \<Rightarrow> env \<Rightarrow> valset option prog" where
  "QueryLatestValset L E =
     andThen (QueryLatestAttestationNonce E) (\<lambda>latestNonce.
     handle (QueryValsetByNonce L E latestNonce)
       (\<lambda>vs. ret (Some vs))
       (\<lambda>_. QueryLastValsetBeforeNonce E latestNonce))"

fun recursiveLatestValset :: "lib \<Rightarrow> env \<Rightarrow> nat \<Rightarrow> u64 \<Rightarrow> valset option prog" where
  "recursiveLatestValset L E 0 currentHeight = lift Blocked"
| "recursiveLatestValset L E (Suc rounds) currentHeight =
     (if currentHeight < 1 then throw ErrNotFound
      else
        andThen (ctxErr E) (\<lambda>c. case c of
            Some e \<Rightarrow> throw e
          | None \<Rightarrow>
              andThen (QueryHistoricalLatestAttestationNonce E currentHeight) (\<lambda>latestNonce.
              handle (QueryHistoricalValsetByNonce L E latestNonce currentHeight)
                (\<lambda>vs. ret (Some vs))
                (\<lambda>_. handle (QueryHistoricalLastValsetBeforeNonce E latestNonce currentHeight)
                  ret
                  (\<lambda>_. if currentHeight \<le> BlocksIn20DaysPeriod L then throw ErrNotFound
                       else recursiveLatestValset L E rounds (currentHeight - BlocksIn20DaysPeriod L))))))"

definition QueryRecursiveLatestValset :: "lib \<Rightarrow> env \<Rightarrow> u64 \<Rightarrow> valset option prog" where
  "QueryRecursiveLatestValset L E height = recursiveLatestValset L E (Suc (unat height)) height"

fun lastValsetBefore :: "lib \<Rightarrow> env \<Rightarrow> nat \<Rightarrow> u64 \<Rightarrow> u64 \<Rightarrow> valset prog" where
  "lastValsetBefore L E 0 currentNonce height = lift Blocked"
| "lastValsetBefore L E (Suc rounds) currentNonce height =
     andThen (ctxErr E) (\<lambda>c. case c of
         Some e \<Rightarrow> throw e
       | None \<Rightarrow>
           if currentNonce = 0 then throw ErrNotFound
           else
             andThen (QueryRecursiveHistoricalAttestationByNonce L E currentNonce height) (\<lambda>n. case n of
                 Some (AttValset vs) \<Rightarrow> ret vs
               | _ \<Rightarrow> lastValsetBefore L E rounds (currentNonce - 1) height))"

definition QueryRecursiveHistoricalLastValsetBeforeNonce :: "lib \<Rightarrow> env \<Rightarrow> u64 \<Rightarrow> u64 \<Rightarrow> valset prog" where
  "QueryRecursiveHistoricalLastValsetBeforeNonce L E nonce height =
     lastValsetBefore L E (Suc (unat (nonce - 1))) (nonce - 1) height"

section \<open>rpc/app\_querier.go: the rest\<close>

definition QueryStakingValidatorSet :: "env \<Rightarrow> string list prog" where
  "QueryStakingValidatorSet E = call (app_validators E) (\<lambda>r. App (StakingValidators r))"

definition QueryEVMAddress :: "env \<Rightarrow> string \<Rightarrow> string prog" where
  "QueryEVMAddress E valopAddress = call (app_evm_address E valopAddress) (\<lambda>r. App (EVMAddressOf valopAddress r))"

text \<open>The results below are \<open>int64\<close>s converted from \<open>uint64\<close>s: the same 64 bits.\<close>

definition QueryLastUnbondingHeight :: "env \<Rightarrow> u64 prog" where
  "QueryLastUnbondingHeight E = call (app_unbonding_height E) (\<lambda>r. App (UnbondingHeight r))"

definition QueryEarliestAttestationNonce :: "env \<Rightarrow> u64 prog" where
  "QueryEarliestAttestationNonce E = call (app_earliest_nonce E) (\<lambda>r. App (EarliestNonce r))"

section \<open>rpc/tm\_querier.go\<close>

definition tmConnect :: "env \<Rightarrow> unit prog" where
  "tmConnect E = call (tm_connect E) (\<lambda>r. Tm (Connect r))"

definition tmStop :: "env \<Rightarrow> unit prog" where
  "tmStop E = call (tm_stop E) (\<lambda>r. Tm (Stop r))"

definition QueryCommitment :: "env \<Rightarrow> u64 \<Rightarrow> u64 \<Rightarrow> bytes prog" where
  "QueryCommitment E beginBlock endBlock =
     call (tm_commitment E beginBlock endBlock) (\<lambda>r. Tm (Commitment beginBlock endBlock r))"

definition QueryHeight :: "env \<Rightarrow> u64 prog" where
  "QueryHeight E = call (tm_status E) (\<lambda>r. Tm (Status r))"

definition SubscribeEvents :: "env \<Rightarrow> string \<Rightarrow> string \<Rightarrow> unit prog" where
  "SubscribeEvents E subscriptionName query =
     call (tm_subscribe E subscriptionName query) (\<lambda>r. Tm (Subscribe subscriptionName query r))"

definition UnsubscribeEvents :: "env \<Rightarrow> string \<Rightarrow> string \<Rightarrow> unit prog" where
  "UnsubscribeEvents E subscriptionName query =
     call (tm_unsubscribe E subscriptionName query) (\<lambda>r. Tm (Unsubscribe subscriptionName query r))"

text \<open>A deferred call runs after the body, whatever the body's result; here its error is only logged.\<close>

definition deferred :: "'a prog \<Rightarrow> unit prog \<Rightarrow> 'a prog" where
  "deferred body cleanup h = (case body h of (r, h1) \<Rightarrow>
     (case r of Blocked \<Rightarrow> (Blocked, h1) | _ \<Rightarrow> (r, snd (cleanup h1))))"

definition newBlockQuery :: string where
  "newBlockQuery = ''tm.event='' @ [CHR 0x27] @ ''NewBlock'' @ [CHR 0x27]"

text \<open>Heights are signed; a \<open>WTick\<close> is a new block event.\<close>

fun waitForHeight_loop :: "env \<Rightarrow> int \<Rightarrow> nat \<Rightarrow> unit prog" where
  "waitForHeight_loop E height 0 = lift Blocked"
| "waitForHeight_loop E height (Suc rounds) =
     andThen (observe (wake_up E) (\<lambda>w. Local (Wake w))) (\<lambda>w. case w of
         WCtx e \<Rightarrow> throw e
       | WTimeout \<Rightarrow> throw ErrCouldntReachSpecifiedHeight
       | WTick \<Rightarrow>
           andThen (QueryHeight E) (\<lambda>currentHeight.
           if height \<le> int64 currentHeight then ret () else waitForHeight_loop E height rounds))"

definition WaitForHeight :: "env \<Rightarrow> nat \<Rightarrow> int \<Rightarrow> unit prog" where
  "WaitForHeight E rounds height =
     andThen (QueryHeight E) (\<lambda>currentHeight.
     if height \<le> int64 currentHeight then ret ()
     else
       andThen (SubscribeEvents E ''sub-height'' newBlockQuery)
         (\<lambda>_. deferred (waitForHeight_loop E height rounds)
           (UnsubscribeEvents E ''sub-height'' newBlockQuery)))"

definition IsRunning :: "env \<Rightarrow> bool prog" where
  "IsRunning E = handle (QueryHeight E) (\<lambda>_. ret True) (\<lambda>_. ret False)"

definition Reconnect :: "env \<Rightarrow> unit prog" where
  "Reconnect E = andThen (ignoreErr (tmStop E)) (\<lambda>_. tmConnect E)"

section \<open>Queries only read\<close>

fun read_only :: "event \<Rightarrow> bool" where
  "read_only (App c) = True"
| "read_only (Tm c) = True"
| "read_only (Dht (PutValue k v r)) = False"
| "read_only (Dht (GetValue k r)) = True"
| "read_only (Dht (ListPeers n)) = True"
| "read_only (Local (CtxErr e)) = True"
| "read_only (Local (Wake w)) = True"
| "read_only (Local (TimerFired d)) = True"
| "read_only e = False"

lemma emits_queries [emits_intros]:
  "emits read_only (queryAttestation E hgt n)"
  "emits read_only (QueryLatestAttestationNonce E)"
  "emits read_only (QueryHistoricalLatestAttestationNonce E height)"
  "emits read_only (QueryLastValsetBeforeNonce E n)"
  "emits read_only (QueryHistoricalLastValsetBeforeNonce E n height)"
  "emits read_only (QueryEarliestAttestationNonce E)"
  "emits read_only (QueryCommitment E b e)"
  "emits read_only (QueryHeight E)"
  unfolding queryAttestation_def QueryLatestAttestationNonce_def QueryHistoricalLatestAttestationNonce_def
    QueryLastValsetBeforeNonce_def QueryHistoricalLastValsetBeforeNonce_def QueryEarliestAttestationNonce_def
    QueryCommitment_def QueryHeight_def
  by (intro emits_intros; simp)+

lemma emits_QueryAttestationByNonce [emits_intros]: "emits read_only (QueryAttestationByNonce L E n)"
  unfolding QueryAttestationByNonce_def by (intro emits_intros)

lemma emits_recursiveAttestation [emits_intros]: "emits read_only (recursiveAttestation L E k n height)"
  by (induction k arbitrary: height) (simp_all only: recursiveAttestation.simps, (intro emits_intros read_only.simps | assumption | simp)+)

section \<open>History step by step\<close>

text \<open>\<open>extends h h'\<close>: the history only grows.\<close>

lemma emits_extends: "emits P m \<Longrightarrow> m h = (r, h') \<Longrightarrow> set h \<subseteq> set h'"
  using emitsD by fastforce

lemma queryAttestation_run:
  "queryAttestation E hgt n h = (app_attestation E hgt n h, App (Attestation hgt n (app_attestation E hgt n h)) # h)"
  by (simp add: queryAttestation_def)

lemma recursiveAttestation_Ok:
  assumes "recursiveAttestation L E k n ch h = (Ok a, h')"
  shows "\<exists>i any t. h' = App (Attestation (Some (ch - of_nat i * BlocksIn20DaysPeriod L)) n (Ok any)) # t \<and>
    set h \<subseteq> set t \<and> UnpackAny L any = Ok a \<and> i * unat (BlocksIn20DaysPeriod L) < unat ch \<and>
    (\<forall>j < i. \<exists>e. App (Attestation (Some (ch - of_nat j * BlocksIn20DaysPeriod L)) n (Err e)) \<in> set t)"
  using assms
proof (induction k arbitrary: ch h)
  case (Suc k)
  let ?B = "BlocksIn20DaysPeriod L"
  let ?h1 = "Local (CtxErr None) # h"
  have c: "ctx_err E h = None" "\<not> ch < 1" using Suc.prems by (auto split: if_splits option.splits)
  let ?r = "app_attestation E (Some ch) n ?h1"
  show ?case
  proof (cases ?r)
    case (Ok any)
    then show ?thesis using Suc.prems c
      by (intro exI [of _ 0] exI [of _ any] exI [of _ ?h1])
        (auto simp: handle_def queryAttestation_run unmarshallAttestation_def unat_gt_0 word_less_1)
  next
    case (Err e)
    let ?ev = "App (Attestation (Some ch) n (Err e))"
    have lt: "?B < ch" and rec: "recursiveAttestation L E k n (ch - ?B) (?ev # ?h1) = (Ok a, h')"
      using Suc.prems c Err by (auto simp: handle_def queryAttestation_run not_le split: if_splits)
    from Suc.IH [OF rec] obtain i any t where IH:
      "h' = App (Attestation (Some (ch - ?B - of_nat i * ?B)) n (Ok any)) # t"
      "set (?ev # ?h1) \<subseteq> set t" "UnpackAny L any = Ok a" "i * unat ?B < unat (ch - ?B)"
      "\<forall>j < i. \<exists>e. App (Attestation (Some (ch - ?B - of_nat j * ?B)) n (Err e)) \<in> set t" by blast
    have eq: "ch - ?B - of_nat j * ?B = ch - of_nat (Suc j) * ?B" for j by (simp add: algebra_simps)
    have "unat (ch - ?B) = unat ch - unat ?B" using lt by (simp add: unat_sub)
    then have "Suc i * unat ?B < unat ch" using IH(4) by simp
    moreover have "\<exists>e. App (Attestation (Some (ch - of_nat j * ?B)) n (Err e)) \<in> set t" if "j < Suc i" for j
    proof (cases j)
      case 0
      then show ?thesis using IH(2) by auto
    next
      case (Suc j')
      then show ?thesis using IH(5) that eq by (metis Suc_less_SucD)
    qed
    ultimately show ?thesis using IH unfolding eq
      by (intro exI [of _ "Suc i"] exI [of _ any] exI [of _ t]) auto
  qed (use Suc.prems c in \<open>auto simp: handle_def queryAttestation_run\<close>)
qed simp

lemma recursiveAttestation_returns:
  assumes "0 < BlocksIn20DaysPeriod L" "\<And>hg n h. app_attestation E hg n h \<noteq> Blocked" "\<And>a. UnpackAny L a \<noteq> Blocked"
  shows "unat ch < k \<Longrightarrow> fst (recursiveAttestation L E k n ch h) \<noteq> Blocked"
proof (induction k arbitrary: ch h)
  case (Suc k)
  let ?B = "BlocksIn20DaysPeriod L"
  show ?case
  proof (cases "ctx_err E h = None \<and> \<not> ch < 1")
    case True
    let ?h1 = "Local (CtxErr None) # h"
    have "?B < ch \<Longrightarrow> unat (ch - ?B) < k"
      using Suc.prems assms(1)
      by (simp add: unat_sub_if' word_le_nat_alt order_less_imp_le word_less_nat_alt)
    then show ?thesis using True assms(2) [of "Some ch" n ?h1] assms(3) Suc.IH
      by (cases "app_attestation E (Some ch) n ?h1")
        (auto simp: handle_def queryAttestation_run unmarshallAttestation_def not_le)
  qed (auto split: option.splits)
qed simp

text \<open>Some query of the history answered \<open>a\<close> for the attestation of nonce \<open>n\<close>.\<close>

definition answered :: "lib \<Rightarrow> history \<Rightarrow> u64 \<Rightarrow> attestation option \<Rightarrow> bool" where
  "answered L h n a \<longleftrightarrow> (\<exists>hg any. App (Attestation hg n (Ok any)) \<in> set h \<and> UnpackAny L any = Ok a)"

definition is_valset :: "attestation option \<Rightarrow> bool" where
  "is_valset a \<longleftrightarrow> (\<exists>vs. a = Some (AttValset vs))"

lemma answered_mono: "answered L h n a \<Longrightarrow> set h \<subseteq> set h' \<Longrightarrow> answered L h' n a"
  by (auto simp: answered_def)

lemma recursive_answered:
  "QueryRecursiveHistoricalAttestationByNonce L E n height h = (Ok a, h') \<Longrightarrow> answered L h' n a \<and> set h \<subseteq> set h'"
  unfolding QueryRecursiveHistoricalAttestationByNonce_def
  by (drule recursiveAttestation_Ok) (fastforce simp: answered_def)

lemma word_gt_pred: "k < m \<or> k = m \<longleftrightarrow> k \<le> (m :: u64)"
  by auto

lemma lastValsetBefore_Ok:
  assumes "lastValsetBefore L E r cur height h = (Ok vs, h')"
  shows "set h \<subseteq> set h' \<and> (\<exists>m \<le> cur. 0 < m \<and> answered L h' m (Some (AttValset vs)) \<and>
    (\<forall>k. m < k \<and> k \<le> cur \<longrightarrow> (\<exists>a. answered L h' k a \<and> \<not> is_valset a)))"
  using assms
proof (induction r arbitrary: cur h)
  case (Suc r)
  let ?h1 = "Local (CtxErr None) # h"
  have c: "ctx_err E h = None" "cur \<noteq> 0" using Suc.prems by (auto split: if_splits option.splits)
  let ?q = "QueryRecursiveHistoricalAttestationByNonce L E cur height"
  obtain n h1 where q: "?q ?h1 = (Ok n, h1)"
    and rest: "(case n of Some (AttValset vs) \<Rightarrow> ret vs | _ \<Rightarrow> lastValsetBefore L E r (cur - 1) height) h1 = (Ok vs, h')"
    using Suc.prems c by (auto simp: andThen_eq_Ok)
  have a: "answered L h1 cur n" "set h \<subseteq> set h1" using recursive_answered [OF q] by auto
  show ?case
  proof (cases "is_valset n")
    case True
    then show ?thesis using rest a c by (intro conjI exI [of _ cur]) (auto simp: is_valset_def word_gt_0)
  next
    case False
    then have rec: "lastValsetBefore L E r (cur - 1) height h1 = (Ok vs, h')"
      using rest by (auto simp: is_valset_def split: option.splits attestation.splits)
    from Suc.IH [OF rec] obtain m where m: "set h1 \<subseteq> set h'" "m \<le> cur - 1" "0 < m"
      "answered L h' m (Some (AttValset vs))" "\<forall>k. m < k \<and> k \<le> cur - 1 \<longrightarrow> (\<exists>a. answered L h' k a \<and> \<not> is_valset a)"
      by blast
    have p: "unat (cur - 1) = unat cur - 1" using c by (simp add: unat_minus_one)
    have "m \<le> cur" using m(2) p unfolding word_le_nat_alt by linarith
    moreover have "\<exists>a. answered L h' k a \<and> \<not> is_valset a" if "m < k \<and> k \<le> cur" for k
    proof (cases "k = cur")
      case True
      then show ?thesis using a(1) False m(1) answered_mono by blast
    next
      case False
      then have "unat k \<noteq> unat cur" by (metis word_unat_eq_iff)
      then have "k \<le> cur - 1" using that p unfolding word_le_nat_alt by linarith
      then show ?thesis using m(5) that by blast
    qed
    ultimately show ?thesis using m a(2) by blast
  qed
qed simp

lemma lastValsetBefore_returns:
  assumes "0 < BlocksIn20DaysPeriod L" "\<And>hg n h. app_attestation E hg n h \<noteq> Blocked" "\<And>a. UnpackAny L a \<noteq> Blocked"
  shows "unat cur < r \<Longrightarrow> fst (lastValsetBefore L E r cur height h) \<noteq> Blocked"
proof (induction r arbitrary: cur h)
  case (Suc r)
  show ?case
  proof (cases "ctx_err E h = None \<and> cur \<noteq> 0")
    case True
    let ?h1 = "Local (CtxErr None) # h"
    obtain a h1 where q: "QueryRecursiveHistoricalAttestationByNonce L E cur height ?h1 = (a, h1)" by fastforce
    have "a \<noteq> Blocked"
      using recursiveAttestation_returns [OF assms, where ?k = "Suc (unat height)" and ?h = ?h1] q
      unfolding QueryRecursiveHistoricalAttestationByNonce_def by (metis fst_conv lessI)
    moreover have "unat (cur - 1) < r"
      using True Suc.prems unat_gt_0 [of cur] by (simp add: unat_minus_one)
    ultimately show ?thesis using True q Suc.IH [of "cur - 1" h1]
      by (cases a) (auto simp: andThen_def split: option.splits attestation.splits)
  qed (auto split: option.splits)
qed simp

section \<open>Waiting for a height\<close>

lemma waitForHeight_loop_Ok:
  "waitForHeight_loop E height k h = (Ok u, h') \<Longrightarrow> \<exists>c t. h' = Tm (Status (Ok c)) # t \<and> height \<le> int64 c"
proof (induction k arbitrary: h)
  case (Suc k)
  then show ?case
    by (auto simp: andThen_eq_Ok QueryHeight_def split: wake.splits if_splits)
qed simp

section \<open>Properties\<close>

text \<open>
  The recursive query of a historical attestation asks at the heights \<open>height\<close>, \<open>height - B\<close>,
  \<open>height - 2B\<close>, ... without ever wrapping below zero, returns the decoded answer of the first height
  that answers, all later heights having failed, and is done within as many rounds as the height.
\<close>

theorem QueryRecursiveHistoricalAttestation_steps:
  assumes "0 < BlocksIn20DaysPeriod L" and "\<And>hg n h. app_attestation E hg n h \<noteq> Blocked"
    and "\<And>a. UnpackAny L a \<noteq> Blocked"
    and "QueryRecursiveHistoricalAttestationByNonce L E n height h = (res, h')"
  shows "res \<noteq> Blocked \<and>
    (\<forall>a. res = Ok a \<longrightarrow>
      (\<exists>i any t. h' = App (Attestation (Some (height - of_nat i * BlocksIn20DaysPeriod L)) n (Ok any)) # t \<and>
        UnpackAny L any = Ok a \<and> i * unat (BlocksIn20DaysPeriod L) < unat height \<and>
        (\<forall>j < i. \<exists>e. App (Attestation (Some (height - of_nat j * BlocksIn20DaysPeriod L)) n (Err e)) \<in> set t)))"
proof -
  have "fst (recursiveAttestation L E (Suc (unat height)) n height h) \<noteq> Blocked"
    using assms(1-3) by (rule recursiveAttestation_returns) simp
  with assms(4) have "res \<noteq> Blocked"
    unfolding QueryRecursiveHistoricalAttestationByNonce_def by simp
  moreover have "recursiveAttestation L E (Suc (unat height)) n height h = (Ok a, h')" if "res = Ok a" for a
    using assms(4) that unfolding QueryRecursiveHistoricalAttestationByNonce_def by simp
  ultimately show ?thesis by (blast dest: recursiveAttestation_Ok)
qed

text \<open>An archive with a valset at nonce 1 and a data commitment at any other.\<close>

definition archive_lib :: lib where
  "archive_lib = ref_lib\<lparr>UnpackAny := (\<lambda>a. case a of None \<Rightarrow> Ok None
     | Some s \<Rightarrow> if s = ''v'' then Ok (Some (AttValset (sample_valset\<lparr>Nonce := 1\<rparr>)))
         else Ok (Some (AttDataCommitment \<lparr>DcNonce = 2, BeginBlock = 1, EndBlock = 9\<rparr>))),
     BlocksIn20DaysPeriod := 10\<rparr>"

definition archive_env :: env where
  "archive_env = ref_env\<lparr>app_attestation := (\<lambda>hg n _. if hg = Some 25 then Err (Ext ''pruned'')
     else Ok (Some (if n = 1 then ''v'' else ''d'')))\<rparr>"

lemma archive_answers:
  "0 < BlocksIn20DaysPeriod archive_lib" "app_attestation archive_env hg n h \<noteq> Blocked"
  "UnpackAny archive_lib a \<noteq> Blocked"
  by (simp_all add: archive_lib_def archive_env_def split: option.split)

lemma archive_unpack:
  "UnpackAny archive_lib (Some ''v'') = Ok (Some (AttValset (sample_valset\<lparr>Nonce := 1\<rparr>)))"
  "UnpackAny archive_lib (Some ''d'') = Ok (Some (AttDataCommitment \<lparr>DcNonce = 2, BeginBlock = 1, EndBlock = 9\<rparr>))"
  by (simp_all add: archive_lib_def)

lemma archive_ctx [simp]: "ctx_err archive_env h = None"
  by (simp add: archive_env_def ref_env_def)

lemma archive_query:
  "QueryRecursiveHistoricalAttestationByNonce archive_lib archive_env n 7 h =
     (UnpackAny archive_lib (Some (if n = 1 then ''v'' else ''d'')),
      App (Attestation (Some 7) n (Ok (Some (if n = 1 then ''v'' else ''d'')))) # Local (CtxErr None) # h)"
proof -
  have "app_attestation archive_env (Some 7) n h = Ok (Some (if n = 1 then ''v'' else ''d''))" for h
    by (simp add: archive_env_def)
  then have "recursiveAttestation archive_lib archive_env (Suc k) n 7 h =
     (UnpackAny archive_lib (Some (if n = 1 then ''v'' else ''d'')),
      App (Attestation (Some 7) n (Ok (Some (if n = 1 then ''v'' else ''d'')))) # Local (CtxErr None) # h)" for k
    by (simp add: handle_def queryAttestation_run unmarshallAttestation_def)
  then show ?thesis unfolding QueryRecursiveHistoricalAttestationByNonce_def .
qed

theorem QueryRecursiveHistoricalAttestation_steps_witness:
  "fst (QueryRecursiveHistoricalAttestationByNonce archive_lib archive_env 1 25 []) \<noteq> Blocked"
  using QueryRecursiveHistoricalAttestation_steps [OF archive_answers prod.collapse [symmetric]] by blast

text \<open>
  C21: When the search through the archive for the last valset before a nonce succeeds, it returns
  the valset at some smaller nonce, and at every nonce between the two some query answered with
  something that is not a valset; the search ends. A nonce of 0 starts it at the largest 64-bit
  nonce.
\<close>

theorem LastValsetBeforeNonce_is_last:
  assumes "0 < BlocksIn20DaysPeriod L" and "\<And>hg n h. app_attestation E hg n h \<noteq> Blocked"
    and "\<And>a. UnpackAny L a \<noteq> Blocked"
    and "QueryRecursiveHistoricalLastValsetBeforeNonce L E nonce height h = (res, h')"
  shows "res \<noteq> Blocked \<and>
    (\<forall>vs. res = Ok vs \<longrightarrow>
      (\<exists>m \<le> nonce - 1. 0 < m \<and> answered L h' m (Some (AttValset vs)) \<and>
        (\<forall>k. m < k \<and> k \<le> nonce - 1 \<longrightarrow> (\<exists>a. answered L h' k a \<and> \<not> is_valset a))))"
proof -
  have "fst (lastValsetBefore L E (Suc (unat (nonce - 1))) (nonce - 1) height h) \<noteq> Blocked"
    using assms(1-3) by (rule lastValsetBefore_returns) simp
  with assms(4) have "res \<noteq> Blocked"
    unfolding QueryRecursiveHistoricalLastValsetBeforeNonce_def by simp
  moreover have "lastValsetBefore L E (Suc (unat (nonce - 1))) (nonce - 1) height h = (Ok vs, h')" if "res = Ok vs" for vs
    using assms(4) that unfolding QueryRecursiveHistoricalLastValsetBeforeNonce_def by simp
  ultimately show ?thesis by (blast dest: lastValsetBefore_Ok)
qed

theorem LastValsetBeforeNonce_is_last_witness:
  "fst (QueryRecursiveHistoricalLastValsetBeforeNonce archive_lib archive_env 3 7 []) \<noteq> Blocked \<and>
   fst (QueryRecursiveHistoricalLastValsetBeforeNonce archive_lib archive_env 3 7 []) = Ok (sample_valset\<lparr>Nonce := 1\<rparr>)"
proof
  show "fst (QueryRecursiveHistoricalLastValsetBeforeNonce archive_lib archive_env 3 7 []) \<noteq> Blocked"
    using LastValsetBeforeNonce_is_last [OF archive_answers prod.collapse [symmetric]] by blast
  show "fst (QueryRecursiveHistoricalLastValsetBeforeNonce archive_lib archive_env 3 7 []) = Ok (sample_valset\<lparr>Nonce := 1\<rparr>)"
  proof -
    have "fst (lastValsetBefore archive_lib archive_env (Suc (Suc k)) 2 7 []) = Ok (sample_valset\<lparr>Nonce := 1\<rparr>)" for k
      by (simp add: archive_query archive_unpack andThen_Ok)
    moreover have "3 - 1 = (2 :: u64)" "unat (2 :: u64) = Suc 1" by simp_all
    ultimately show ?thesis by (simp only: QueryRecursiveHistoricalLastValsetBeforeNonce_def)
  qed
qed

text \<open>
  \<open>WaitForHeight\<close> returns nil only if a status it has seen carries at least the wanted height (a
  signed comparison), and once it has subscribed to new blocks it unsubscribes on every way
  out, as its last action.
\<close>

theorem WaitForHeight_reaches:
  assumes "WaitForHeight E rounds height h = (res, h')" and "res \<noteq> Blocked"
  shows "(res = Ok () \<longrightarrow> (\<exists>c. Tm (Status (Ok c)) \<in> set h' \<and> height \<le> int64 c)) \<and>
    (tm_subscribe E ''sub-height'' newBlockQuery (Tm (Status (tm_status E h)) # h) = Ok () \<longrightarrow>
      (case tm_status E h of Ok c \<Rightarrow> int64 c < height | _ \<Rightarrow> False) \<longrightarrow>
      (\<exists>r t. h' = Tm (Unsubscribe ''sub-height'' newBlockQuery r) # t))"
proof (cases "tm_status E h")
  case (Ok c)
  let ?h1 = "Tm (Status (Ok c)) # h"
  show ?thesis
  proof (cases "height \<le> int64 c")
    case True
    with Ok assms show ?thesis by (auto simp: WaitForHeight_def QueryHeight_def andThen_def)
  next
    case False
    show ?thesis
    proof (cases "tm_subscribe E ''sub-height'' newBlockQuery ?h1")
      case sub: (Ok u)
      let ?h2 = "Tm (Subscribe ''sub-height'' newBlockQuery (Ok ())) # ?h1"
      obtain r h3 where l: "waitForHeight_loop E height rounds ?h2 = (r, h3)" by fastforce
      from assms Ok False sub l have "res = r \<and> (\<exists>x. h' = Tm (Unsubscribe ''sub-height'' newBlockQuery x) # h3)"
        by (cases r) (auto simp: WaitForHeight_def QueryHeight_def SubscribeEvents_def UnsubscribeEvents_def
            andThen_def deferred_def)
      then show ?thesis using l by (auto dest!: waitForHeight_loop_Ok)
    qed (use assms Ok False in \<open>auto simp: WaitForHeight_def QueryHeight_def SubscribeEvents_def andThen_def\<close>)
  qed
qed (use assms in \<open>auto simp: WaitForHeight_def QueryHeight_def andThen_def\<close>)

theorem WaitForHeight_reaches_witness:
  "Tm (Status (Ok 7)) \<in> set (snd (WaitForHeight (ref_env\<lparr>tm_status := (\<lambda>_. Ok 7)\<rparr>) 3 5 []))"
proof -
  have i: "int64 7 = 7" by (simp add: int64_def)
  have "WaitForHeight (ref_env\<lparr>tm_status := (\<lambda>_. Ok 7)\<rparr>) 3 5 [] = (Ok (), [Tm (Status (Ok 7))])"
    by (simp add: WaitForHeight_def QueryHeight_def andThen_def i)
  from WaitForHeight_reaches [OF this] this show ?thesis by auto
qed

end
