(* ===== verification/Orchestrator.thy ===== *)
theory Orchestrator imports Querier Rpc begin

text \<open>
  \<open>orchestrator/broadcaster.go\<close> and the sequential parts of \<open>orchestrator/orchestrator.go\<close>: deciding
  whether an attestation must be signed, signing it and putting the confirm on the DHT; enqueueing
  missing nonces; processing one nonce with its retries. The goroutines and queues around them
  are in the theory OrchQueue.
\<close>

section \<open>orchestrator/broadcaster.go\<close>

definition ProvideDataCommitmentConfirm :: "env \<Rightarrow> u64 \<Rightarrow> DataCommitmentConfirm \<Rightarrow> string \<Rightarrow> unit prog" where
  "ProvideDataCommitmentConfirm E nonce confirm dataRootTupleRoot =
     andThen (listPeers E) (\<lambda>peers.
     if peers = 0 then throw ErrEmptyPeersTable
     else PutDataCommitmentConfirm E
       (GetDataCommitmentConfirmKey nonce (DccEthAddress confirm) dataRootTupleRoot) confirm)"

definition ProvideValsetConfirm :: "env \<Rightarrow> u64 \<Rightarrow> ValsetConfirm \<Rightarrow> string \<Rightarrow> unit prog" where
  "ProvideValsetConfirm E nonce confirm signBytes =
     andThen (listPeers E) (\<lambda>peers.
     if peers = 0 then throw ErrEmptyPeersTable
     else PutValsetConfirm E (GetValsetConfirmKey nonce (VcEthAddress confirm) signBytes) confirm)"

definition ProvideLatestValset :: "env \<Rightarrow> LatestValset \<Rightarrow> unit prog" where
  "ProvideLatestValset E latestValset =
     andThen (listPeers E) (\<lambda>peers.
     if peers = 0 then throw ErrEmptyPeersTable else PutLatestValset E latestValset)"

section \<open>orchestrator/orchestrator.go: one attestation\<close>

record orchestrator =
  EvmAccount :: address
  NilKeyStore :: bool
  OrchRetrier :: retrier

definition RequeueWindow :: u64 where
  "RequeueWindow = 50"

definition queueSize :: nat where
  "queueSize = 1000"

fun ValidatorPartOfValset :: "bridge_validator list \<Rightarrow> string \<Rightarrow> bool" where
  "ValidatorPartOfValset [] evmAddr = False"
| "ValidatorPartOfValset (val # members) evmAddr =
     (if EvmAddress val = evmAddr then True else ValidatorPartOfValset members evmAddr)"

definition ProcessValsetEvent :: "lib \<Rightarrow> env \<Rightarrow> orchestrator \<Rightarrow> valset \<Rightarrow> unit prog" where
  "ProcessValsetEvent L E orch valset =
     andThen (ignoreErr (ProvideLatestValset E (ToLatestValset valset))) (\<lambda>_.
     andThen (lift (ValsetSignBytes L valset)) (\<lambda>signBytes.
     andThen (NewEthereumSignature L E signBytes (NilKeyStore orch) (EvmAccount orch)) (\<lambda>signature.
     let msg = NewValsetConfirm L (EvmAccount orch) (Bytes2Hex L signature) in
     ProvideValsetConfirm E (Nonce valset) msg (HashHex L signBytes))))"

definition ProcessDataCommitmentEvent :: "lib \<Rightarrow> env \<Rightarrow> orchestrator \<Rightarrow> data_commitment \<Rightarrow> hash \<Rightarrow> unit prog" where
  "ProcessDataCommitmentEvent L E orch dc dataRootTupleRoot =
     andThen (NewEthereumSignature L E dataRootTupleRoot (NilKeyStore orch) (EvmAccount orch)) (\<lambda>dcSig.
     let msg = NewDataCommitmentConfirm L (Bytes2Hex L dcSig) (EvmAccount orch) in
     ProvideDataCommitmentConfirm E (DcNonce dc) msg (HashHex L dataRootTupleRoot))"

text \<open>\<open>if err != nil { return errors.Wrap(err, ...) }\<close>\<close>

definition wrapping :: "string \<Rightarrow> 'a prog \<Rightarrow> 'a prog" where
  "wrapping msg m = handle m ret (\<lambda>e. throw (Wrap e msg))"

text \<open>The cases of the type switch of \<open>Process\<close>.\<close>

definition processValset :: "lib \<Rightarrow> env \<Rightarrow> orchestrator \<Rightarrow> u64 \<Rightarrow> valset \<Rightarrow> unit prog" where
  "processValset L E orch nonce castedAtt =
     (let msg = ''valset '' @ FormatUint 10 (unat nonce) in
      andThen (lift (ValsetSignBytes L castedAtt)) (\<lambda>signBytes.
      andThen (wrapping msg (QueryValsetConfirmByEVMAddress E nonce (AddressHex L (EvmAccount orch)) (HashHex L signBytes))) (\<lambda>resp.
      if resp \<noteq> None then ret ()
      else wrapping msg (ProcessValsetEvent L E orch castedAtt))))"

definition processDataCommitment :: "lib \<Rightarrow> env \<Rightarrow> orchestrator \<Rightarrow> u64 \<Rightarrow> data_commitment \<Rightarrow> unit prog" where
  "processDataCommitment L E orch nonce castedAtt =
     (let msg = ''data commitment '' @ FormatUint 10 (unat nonce) in
      andThen (QueryCommitment E (BeginBlock castedAtt) (EndBlock castedAtt)) (\<lambda>commitment.
      andThen (lift (DataCommitmentTupleRootSignBytes L (int64 (DcNonce castedAtt)) commitment)) (\<lambda>dataRootHash.
      andThen (wrapping msg (QueryDataCommitmentConfirmByEVMAddress E (DcNonce castedAtt) (AddressHex L (EvmAccount orch)) (HashHex L dataRootHash))) (\<lambda>resp.
      if resp \<noteq> None then ret ()
      else wrapping msg (ProcessDataCommitmentEvent L E orch castedAtt dataRootHash)))))"

definition processAttestation :: "lib \<Rightarrow> env \<Rightarrow> orchestrator \<Rightarrow> u64 \<Rightarrow> attestation \<Rightarrow> unit prog" where
  "processAttestation L E orch nonce att = (case att of
       AttValset vs \<Rightarrow> processValset L E orch nonce vs
     | AttDataCommitment dc \<Rightarrow> processDataCommitment L E orch nonce dc
     | AttOther _ \<Rightarrow> throw (Wrap ErrUnknownAttestationType (FormatUint 10 (unat nonce))))"

text \<open>
  A failed query of the previous valset is only logged and the attestation is signed; a nil
  valset without an error is dereferenced.
\<close>

definition Process :: "lib \<Rightarrow> env \<Rightarrow> orchestrator \<Rightarrow> u64 \<Rightarrow> unit prog" where
  "Process L E orch nonce =
     andThen (QueryAttestationByNonce L E nonce) (\<lambda>a. case a of
         None \<Rightarrow> throw ErrAttestationNotFound
       | Some att \<Rightarrow>
           if nonce = 1 then ret ()
           else
             handle (QueryLastValsetBeforeNonce E (GetNonce att))
               (\<lambda>previousValset. case previousValset of
                   None \<Rightarrow> panic ''invalid memory address or nil pointer dereference''
                 | Some vs \<Rightarrow>
                     if \<not> ValidatorPartOfValset (Members vs) (AddressHex L (EvmAccount orch)) then ret ()
                     else
                       andThen (ignoreErr (ProvideLatestValset E (ToLatestValset vs))) (\<lambda>_.
                       processAttestation L E orch nonce att))
               (\<lambda>_. processAttestation L E orch nonce att))"

section \<open>orchestrator/orchestrator.go: requeueing and the body of the nonces processor\<close>

text \<open>\<open>MaybeRequeue\<close>: whether the nonce is put on the requeue queue.\<close>

definition MaybeRequeue :: "env \<Rightarrow> u64 \<Rightarrow> bool prog" where
  "MaybeRequeue E nonce =
     handle (QueryLatestAttestationNonce E)
       (\<lambda>latestNonce.
          if latestNonce \<le> RequeueWindow \<or> latestNonce - RequeueWindow \<le> nonce then ret True else ret False)
       (\<lambda>_. ret False)"

definition meter :: "string \<Rightarrow> unit prog" where
  "meter name = andThen (observe (\<lambda>_. ()) (\<lambda>_. Local (Metric name))) ret"

text \<open>
  What \<open>ProcessNonces\<close> does with a nonce it receives. The result says whether it starts the
  goroutine that runs \<open>MaybeRequeue\<close>.
\<close>

definition processNonce :: "lib \<Rightarrow> env \<Rightarrow> orchestrator \<Rightarrow> u64 \<Rightarrow> bool prog" where
  "processNonce L E orch nonce =
     (let done = (\<lambda>requeue. andThen (meter ''ProcessingTime'') (\<lambda>_.
                  andThen (meter ''ProcessedNonces'') (\<lambda>_. ret requeue)))
      in handle (Process L E orch nonce)
           (\<lambda>_. done False)
           (\<lambda>_. andThen (meter ''ProcessingTime'') (\<lambda>_.
                 handle (Retry E (OrchRetrier orch) (Process L E orch nonce))
                   (\<lambda>_. done False)
                   (\<lambda>_. andThen (meter ''FailedNonces'') (\<lambda>_. done True)))))"

section \<open>orchestrator/orchestrator.go: enqueueing\<close>

text \<open>
  What the \<open>select\<close>s of the two enqueueing services find ready: the signal channel closed, the
  context done, the channel they send on (or the default case), a tick, a tendermint event. A
  \<open>select\<close> that does not offer a case takes its remaining one.
\<close>

datatype ready = RSignal | RCtx go_error | RSend | RTick | RResult "(string \<times> string list) list"

record schedule =
  next_ready :: "history \<Rightarrow> ready"

definition select :: "schedule \<Rightarrow> ready prog" where
  "select S = observe (next_ready S) (\<lambda>_. Local (Wake WTick))"

text \<open>The inner \<open>select\<close> that sends a nonce on the queue.\<close>

definition enqueue :: "schedule \<Rightarrow> u64 \<Rightarrow> unit prog" where
  "enqueue S nonce =
     andThen (select S) (\<lambda>r. case r of
         RCtx e \<Rightarrow> throw e
       | RSignal \<Rightarrow> throw ErrSignalChanNotif
       | _ \<Rightarrow> andThen (observe (\<lambda>_. ()) (\<lambda>_. Local (Enqueued nonce))) ret)"

text \<open>The loop \<open>for i := uint64(0); i < count; i++\<close>, with the number of rounds left.\<close>

fun enqueueMissing_loop :: "schedule \<Rightarrow> u64 \<Rightarrow> nat \<Rightarrow> u64 \<Rightarrow> unit prog" where
  "enqueueMissing_loop S latestNonce 0 i = ret ()"
| "enqueueMissing_loop S latestNonce (Suc left) i =
     andThen (select S) (\<lambda>r. case r of
         RSignal \<Rightarrow> ret ()
       | RCtx e \<Rightarrow> throw e
       | _ \<Rightarrow>
           andThen (enqueue S (latestNonce - i)) (\<lambda>_.
           enqueueMissing_loop S latestNonce left (i + 1)))"

definition EnqueueMissingEvents :: "env \<Rightarrow> schedule \<Rightarrow> nat \<Rightarrow> unit prog" where
  "EnqueueMissingEvents E S rounds =
     andThen (WaitForHeight E rounds 1) (\<lambda>_.
     andThen (QueryLatestAttestationNonce E) (\<lambda>latestNonce.
     andThen (QueryEarliestAttestationNonce E) (\<lambda>earliestAttestationNonce.
     enqueueMissing_loop S latestNonce (unat (latestNonce - earliestAttestationNonce + 1)) 0)))"

text \<open>\<open>mustGetEvent\<close> panics when the event is missing.\<close>

definition mustGetEvent :: "(string \<times> string list) list \<Rightarrow> string \<Rightarrow> string list outcome" where
  "mustGetEvent events eventName =
     (let ev = (case map_of events eventName of None \<Rightarrow> [] | Some l \<Rightarrow> l) in
      if length ev = 0 then Panic ''not found in event'' else Ok ev)"

fun enqueueEvents :: "schedule \<Rightarrow> string list \<Rightarrow> unit prog" where
  "enqueueEvents S [] = ret ()"
| "enqueueEvents S (attEvent # attEvents) =
     andThen (lift (Atoi attEvent)) (\<lambda>nonce.
     andThen (enqueue S nonce) (\<lambda>_. enqueueEvents S attEvents))"

definition reconnectAndSubscribe :: "env \<Rightarrow> string \<Rightarrow> string \<Rightarrow> unit prog" where
  "reconnectAndSubscribe E subscriptionName query =
     andThen (Reconnect E) (\<lambda>_. SubscribeEvents E subscriptionName query)"

text \<open>
  The names of the events are constants of other modules: \<open>eventTypeKey\<close> and \<open>eventNewBlock\<close> of
  tendermint, \<open>attestationEventName\<close> made of constants of the qgb module.
\<close>

record event_names =
  eventTypeKey :: string
  eventNewBlock :: string
  attestationEventName :: string

fun listener_loop :: "env \<Rightarrow> schedule \<Rightarrow> orchestrator \<Rightarrow> event_names \<Rightarrow> string \<Rightarrow> nat \<Rightarrow> unit prog" where
  "listener_loop E S orch N query 0 = lift Blocked"
| "listener_loop E S orch N query (Suc rounds) =
     andThen (select S) (\<lambda>r. case r of
         RSignal \<Rightarrow> ret ()
       | RCtx e \<Rightarrow> if errors_Is e Canceled then ret () else throw e
       | RResult result \<Rightarrow>
           andThen (lift (mustGetEvent result (eventTypeKey N))) (\<lambda>blockEvent.
           if hd blockEvent \<noteq> eventNewBlock N then listener_loop E S orch N query rounds
           else
             andThen (lift (mustGetEvent result (attestationEventName N))) (\<lambda>attestationEvents.
             andThen (enqueueEvents S attestationEvents) (\<lambda>_.
             listener_loop E S orch N query rounds)))
       | _ \<Rightarrow>
           andThen (IsRunning E) (\<lambda>running.
           if running then listener_loop E S orch N query rounds
           else
             andThen (Retry E (OrchRetrier orch) (reconnectAndSubscribe E ''attestation-changes'' query)) (\<lambda>_.
             listener_loop E S orch N query rounds)))"

definition StartNewEventsListener :: "env \<Rightarrow> schedule \<Rightarrow> orchestrator \<Rightarrow> event_names \<Rightarrow> string \<Rightarrow> nat \<Rightarrow> unit prog" where
  "StartNewEventsListener E S orch N query rounds =
     andThen (SubscribeEvents E ''attestation-changes'' query) (\<lambda>_.
     deferred (listener_loop E S orch N query rounds)
       (UnsubscribeEvents E ''attestation-changes'' query))"

end
