(* ===== verification/OrchTrace.thy ===== *)
theory OrchTrace imports Orchestrator begin

text \<open>
  What processing an attestation may do to the outside: what it signs and why, and what it puts
  on the DHT. The lemmas go through the code one function at a time; the properties are in the theory
  OrchSafety.
\<close>

section \<open>Traces\<close>

text \<open>
  \<open>m\<close> started after \<open>h\<close> adds a trace \<open>t\<close> to it: the properties below are about \<open>t\<close>. Traces are
  newest first, as histories are.
\<close>

definition adds :: "'a prog \<Rightarrow> history \<Rightarrow> history \<Rightarrow> bool" where
  "adds m h t \<longleftrightarrow> snd (m h) = t @ h"

fun signings :: "history \<Rightarrow> (address \<times> bytes \<times> bytes outcome) list" where
  "signings [] = []"
| "signings (KsSign a d r # h) = (a, d, r) # signings h"
| "signings (e # h) = signings h"

fun puts :: "history \<Rightarrow> (string \<times> string) list" where
  "puts [] = []"
| "puts (Dht (PutValue k v r) # h) = (k, v) # puts h"
| "puts (e # h) = puts h"

lemma signings_append [simp]: "signings (t @ h) = signings t @ signings h"
  by (induction t rule: signings.induct) auto

lemma puts_append [simp]: "puts (t @ h) = puts t @ puts h"
  by (induction t rule: puts.induct) auto

lemma signings_read_only: "\<forall>e \<in> set t. read_only e \<Longrightarrow> signings t = []"
  by (induction t rule: signings.induct) auto

lemma puts_read_only: "\<forall>e \<in> set t. read_only e \<Longrightarrow> puts t = []"
  by (induction t rule: puts.induct) auto

section \<open>The pieces\<close>

lemma listPeers_apply [simp]: "listPeers E h = (Ok (dht_peers E h), Dht (ListPeers (dht_peers E h)) # h)"
  by (simp add: listPeers_def)

lemma NewEthereumSignature_run:
  "NewEthereumSignature L E d False a h =
     (ks_sign E a (protectedHash L d) h, KsSign a (protectedHash L d) (ks_sign E a (protectedHash L d) h) # h)"
  "NewEthereumSignature L E d True a h = (Err (Wrap ErrEmpty ''nil keystore''), h)"
  by (simp_all add: NewEthereumSignature_def)

lemma ProvideLatestValset_trace:
  "\<exists>t. snd (ProvideLatestValset E lv h) = t @ h \<and> signings t = [] \<and>
     (puts t = [] \<or> puts t = [(GetLatestValsetKey, print (lv_json lv))])"
  by (cases "dht_peers E h = 0")
    (auto simp: ProvideLatestValset_def PutLatestValset_def MarshalLatestValset_def andThen_def
      intro: exI [of _ "[Dht (ListPeers (dht_peers E h))]"] exI [of _ "[a, b]" for a b])

lemma ignore_latest_trace:
  "\<exists>r t. ignoreErr (ProvideLatestValset E lv) h = (r, t @ h) \<and> signings t = [] \<and>
     (puts t = [] \<or> puts t = [(GetLatestValsetKey, print (lv_json lv))])"
  using ProvideLatestValset_trace [of E lv h]
  by (cases "ProvideLatestValset E lv h") (auto simp: ignoreErr_run)

text \<open>
  A confirm put under its key: the key names the account's address and the digest, the value is the
  confirm with the signature.
\<close>

definition valset_confirm_put :: "lib \<Rightarrow> address \<Rightarrow> u64 \<Rightarrow> hash \<Rightarrow> bytes \<Rightarrow> string \<times> string" where
  "valset_confirm_put L acc n digest sig =
     (GetValsetConfirmKey n (AddressHex L acc) (HashHex L digest),
      print (vc_json (NewValsetConfirm L acc (Bytes2Hex L sig))))"

definition dc_confirm_put :: "lib \<Rightarrow> address \<Rightarrow> u64 \<Rightarrow> hash \<Rightarrow> bytes \<Rightarrow> string \<times> string" where
  "dc_confirm_put L acc n digest sig =
     (GetDataCommitmentConfirmKey n (AddressHex L acc) (HashHex L digest),
      print (dcc_json (NewDataCommitmentConfirm L (Bytes2Hex L sig) acc)))"

text \<open>
  Signing and providing: at most one signature, the key store's answer for the digest; a confirm is
  put only with it.
\<close>

definition signs_and_puts ::
  "(hash \<Rightarrow> bytes \<Rightarrow> string \<times> string) \<Rightarrow> lib \<Rightarrow> env \<Rightarrow> address \<Rightarrow> hash \<Rightarrow> history \<Rightarrow> bool" where
  "signs_and_puts put L E acc digest t \<longleftrightarrow>
     (signings t = [] \<and> puts t = []) \<or>
     (\<exists>r h0. r = ks_sign E acc (protectedHash L digest) h0 \<and> signings t = [(acc, protectedHash L digest, r)] \<and>
        (puts t = [] \<or> (\<exists>sig. r = Ok sig \<and> puts t = [put digest sig])))"

lemma signs_and_putsI:
  assumes "signings t = [(acc, protectedHash L digest, ks_sign E acc (protectedHash L digest) h0)]"
    and "puts t = [] \<or> (\<exists>sig. ks_sign E acc (protectedHash L digest) h0 = Ok sig \<and> puts t = [put digest sig])"
  shows "signs_and_puts put L E acc digest t"
  using assms unfolding signs_and_puts_def by blast

text \<open>
  What the orchestrator relies on when it publishes a confirm: without peers nothing is put, and
  otherwise one record, under the key and with the value that the digest and the signature
  determine. Both kinds of confirms are published so.
\<close>

locale confirm_publisher =
  fixes publish :: "env \<Rightarrow> hash \<Rightarrow> bytes \<Rightarrow> unit prog"
    and record_of :: "hash \<Rightarrow> bytes \<Rightarrow> string \<times> string"
  assumes publish_run: "publish E digest sig h =
      (if dht_peers E h = 0 then (Err ErrEmptyPeersTable, Dht (ListPeers 0) # h)
       else
         (let h' = Dht (ListPeers (dht_peers E h)) # h;
              k = fst (record_of digest sig); v = snd (record_of digest sig); r = dht_put E k v h'
          in (r, Dht (PutValue k v r) # h')))"
begin

lemma sign_and_publish_trace:
  "\<exists>t. snd (andThen (NewEthereumSignature L E digest nil acc) (publish E digest) h) = t @ h \<and>
     signs_and_puts record_of L E acc digest t"
proof (cases nil)
  case True
  then show ?thesis
    by (intro exI [of _ "[]"]) (simp add: NewEthereumSignature_run andThen_def signs_and_puts_def)
next
  case False
  let ?d = "protectedHash L digest"
  let ?e = "KsSign acc ?d (ks_sign E acc ?d h)"
  show ?thesis
  proof (cases "ks_sign E acc ?d h")
    case (Ok sig)
    let ?p = "Dht (ListPeers (dht_peers E (?e # h)))"
    let ?k = "fst (record_of digest sig)" let ?v = "snd (record_of digest sig)"
    show ?thesis
    proof (cases "dht_peers E (?e # h) = 0")
      case True
      have "signs_and_puts record_of L E acc digest [?p, ?e]" by (rule signs_and_putsI [where ?h0.0 = h]) simp_all
      then show ?thesis using True False Ok
        by (intro exI [of _ "[?p, ?e]"]) (simp add: NewEthereumSignature_run andThen_def publish_run)
    next
      case peers: False
      let ?w = "Dht (PutValue ?k ?v (dht_put E ?k ?v (?p # ?e # h)))"
      have "signs_and_puts record_of L E acc digest [?w, ?p, ?e]"
        by (rule signs_and_putsI [where ?h0.0 = h]) (simp_all add: Ok)
      then show ?thesis using peers False Ok
        by (intro exI [of _ "[?w, ?p, ?e]"]) (simp add: NewEthereumSignature_run andThen_def publish_run Let_def)
    qed
  qed (use False in \<open>auto intro!: exI [of _ "[?e]"] signs_and_putsI [where ?h0.0 = h] simp: NewEthereumSignature_run andThen_def\<close>)
qed

lemma sign_and_publish_Ok:
  assumes "andThen (NewEthereumSignature L E digest nil acc) (publish E digest) h = (Ok u, h')"
  shows "\<exists>sig. ks_sign E acc (protectedHash L digest) h = Ok sig \<and>
    (\<exists>t. h' = Dht (PutValue (fst (record_of digest sig)) (snd (record_of digest sig)) (Ok u)) # t)"
  using assms by (cases nil) (auto simp: NewEthereumSignature_run andThen_eq_Ok publish_run Let_def split: if_splits)

end

definition publishValset :: "lib \<Rightarrow> address \<Rightarrow> u64 \<Rightarrow> env \<Rightarrow> hash \<Rightarrow> bytes \<Rightarrow> unit prog" where
  "publishValset L acc n E digest sig =
     ProvideValsetConfirm E n (NewValsetConfirm L acc (Bytes2Hex L sig)) (HashHex L digest)"

definition publishDataCommitment :: "lib \<Rightarrow> address \<Rightarrow> u64 \<Rightarrow> env \<Rightarrow> hash \<Rightarrow> bytes \<Rightarrow> unit prog" where
  "publishDataCommitment L acc n E digest sig =
     ProvideDataCommitmentConfirm E n (NewDataCommitmentConfirm L (Bytes2Hex L sig) acc) (HashHex L digest)"

interpretation vs_publisher: confirm_publisher "publishValset L acc n" "valset_confirm_put L acc n" for L acc n
  by unfold_locales
    (simp add: publishValset_def ProvideValsetConfirm_def PutValsetConfirm_def MarshalValsetConfirm_def
      valset_confirm_put_def NewValsetConfirm_def andThen_def Let_def)

interpretation dc_publisher: confirm_publisher "publishDataCommitment L acc n" "dc_confirm_put L acc n" for L acc n
  by unfold_locales
    (simp add: publishDataCommitment_def ProvideDataCommitmentConfirm_def PutDataCommitmentConfirm_def
      MarshalDataCommitmentConfirm_def dc_confirm_put_def NewDataCommitmentConfirm_def andThen_def Let_def)

lemma ProcessDataCommitmentEvent_publish:
  "ProcessDataCommitmentEvent L E orch dc digest =
     andThen (NewEthereumSignature L E digest (NilKeyStore orch) (EvmAccount orch))
       (publishDataCommitment L (EvmAccount orch) (DcNonce dc) E digest)"
  by (simp add: ProcessDataCommitmentEvent_def publishDataCommitment_def [abs_def] Let_def)

lemma ProcessValsetEvent_publish:
  "ProcessValsetEvent L E orch vs =
     andThen (ignoreErr (ProvideLatestValset E (ToLatestValset vs))) (\<lambda>_.
     andThen (lift (ValsetSignBytes L vs)) (\<lambda>digest.
     andThen (NewEthereumSignature L E digest (NilKeyStore orch) (EvmAccount orch))
       (publishValset L (EvmAccount orch) (Nonce vs) E digest)))"
  by (simp add: ProcessValsetEvent_def publishValset_def [abs_def] Let_def)

section \<open>One attestation\<close>

definition latest_puts :: "history \<Rightarrow> bool" where
  "latest_puts t \<longleftrightarrow> signings t = [] \<and> list_all (\<lambda>(k, v). k = GetLatestValsetKey) (puts t)"

lemma ProcessValsetEvent_trace:
  assumes "ValsetSignBytes L vs = Ok digest"
  shows "\<exists>t t'. snd (ProcessValsetEvent L E orch vs h) = t @ t' @ h \<and> latest_puts t' \<and>
     signs_and_puts (valset_confirm_put L (EvmAccount orch) (Nonce vs)) L E (EvmAccount orch) digest t"
proof -
  obtain r t' where i: "ignoreErr (ProvideLatestValset E (ToLatestValset vs)) h = (r, t' @ h)" "latest_puts t'"
    using ignore_latest_trace [of E "ToLatestValset vs" h] by (fastforce simp: latest_puts_def)
  show ?thesis
  proof (cases r)
    case (Ok u)
    obtain t where "snd (andThen (NewEthereumSignature L E digest (NilKeyStore orch) (EvmAccount orch))
         (publishValset L (EvmAccount orch) (Nonce vs) E digest) (t' @ h)) = t @ t' @ h"
      "signs_and_puts (valset_confirm_put L (EvmAccount orch) (Nonce vs)) L E (EvmAccount orch) digest t"
      using vs_publisher.sign_and_publish_trace by blast
    with Ok i assms show ?thesis
      by (intro exI [of _ t] exI [of _ t']) (simp add: ProcessValsetEvent_publish andThen_Ok)
  qed (use i in \<open>auto simp: ProcessValsetEvent_publish andThen_Err andThen_Panic andThen_Blocked
      signs_and_puts_def intro: exI [of _ "[]"]\<close>)
qed

lemma wrapping_snd [simp]: "snd (wrapping msg m h) = snd (m h)"
  by (cases "m h"; cases "fst (m h)") (simp_all add: wrapping_def handle_def)

lemma wrapping_Ok: "wrapping msg m h = (Ok x, h') \<longleftrightarrow> m h = (Ok x, h')"
  by (cases "m h"; cases "fst (m h)") (simp_all add: wrapping_def handle_def)

text \<open>
  Why a digest is due to be signed, as the trace shows it: it is the digest of the attestation (for
  a data commitment, of the commitment tendermint gave for its range), and the DHT was asked for
  the account's own confirm of this digest and had none.
\<close>

definition due :: "lib \<Rightarrow> address \<Rightarrow> u64 \<Rightarrow> history \<Rightarrow> attestation \<Rightarrow> hash \<Rightarrow> bool" where
  "due L acc nonce t att digest \<longleftrightarrow> (case att of
       AttValset vs \<Rightarrow>
         ValsetSignBytes L vs = Ok digest \<and>
         (\<exists>e. Dht (GetValue (GetValsetConfirmKey nonce (AddressHex L acc) (HashHex L digest)) (Err e)) \<in> set t \<and>
            errors_Is e RoutingNotFound)
     | AttDataCommitment dc \<Rightarrow>
         (\<exists>c. Tm (Commitment (BeginBlock dc) (EndBlock dc) (Ok c)) \<in> set t \<and>
            DataCommitmentTupleRootSignBytes L (int64 (DcNonce dc)) c = Ok digest) \<and>
         (\<exists>e. Dht (GetValue (GetDataCommitmentConfirmKey (DcNonce dc) (AddressHex L acc) (HashHex L digest)) (Err e)) \<in> set t \<and>
            errors_Is e RoutingNotFound)
     | AttOther n \<Rightarrow> False)"

definition confirm_put :: "lib \<Rightarrow> address \<Rightarrow> attestation \<Rightarrow> hash \<Rightarrow> bytes \<Rightarrow> string \<times> string" where
  "confirm_put L acc att = (case att of
       AttDataCommitment dc \<Rightarrow> dc_confirm_put L acc (DcNonce dc)
     | _ \<Rightarrow> valset_confirm_put L acc (GetNonce att))"

lemma due_mono: "due L acc n t att d \<Longrightarrow> set t \<subseteq> set t' \<Longrightarrow> due L acc n t' att d"
  by (auto simp: due_def split: attestation.splits)

lemma own_valset_confirm:
  "\<exists>t. snd (QueryValsetConfirmByEVMAddress E n a d h) = t @ h \<and> latest_puts t"
  "QueryValsetConfirmByEVMAddress E n a d h = (Ok None, h') \<Longrightarrow>
     \<exists>e. h' = Dht (GetValue (GetValsetConfirmKey n a d) (Err e)) # h \<and> errors_Is e RoutingNotFound"
proof -
  let ?k = "GetValsetConfirmKey n a d"
  have s: "snd (QueryValsetConfirmByEVMAddress E n a d h) = Dht (GetValue ?k (dht_get E ?k h)) # h"
    by (cases "obind (dht_get E ?k h) UnmarshalValsetConfirm")
      (simp_all add: QueryValsetConfirmByEVMAddress_def handle_def GetValsetConfirm_run)
  then show "\<exists>t. snd (QueryValsetConfirmByEVMAddress E n a d h) = t @ h \<and> latest_puts t"
    by (intro exI [of _ "[Dht (GetValue ?k (dht_get E ?k h))]"]) (simp add: latest_puts_def)
  assume q: "QueryValsetConfirmByEVMAddress E n a d h = (Ok None, h')"
  then obtain e where "obind (dht_get E ?k h) UnmarshalValsetConfirm = Err e" "errors_Is e RoutingNotFound"
    by (cases "obind (dht_get E ?k h) UnmarshalValsetConfirm")
      (auto simp: QueryValsetConfirmByEVMAddress_def handle_def GetValsetConfirm_run split: if_splits)
  then have "dht_get E ?k h = Err e"
    using ok_or_json_D(2) [OF vc_unmarshal_json] by (cases "dht_get E ?k h") fastforce+
  with q s \<open>errors_Is e RoutingNotFound\<close>
  show "\<exists>e. h' = Dht (GetValue ?k (Err e)) # h \<and> errors_Is e RoutingNotFound" by auto
qed

lemma own_dc_confirm:
  "\<exists>t. snd (QueryDataCommitmentConfirmByEVMAddress E n a d h) = t @ h \<and> latest_puts t"
  "QueryDataCommitmentConfirmByEVMAddress E n a d h = (Ok None, h') \<Longrightarrow>
     \<exists>e. h' = Dht (GetValue (GetDataCommitmentConfirmKey n a d) (Err e)) # h \<and> errors_Is e RoutingNotFound"
proof -
  let ?k = "GetDataCommitmentConfirmKey n a d"
  have s: "snd (QueryDataCommitmentConfirmByEVMAddress E n a d h) = Dht (GetValue ?k (dht_get E ?k h)) # h"
    by (cases "obind (dht_get E ?k h) UnmarshalDataCommitmentConfirm")
      (simp_all add: QueryDataCommitmentConfirmByEVMAddress_def handle_def GetDataCommitmentConfirm_run)
  then show "\<exists>t. snd (QueryDataCommitmentConfirmByEVMAddress E n a d h) = t @ h \<and> latest_puts t"
    by (intro exI [of _ "[Dht (GetValue ?k (dht_get E ?k h))]"]) (simp add: latest_puts_def)
  assume q: "QueryDataCommitmentConfirmByEVMAddress E n a d h = (Ok None, h')"
  then obtain e where "obind (dht_get E ?k h) UnmarshalDataCommitmentConfirm = Err e" "errors_Is e RoutingNotFound"
    by (cases "obind (dht_get E ?k h) UnmarshalDataCommitmentConfirm")
      (auto simp: QueryDataCommitmentConfirmByEVMAddress_def handle_def GetDataCommitmentConfirm_run split: if_splits)
  then have "dht_get E ?k h = Err e"
    using ok_or_json_D(2) [OF dcc_unmarshal_json] by (cases "dht_get E ?k h") fastforce+
  with q s \<open>errors_Is e RoutingNotFound\<close>
  show "\<exists>e. h' = Dht (GetValue ?k (Err e)) # h \<and> errors_Is e RoutingNotFound" by auto
qed

text \<open>The two outcomes of processing: nothing but latest valsets, or one due signature.\<close>

definition acts_when_due :: "lib \<Rightarrow> env \<Rightarrow> address \<Rightarrow> u64 \<Rightarrow> attestation \<Rightarrow> history \<Rightarrow> bool" where
  "acts_when_due L E acc nonce att t \<longleftrightarrow>
     latest_puts t \<or>
     (\<exists>digest u t'. t = u @ t' \<and> latest_puts t' \<and> due L acc nonce t' att digest \<and>
        signs_and_puts (confirm_put L acc att) L E acc digest u)"

lemma latest_puts_append [simp]: "latest_puts (t @ t') \<longleftrightarrow> latest_puts t \<and> latest_puts t'"
  by (auto simp: latest_puts_def)

lemma acts_when_due_append:
  "acts_when_due L E acc n att t \<Longrightarrow> latest_puts t' \<Longrightarrow> acts_when_due L E acc n att (t @ t')"
  unfolding acts_when_due_def
  by (elim disjE exE conjE; simp) (metis append.assoc due_mono latest_puts_append set_append sup_ge1)

lemma processValset_trace:
  "\<exists>t. snd (processValset L E orch n vs h) = t @ h \<and> acts_when_due L E (EvmAccount orch) n (AttValset vs) t"
proof (cases "ValsetSignBytes L vs")
  case (Ok digest)
  let ?q = "QueryValsetConfirmByEVMAddress E n (AddressHex L (EvmAccount orch)) (HashHex L digest)"
  let ?w = "wrapping (''valset '' @ FormatUint 10 (unat n)) ?q"
  obtain r h1 where w: "?w h = (r, h1)" by fastforce
  then have "h1 = snd (?q h)" by (metis snd_conv wrapping_snd)
  then obtain t1 where t1: "h1 = t1 @ h" "latest_puts t1"
    using own_valset_confirm(1) [of E n _ _ h] by metis
  show ?thesis
  proof (cases "r = Ok None")
    case True
    then have "?q h = (Ok None, h1)" using w by (simp add: wrapping_Ok)
    with own_valset_confirm(2) have d: "due L (EvmAccount orch) n t1 (AttValset vs) digest"
      using t1(1) Ok by (fastforce simp: due_def)
    obtain t t' where t: "snd (ProcessValsetEvent L E orch vs h1) = t @ t' @ h1" "latest_puts t'"
      "signs_and_puts (valset_confirm_put L (EvmAccount orch) (Nonce vs)) L E (EvmAccount orch) digest t"
      using ProcessValsetEvent_trace [OF Ok] by blast
    have "snd (processValset L E orch n vs h) = (t @ t' @ t1) @ h"
      using w True Ok t t1 by (simp add: processValset_def Let_def andThen_Ok)
    moreover have "acts_when_due L E (EvmAccount orch) n (AttValset vs) (t @ t' @ t1)"
      unfolding acts_when_due_def
      using t t1 due_mono [OF d, of "t' @ t1"] by (fastforce simp: confirm_put_def)
    ultimately show ?thesis by blast
  next
    case False
    then have "snd (processValset L E orch n vs h) = t1 @ h"
      using w Ok t1 by (cases r) (auto simp: processValset_def Let_def andThen_def)
    then show ?thesis using t1(2) by (auto simp: acts_when_due_def)
  qed
qed (simp_all add: processValset_def Let_def andThen_def acts_when_due_def latest_puts_def)

lemma QueryCommitment_run:
  "QueryCommitment E b e h = (tm_commitment E b e h, Tm (Commitment b e (tm_commitment E b e h)) # h)"
  by (simp add: QueryCommitment_def)

lemma processDataCommitment_trace:
  "\<exists>t. snd (processDataCommitment L E orch n dc h) = t @ h \<and>
     acts_when_due L E (EvmAccount orch) n (AttDataCommitment dc) t"
proof -
  let ?acc = "EvmAccount orch"
  let ?e = "Tm (Commitment (BeginBlock dc) (EndBlock dc) (tm_commitment E (BeginBlock dc) (EndBlock dc) h))"
  let ?m = "\<lambda>c. DataCommitmentTupleRootSignBytes L (int64 (DcNonce dc)) c"
  have e: "latest_puts [?e]" by (simp add: latest_puts_def)
  show ?thesis
  proof (cases "tm_commitment E (BeginBlock dc) (EndBlock dc) h")
    case c: (Ok c)
    show ?thesis
    proof (cases "?m c")
      case (Ok digest)
      let ?q = "QueryDataCommitmentConfirmByEVMAddress E (DcNonce dc) (AddressHex L ?acc) (HashHex L digest)"
      let ?w = "wrapping (''data commitment '' @ FormatUint 10 (unat n)) ?q"
      obtain r h1 where w: "?w (?e # h) = (r, h1)" by fastforce
      then have "h1 = snd (?q (?e # h))" by (metis snd_conv wrapping_snd)
      then obtain t1 where t1: "h1 = t1 @ ?e # h" "latest_puts t1"
        using own_dc_confirm(1) [of E "DcNonce dc" _ _ "?e # h"] by metis
      show ?thesis
      proof (cases "r = Ok None")
        case True
        then have "?q (?e # h) = (Ok None, h1)" using w by (simp add: wrapping_Ok)
        with own_dc_confirm(2) have d: "due L ?acc n (t1 @ [?e]) (AttDataCommitment dc) digest"
          using t1(1) Ok c by (fastforce simp: due_def)
        obtain t where t: "snd (ProcessDataCommitmentEvent L E orch dc digest h1) = t @ h1"
          "signs_and_puts (dc_confirm_put L ?acc (DcNonce dc)) L E ?acc digest t"
          unfolding ProcessDataCommitmentEvent_publish using dc_publisher.sign_and_publish_trace by blast
        have "snd (processDataCommitment L E orch n dc h) = (t @ t1 @ [?e]) @ h"
          using w True Ok t t1 c by (simp add: processDataCommitment_def Let_def andThen_Ok QueryCommitment_run)
        moreover have "acts_when_due L E ?acc n (AttDataCommitment dc) (t @ t1 @ [?e])"
          unfolding acts_when_due_def using t t1 d e by (fastforce simp: confirm_put_def)
        ultimately show ?thesis by blast
      next
        case False
        then have "snd (processDataCommitment L E orch n dc h) = (t1 @ [?e]) @ h"
          using w Ok t1 c by (cases r) (auto simp: processDataCommitment_def Let_def andThen_def QueryCommitment_run)
        then show ?thesis using t1(2) e by (intro exI [of _ "t1 @ [?e]"]) (simp add: acts_when_due_def)
      qed
    qed (use e c in \<open>auto intro!: exI [of _ "[?e]"] simp: processDataCommitment_def Let_def andThen_def
        QueryCommitment_run acts_when_due_def\<close>)
  qed (use e in \<open>auto intro!: exI [of _ "[?e]"] simp: processDataCommitment_def Let_def andThen_def
      QueryCommitment_run acts_when_due_def\<close>)
qed

lemma processAttestation_trace:
  "\<exists>t. snd (processAttestation L E orch n att h) = t @ h \<and> acts_when_due L E (EvmAccount orch) n att t"
proof (cases att)
  case (AttOther k)
  then show ?thesis
    by (intro exI [of _ "[]"]) (simp add: processAttestation_def acts_when_due_def latest_puts_def)
qed (simp_all add: processAttestation_def processValset_trace processDataCommitment_trace)

section \<open>One nonce\<close>

definition attested :: "lib \<Rightarrow> history \<Rightarrow> u64 \<Rightarrow> attestation \<Rightarrow> bool" where
  "attested L t nonce att \<longleftrightarrow>
     (\<exists>any. App (Attestation None nonce (Ok any)) \<in> set t \<and> UnpackAny L any = Ok (Some att))"

text \<open>The account is in the validator set before the attestation, or that set is not known.\<close>

definition may_sign :: "lib \<Rightarrow> address \<Rightarrow> history \<Rightarrow> attestation \<Rightarrow> bool" where
  "may_sign L acc t att \<longleftrightarrow>
     (\<exists>vs. App (ValsetBefore None (GetNonce att) (Ok (Some vs))) \<in> set t \<and>
        ValidatorPartOfValset (Members vs) (AddressHex L acc)) \<or>
     (\<exists>e. App (ValsetBefore None (GetNonce att) (Err e)) \<in> set t)"

definition processes_when_due :: "lib \<Rightarrow> env \<Rightarrow> address \<Rightarrow> u64 \<Rightarrow> history \<Rightarrow> bool" where
  "processes_when_due L E acc nonce t \<longleftrightarrow>
     latest_puts t \<or>
     (nonce \<noteq> 1 \<and> (\<exists>att. attested L t nonce att \<and> may_sign L acc t att \<and> acts_when_due L E acc nonce att t))"

lemma attestation_trace:
  "QueryAttestationByNonce L E nonce h =
     (obind (app_attestation E None nonce h) (\<lambda>a. if a = None then Ok None else UnpackAny L a),
      App (Attestation None nonce (app_attestation E None nonce h)) # h)"
  by (cases "app_attestation E None nonce h")
    (auto simp: QueryAttestationByNonce_def queryAttestation_run andThen_def unmarshallAttestation_def)

lemma valset_before_run:
  "QueryLastValsetBeforeNonce E n h = (app_valset_before E None n h, App (ValsetBefore None n (app_valset_before E None n h)) # h)"
  by (simp add: QueryLastValsetBeforeNonce_def)

lemma Process_trace:
  "\<exists>t. snd (Process L E orch nonce h) = t @ h \<and> processes_when_due L E (EvmAccount orch) nonce t"
proof -
  let ?acc = "EvmAccount orch"
  let ?e1 = "App (Attestation None nonce (app_attestation E None nonce h))"
  have l1: "latest_puts [?e1]" by (simp add: latest_puts_def)
  have reads: ?thesis if "snd (Process L E orch nonce h) = t @ h" "latest_puts t" for t
    using that by (auto simp: processes_when_due_def)
  show ?thesis
  proof (cases "fst (QueryAttestationByNonce L E nonce h)")
    case (Ok a)
    then have q: "QueryAttestationByNonce L E nonce h = (Ok a, ?e1 # h)" by (simp add: attestation_trace)
    show ?thesis
    proof (cases "nonce = 1 \<or> a = None")
      case True
      then show ?thesis using q l1
        by (intro reads [of "[?e1]"]) (auto simp: Process_def andThen_def split: option.splits)
    next
      case False
      then obtain att where a: "a = Some att" by auto
      have at: "attested L [?e1] nonce att"
        using Ok a by (auto simp: attested_def attestation_trace obind_eq_Ok split: if_splits)
      let ?r2 = "app_valset_before E None (GetNonce att) (?e1 # h)"
      let ?e2 = "App (ValsetBefore None (GetNonce att) ?r2)"
      have l2: "latest_puts [?e2, ?e1]" by (simp add: latest_puts_def)
      have rest: ?thesis if p: "snd (Process L E orch nonce h) = snd (processAttestation L E orch nonce att (t0 @ ?e2 # ?e1 # h))"
        and t0: "latest_puts t0" and m: "may_sign L ?acc [?e2] att" for t0
      proof -
        obtain t where t: "snd (processAttestation L E orch nonce att (t0 @ ?e2 # ?e1 # h)) = t @ t0 @ ?e2 # ?e1 # h"
          "acts_when_due L E ?acc nonce att t" using processAttestation_trace by blast
        let ?t = "t @ t0 @ [?e2, ?e1]"
        have "acts_when_due L E ?acc nonce att ?t"
          using t(2) t0 l2 by (intro acts_when_due_append) (simp_all add: latest_puts_def)
        moreover have "attested L ?t nonce att" using at by (auto simp: attested_def)
        moreover have "may_sign L ?acc ?t att" using m by (auto simp: may_sign_def)
        moreover have "snd (Process L E orch nonce h) = ?t @ h" using p t(1) by simp
        ultimately show ?thesis using False unfolding processes_when_due_def by blast
      qed
      show ?thesis
      proof (cases ?r2)
        case (Err e)
        then show ?thesis using q a False
          by (intro rest [of "[]"])
            (auto simp: Process_def andThen_Ok handle_def valset_before_run latest_puts_def may_sign_def)
      next
        case ok2: (Ok pv)
        show ?thesis
        proof (cases "\<exists>vs. pv = Some vs \<and> ValidatorPartOfValset (Members vs) (AddressHex L ?acc)")
          case True
          then obtain vs where vs: "pv = Some vs" "ValidatorPartOfValset (Members vs) (AddressHex L ?acc)" by blast
          obtain r t where i: "ignoreErr (ProvideLatestValset E (ToLatestValset vs)) (?e2 # ?e1 # h) = (r, t @ ?e2 # ?e1 # h)"
            "latest_puts t"
            using ignore_latest_trace [of E "ToLatestValset vs" "?e2 # ?e1 # h"] by (fastforce simp: latest_puts_def)
          show ?thesis
          proof (cases r)
            case (Ok u)
            then show ?thesis using q a False ok2 vs i
              by (intro rest [of t])
                (auto simp: Process_def andThen_Ok handle_def valset_before_run may_sign_def)
          qed (use q a False ok2 vs i l2 in \<open>intro reads [of "t @ [?e2, ?e1]"];
              simp add: Process_def andThen_def handle_def valset_before_run\<close>)+
        next
          case none: False
          then have "snd (Process L E orch nonce h) = [?e2, ?e1] @ h"
            using q a False ok2
            by (cases pv) (simp_all add: Process_def andThen_Ok handle_def valset_before_run)
          then show ?thesis using reads l2 by blast
        qed
      qed (use q a False l2 in \<open>intro reads [of "[?e2, ?e1]"];
          simp add: Process_def andThen_Ok handle_def valset_before_run\<close>)+
    qed
  qed (use l1 in \<open>intro reads [of "[?e1]"]; simp add: Process_def andThen_def attestation_trace\<close>)+
qed

end
