(* ===== verification/OrchSafety.thy ===== *)
theory OrchSafety imports OrchTrace begin

text \<open>
  The properties of processing a nonce: what is signed and when, and that the DHT accepts what is put.
\<close>

section \<open>Published confirms are accepted\<close>

text \<open>
  Documented behaviour of go-ethereum and of the qgb types: addresses and hashes have their usual
  texts, digests are 32 bytes, and a signature of the key store has at least 65 bytes and recovers
  to a public key of the account.
\<close>

definition signing_laws :: "lib \<Rightarrow> env \<Rightarrow> address \<Rightarrow> bool" where
  "signing_laws L E acc \<longleftrightarrow>
     address_hex_law L acc \<and> hash_hex_law L \<and> (\<forall>b. Bytes2Hex L b = hex_EncodeToString b) \<and>
     (\<forall>vs d. ValsetSignBytes L vs = Ok d \<longrightarrow> length d = 32) \<and> (\<forall>b. length (Keccak256Hash L b) = 32) \<and>
     (\<forall>d s h. length d = 32 \<and> ks_sign E acc d h = Ok s \<longrightarrow> 65 \<le> length s \<and>
        (\<exists>pk pub. Ecrecover L d s = Ok pk \<and> UnmarshalPubkey L pk = Ok pub \<and> PubkeyToAddress L pub = acc))"

lemma address_parts:
  assumes "address_hex_law L acc"
  shows "key_part (AddressHex L acc)" "valid_utf8 (AddressHex L acc)" "IsHexAddress L (AddressHex L acc)"
    "HexToAddress L (AddressHex L acc) = acc"
proof -
  note a = assms [unfolded address_hex_law_def list_all_iff]
  show "key_part (AddressHex L acc)" using a unfolding key_part_def by blast
  show "valid_utf8 (AddressHex L acc)" using a by (intro valid_utf8_ascii) (simp add: list_all_iff)
  show "IsHexAddress L (AddressHex L acc)" "HexToAddress L (AddressHex L acc) = acc" using a by blast+
qed

lemma hash_parts:
  assumes "hash_hex_law L" "length d = 32"
  shows "key_part (HashHex L d)" "hex_DecodeString (strip_0x (HashHex L d)) = Ok d"
proof -
  have "d \<noteq> []" using assms(2) by auto
  then show "key_part (HashHex L d)" "hex_DecodeString (strip_0x (HashHex L d)) = Ok d"
    using assms by (simp_all add: hash_hex_law_def hex_key_part strip_0x_prefix hex_roundtrip del: append.simps)
qed

lemma signing_lawsD:
  assumes "signing_laws L E acc"
  shows "address_hex_law L acc" "hash_hex_law L" "Bytes2Hex L b = hex_EncodeToString b"
    "ValsetSignBytes L vs = Ok d \<Longrightarrow> length d = 32" "length (Keccak256Hash L b) = 32"
  using assms by (simp_all add: signing_laws_def)

lemma signing_laws_sign:
  assumes "signing_laws L E acc" and "length d = 32" and "ks_sign E acc d h = Ok s"
  obtains pk pub where "65 \<le> length s" and "Ecrecover L d s = Ok pk" and "UnmarshalPubkey L pk = Ok pub"
    and "PubkeyToAddress L pub = acc"
  using assms unfolding signing_laws_def by metis

lemma signed_by_account:
  assumes l: "signing_laws L E acc" and d: "length d = 32" and s: "ks_sign E acc (protectedHash L d) h = Ok s"
  shows "signed_by L (HashHex L d) (Bytes2Hex L s) (HexToAddress L (AddressHex L acc))"
proof -
  have "length (protectedHash L d) = 32" using signing_lawsD(5) [OF l] by (simp add: protectedHash_def)
  then obtain pk pub where "65 \<le> length s" "Ecrecover L (protectedHash L d) s = Ok pk"
    "UnmarshalPubkey L pk = Ok pub" "PubkeyToAddress L pub = acc"
    using signing_laws_sign [OF l _ s] by blast
  then have e: "EthAddressFromSignature L d s = Ok acc" unfolding EthAddressFromSignature_Ok by blast
  have b: "hex_DecodeString (strip_0x (Bytes2Hex L s)) = Ok s"
    by (simp add: signing_lawsD(3) [OF l] hex_roundtrip)
  note a = address_parts(4) [OF signing_lawsD(1) [OF l]] and h = hash_parts(2) [OF signing_lawsD(2) [OF l] d]
  show ?thesis
    unfolding signed_by_iff ValidateEthereumSignature_Ok using e b a h by metis
qed

text \<open>The record the DHT stores under a key has been checked by the validator of its namespace.\<close>

definition dht_accepts :: "lib \<Rightarrow> string \<times> string \<Rightarrow> bool" where
  "dht_accepts L kv \<longleftrightarrow>
     ValsetConfirm_Validate L (fst kv) (snd kv) = Ok () \<or> DataCommitmentConfirm_Validate L (fst kv) (snd kv) = Ok ()"

lemma confirm_put_accepted:
  assumes l: "signing_laws L E acc" and d: "length d = 32" and s: "ks_sign E acc (protectedHash L d) h = Ok sig"
  shows "dht_accepts L (confirm_put L acc att d sig)"
proof -
  have a: "key_part (AddressHex L acc)" "valid_utf8 (AddressHex L acc)" "IsHexAddress L (AddressHex L acc)"
    using l address_parts unfolding signing_laws_def by blast+
  have h: "key_part (HashHex L d)" using l hash_parts(1) [OF _ d] unfolding signing_laws_def by blast
  have u: "valid_utf8 (Bytes2Hex L sig)" using l hex_ascii by (simp add: signing_laws_def)
  note b = signed_by_account [OF l d s]
  have "ValsetConfirm_Validate L (fst (valset_confirm_put L acc n d sig)) (snd (valset_confirm_put L acc n d sig)) = Ok ()" for n
    unfolding valset_confirm_put_def fst_conv snd_conv
    by (rule built_vc_valid) (use a h u b in \<open>simp_all add: NewValsetConfirm_def vc_utf8_def\<close>)
  moreover have "DataCommitmentConfirm_Validate L (fst (dc_confirm_put L acc n d sig)) (snd (dc_confirm_put L acc n d sig)) = Ok ()" for n
    unfolding dc_confirm_put_def fst_conv snd_conv
    by (rule built_dcc_valid) (use a h u b in \<open>simp_all add: NewDataCommitmentConfirm_def dcc_utf8_def\<close>)
  ultimately show ?thesis by (cases att) (simp_all add: dht_accepts_def confirm_put_def)
qed

lemma DataCommitmentTupleRootSignBytes_length:
  "DataCommitmentTupleRootSignBytes L n c = Ok d \<Longrightarrow> \<forall>b. length (Keccak256Hash L b) = 32 \<Longrightarrow> length d = 32"
  unfolding DataCommitmentTupleRootSignBytes_def by (auto simp: obind_eq_Ok split: outcome.splits if_splits)

lemma due_length:
  assumes "signing_laws L E acc" and "due L acc n t att d"
  shows "length d = 32"
proof (cases att)
  case (AttValset vs)
  then show ?thesis using assms(2) signing_lawsD(4) [OF assms(1)] by (auto simp: due_def)
next
  case (AttDataCommitment dc)
  then show ?thesis
    using assms(2) signing_lawsD(5) [OF assms(1)] DataCommitmentTupleRootSignBytes_length by (auto simp: due_def)
next
  case (AttOther k)
  then show ?thesis using assms(2) by (simp add: due_def)
qed

section \<open>Properties\<close>

text \<open>
  C1: Processing a nonce signs at most once, with the orchestrator's account, and only when it is due:
  the nonce is not 1, the digest is that of the attestation the application returned for this
  nonce, the account was in the validator set before it or that set could not be queried, and
  the DHT was asked for the account's own confirm of this very digest and had none. A confirm is put
  only with the signature just made; anything else that is put is the latest valset.
\<close>

theorem Process_signs_only_when_due:
  "\<exists>t. snd (Process L E orch nonce h) = t @ h \<and>
     (latest_puts t \<or>
      (nonce \<noteq> 1 \<and>
       (\<exists>att digest u t'. t = u @ t' \<and> attested L t nonce att \<and> may_sign L (EvmAccount orch) t att \<and>
          latest_puts t' \<and> due L (EvmAccount orch) nonce t' att digest \<and>
          signs_and_puts (confirm_put L (EvmAccount orch) att) L E (EvmAccount orch) digest u)))"
  using Process_trace [of L E orch nonce h] unfolding processes_when_due_def acts_when_due_def
  by (metis append.left_neutral)

text \<open>
  C9: Every confirm the orchestrator puts on the DHT while it processes a nonce is accepted by the
  DHT's own validator for its key, so that honest confirms are never refused.
\<close>

theorem Process_puts_are_accepted:
  assumes "signing_laws L E (EvmAccount orch)"
  shows "\<exists>t. snd (Process L E orch nonce h) = t @ h \<and>
    list_all (\<lambda>kv. fst kv = GetLatestValsetKey \<or> dht_accepts L kv) (puts t)"
proof -
  obtain t where t: "snd (Process L E orch nonce h) = t @ h" "processes_when_due L E (EvmAccount orch) nonce t"
    using Process_trace by blast
  have latest: "list_all (\<lambda>kv. fst kv = GetLatestValsetKey \<or> dht_accepts L kv) (puts t')" if "latest_puts t'" for t'
    using that by (auto simp: latest_puts_def list_all_iff)
  have "list_all (\<lambda>kv. fst kv = GetLatestValsetKey \<or> dht_accepts L kv) (puts t)"
  proof (cases "latest_puts t")
    case False
    then obtain att digest u t' where p: "t = u @ t'" "latest_puts t'" "due L (EvmAccount orch) nonce t' att digest"
      "signs_and_puts (confirm_put L (EvmAccount orch) att) L E (EvmAccount orch) digest u"
      using t(2) unfolding processes_when_due_def acts_when_due_def by blast
    have "list_all (dht_accepts L) (puts u)"
      using p(4) confirm_put_accepted [OF assms due_length [OF assms p(3)]]
      unfolding signs_and_puts_def by (auto simp del: fst_conv)
    then show ?thesis using latest [OF p(2)] p(1) by (auto simp: list_all_iff)
  qed (rule latest)
  with t(1) show ?thesis by blast
qed

definition sample_orchestrator :: orchestrator where
  "sample_orchestrator = \<lparr>EvmAccount = replicate 20 0xAA, NilKeyStore = False, OrchRetrier = NewRetrier 2 5\<rparr>"

lemma ref_address_hex_law:
  assumes "length a = 20"
  shows "address_hex_law ref_lib a"
proof -
  have x: "AddressHex ref_lib a = CHR ''0'' # CHR ''x'' # hex_EncodeToString a" by (simp add: ref_lib_def)
  have strip: "strip0x (CHR ''0'' # CHR ''x'' # t) = t" for t by (simp add: strip0x_def)
  have "list_all (\<lambda>c. hex_val c \<noteq> None) (hex_EncodeToString a)"
    using set_hex_EncodeToString [of _ a] by (fastforce simp: list_all_iff)
  then have hex: "IsHexAddress ref_lib (AddressHex ref_lib a)"
    unfolding x by (simp add: ref_lib_def strip assms)
  have "HexToAddress ref_lib (AddressHex ref_lib a) = left_pad 20 (from_hex (hex_EncodeToString a))"
    unfolding x by (simp add: ref_lib_def from_hex_def strip strip0x_def take_2_hex)
  then have val: "HexToAddress ref_lib (AddressHex ref_lib a) = a" by (simp add: left_pad_def assms)
  have "cn c < 128 \<and> c \<noteq> CHR ''/'' \<and> c \<noteq> CHR '':''" if m: "c \<in> set (hex_EncodeToString a)" for c
  proof -
    obtain d where d: "d < 16" "c = digit_char d" using set_hex_EncodeToString [OF m] by blast
    then have "cn c < 128" using digit_char_ascii [of d] by simp
    moreover have "CHR ''/'' \<notin> set (hex_EncodeToString a)" "CHR '':'' \<notin> set (hex_EncodeToString a)"
      by (rule hex_EncodeToString_fresh; simp add: digit_val_def)+
    ultimately show ?thesis using m by blast
  qed
  then have "list_all (\<lambda>c. cn c < 128 \<and> c \<noteq> CHR ''/'' \<and> c \<noteq> CHR '':'') (AddressHex ref_lib a)"
    unfolding x list_all_iff by auto
  with hex val show ?thesis unfolding address_hex_law_def using x by simp
qed

lemma ref_signing_laws: "signing_laws ref_lib ref_env (EvmAccount sample_orchestrator)"
proof -
  let ?a = "EvmAccount sample_orchestrator"
  have a: "length ?a = 20" by (simp add: sample_orchestrator_def)
  have "length (left_pad 32 b) = 32" for b by (simp add: left_pad_def)
  then show ?thesis
    using a by (simp add: signing_laws_def ref_hash_hex_law ref_address_hex_law)
      (simp add: ref_lib_def ref_env_def be_bytes_def)
qed

theorem Process_puts_are_accepted_witness:
  "\<exists>t. snd (Process ref_lib ref_env sample_orchestrator 5 []) = t @ [] \<and>
    list_all (\<lambda>kv. fst kv = GetLatestValsetKey \<or> dht_accepts ref_lib kv) (puts t)"
  by (rule Process_puts_are_accepted [OF ref_signing_laws])

end
