(* ===== verification/OrchQueue.thy ===== *)
theory OrchQueue imports Orchestrator "HOL-Library.Multiset" begin

text \<open>
  The goroutines of \<open>Start\<close> in \<open>orchestrator/orchestrator.go\<close> as a step relation: the listener, the
  enqueuer of missing nonces, the processor, and the goroutines the processor starts to move
  failed nonces, over two bounded channels. What a goroutine computes between two channel
  operations is one step; its result is the one of the functions of the theory Orchestrator at some
  history. A send on a closed channel panics and ends the program.
\<close>

section \<open>State\<close>

text \<open>\<open>Holding n\<close>: the goroutine of the ticker has received \<open>n\<close> from the requeue queue.\<close>

datatype mover = Receiving | Holding u64

text \<open>The enqueuer first asks for the range; \<open>Sending ns\<close> has the nonces still to be sent.\<close>

datatype enqueuer = Asking | Sending "u64 list" | Stopped

text \<open>
  The fields from \<open>Arrived\<close> on are not part of the program, they record what happened: the nonces
  sent on the nonces queue in order, those that one of the two services sent, those that failed
  after their retries, those that were moved from the failed queue to the nonces queue, those that
  \<open>MaybeRequeue\<close> gave up, and how often a mover received from the failed queue when it was closed and
  empty, which gives the zero value.
\<close>

record queues =
  NoncesQueue :: "u64 list"
  FailedQueue :: "u64 list"
  NoncesClosed :: bool
  FailedClosed :: bool
  SignalClosed :: bool
  CtxDone :: bool
  ListenerDone :: bool
  ProcessorDone :: bool
  Enqueuer :: enqueuer
  Requeuers :: "u64 list"
  Movers :: "mover list"
  Processed :: "u64 list"
  Crashed :: bool
  Arrived :: "u64 list"
  Offered :: "u64 list"
  Failed :: "u64 list"
  Moved :: "u64 list"
  Discarded :: "u64 list"
  EmptyReceives :: nat

definition orch_start :: queues where
  "orch_start = \<lparr>NoncesQueue = [], FailedQueue = [], NoncesClosed = False, FailedClosed = False, SignalClosed = False,
     CtxDone = False, ListenerDone = False, ProcessorDone = False, Enqueuer = Asking, Requeuers = [], Movers = [],
     Processed = [], Crashed = False, Arrived = [], Offered = [], Failed = [], Moved = [], Discarded = [],
     EmptyReceives = 0\<rparr>"

text \<open>The nonces of \<open>EnqueueMissingEvents\<close>, from the latest down to the earliest.\<close>

definition missing_nonces :: "u64 \<Rightarrow> u64 \<Rightarrow> u64 list" where
  "missing_nonces latest earliest = map (\<lambda>i. latest - of_nat i) [0 ..< unat (latest - earliest + 1)]"

definition room :: "u64 list \<Rightarrow> bool" where
  "room q \<longleftrightarrow> length q < queueSize"

definition send_nonce :: "u64 \<Rightarrow> queues \<Rightarrow> queues" where
  "send_nonce n s = s\<lparr>NoncesQueue := NoncesQueue s @ [n], Arrived := Arrived s @ [n]\<rparr>"

definition offer :: "u64 \<Rightarrow> queues \<Rightarrow> queues" where
  "offer n s = (send_nonce n s)\<lparr>Offered := n # Offered s\<rparr>"

section \<open>Steps\<close>

text \<open>
  The listener may stop for an error of its own at any time, and panics on a result without the
  event it looks for. The enqueuer stops when its queries fail, when it has sent everything, or for
  the context or the signal. The processor starts a goroutine for \<open>MaybeRequeue\<close> when a nonce failed
  after its retries; every hour, if there is a failed nonce and room, it starts one that moves a
  nonce back. When the three services have ended, the deferred calls of \<open>Start\<close> close first the failed
  queue and then the nonces queue.
\<close>

inductive orch_step :: "lib \<Rightarrow> env \<Rightarrow> orchestrator \<Rightarrow> queues \<Rightarrow> queues \<Rightarrow> bool" for L E orch where
  cancel: "\<not> Crashed s \<Longrightarrow> orch_step L E orch s (s\<lparr>CtxDone := True\<rparr>)"
| listen: "\<not> Crashed s \<Longrightarrow> \<not> ListenerDone s \<Longrightarrow> room (NoncesQueue s) \<Longrightarrow> orch_step L E orch s (offer n s)"
| listen_stop: "\<not> Crashed s \<Longrightarrow> \<not> ListenerDone s \<Longrightarrow> orch_step L E orch s (s\<lparr>ListenerDone := True\<rparr>)"
| listen_panics: "\<not> Crashed s \<Longrightarrow> \<not> ListenerDone s \<Longrightarrow> mustGetEvent result event = Panic p \<Longrightarrow>
    orch_step L E orch s (s\<lparr>Crashed := True\<rparr>)"
| ask: "\<not> Crashed s \<Longrightarrow> Enqueuer s = Asking \<Longrightarrow> orch_step L E orch s (s\<lparr>Enqueuer := Sending (missing_nonces l e)\<rparr>)"
| ask_fails: "\<not> Crashed s \<Longrightarrow> Enqueuer s = Asking \<Longrightarrow> orch_step L E orch s (s\<lparr>Enqueuer := Stopped\<rparr>)"
| enqueue: "\<not> Crashed s \<Longrightarrow> Enqueuer s = Sending (n # ns) \<Longrightarrow> room (NoncesQueue s) \<Longrightarrow>
    orch_step L E orch s ((offer n s)\<lparr>Enqueuer := Sending ns\<rparr>)"
| enqueue_stop: "\<not> Crashed s \<Longrightarrow> Enqueuer s = Sending ns \<Longrightarrow> ns = [] \<or> CtxDone s \<or> SignalClosed s \<Longrightarrow>
    orch_step L E orch s (s\<lparr>Enqueuer := Stopped\<rparr>)"
| process_done: "\<not> Crashed s \<Longrightarrow> \<not> ProcessorDone s \<Longrightarrow> NoncesQueue s = n # ns \<Longrightarrow>
    fst (processNonce L E orch n h) = Ok False \<Longrightarrow>
    orch_step L E orch s (s\<lparr>NoncesQueue := ns, Processed := n # Processed s\<rparr>)"
| process_failed: "\<not> Crashed s \<Longrightarrow> \<not> ProcessorDone s \<Longrightarrow> NoncesQueue s = n # ns \<Longrightarrow>
    fst (processNonce L E orch n h) = Ok True \<Longrightarrow>
    orch_step L E orch s (s\<lparr>NoncesQueue := ns, Processed := n # Processed s, Requeuers := n # Requeuers s,
      Failed := n # Failed s\<rparr>)"
| process_panics: "\<not> Crashed s \<Longrightarrow> \<not> ProcessorDone s \<Longrightarrow> NoncesQueue s = n # ns \<Longrightarrow>
    fst (processNonce L E orch n h) = Panic p \<Longrightarrow> orch_step L E orch s (s\<lparr>Crashed := True\<rparr>)"
| tick: "\<not> Crashed s \<Longrightarrow> \<not> ProcessorDone s \<Longrightarrow> FailedQueue s \<noteq> [] \<Longrightarrow> room (NoncesQueue s) \<Longrightarrow>
    orch_step L E orch s (s\<lparr>Movers := Receiving # Movers s\<rparr>)"
| process_stop: "\<not> Crashed s \<Longrightarrow> \<not> ProcessorDone s \<Longrightarrow> CtxDone s \<Longrightarrow>
    orch_step L E orch s (s\<lparr>ProcessorDone := True, SignalClosed := True\<rparr>)"
| requeue: "\<not> Crashed s \<Longrightarrow> n \<in> set (Requeuers s) \<Longrightarrow> fst (MaybeRequeue E n h) = Ok True \<Longrightarrow>
    \<not> FailedClosed s \<Longrightarrow> room (FailedQueue s) \<Longrightarrow>
    orch_step L E orch s (s\<lparr>FailedQueue := FailedQueue s @ [n], Requeuers := remove1 n (Requeuers s)\<rparr>)"
| requeue_closed: "\<not> Crashed s \<Longrightarrow> n \<in> set (Requeuers s) \<Longrightarrow> fst (MaybeRequeue E n h) = Ok True \<Longrightarrow>
    FailedClosed s \<Longrightarrow> orch_step L E orch s (s\<lparr>Crashed := True\<rparr>)"
| discard: "\<not> Crashed s \<Longrightarrow> n \<in> set (Requeuers s) \<Longrightarrow> fst (MaybeRequeue E n h) = Ok False \<Longrightarrow>
    orch_step L E orch s (s\<lparr>Requeuers := remove1 n (Requeuers s), Discarded := n # Discarded s\<rparr>)"
| receive: "\<not> Crashed s \<Longrightarrow> Receiving \<in> set (Movers s) \<Longrightarrow> FailedQueue s = n # ns \<Longrightarrow>
    orch_step L E orch s (s\<lparr>FailedQueue := ns, Movers := Holding n # remove1 Receiving (Movers s)\<rparr>)"
| receive_closed: "\<not> Crashed s \<Longrightarrow> Receiving \<in> set (Movers s) \<Longrightarrow> FailedQueue s = [] \<Longrightarrow> FailedClosed s \<Longrightarrow>
    orch_step L E orch s (s\<lparr>Movers := Holding 0 # remove1 Receiving (Movers s), EmptyReceives := Suc (EmptyReceives s)\<rparr>)"
| move: "\<not> Crashed s \<Longrightarrow> Holding n \<in> set (Movers s) \<Longrightarrow> \<not> NoncesClosed s \<Longrightarrow> room (NoncesQueue s) \<Longrightarrow>
    orch_step L E orch s ((send_nonce n s)\<lparr>Movers := remove1 (Holding n) (Movers s), Moved := n # Moved s\<rparr>)"
| move_closed: "\<not> Crashed s \<Longrightarrow> Holding n \<in> set (Movers s) \<Longrightarrow> NoncesClosed s \<Longrightarrow>
    orch_step L E orch s (s\<lparr>Crashed := True\<rparr>)"
| close_failed: "\<not> Crashed s \<Longrightarrow> ListenerDone s \<Longrightarrow> ProcessorDone s \<Longrightarrow> Enqueuer s = Stopped \<Longrightarrow> \<not> FailedClosed s \<Longrightarrow>
    orch_step L E orch s (s\<lparr>FailedClosed := True\<rparr>)"
| close_nonces: "\<not> Crashed s \<Longrightarrow> FailedClosed s \<Longrightarrow> \<not> NoncesClosed s \<Longrightarrow>
    orch_step L E orch s (s\<lparr>NoncesClosed := True\<rparr>)"

inductive orch_reachable :: "lib \<Rightarrow> env \<Rightarrow> orchestrator \<Rightarrow> queues \<Rightarrow> bool" for L E orch where
  init: "orch_reachable L E orch orch_start"
| step: "orch_reachable L E orch s \<Longrightarrow> orch_step L E orch s s' \<Longrightarrow> orch_reachable L E orch s'"

inductive_cases orch_stepE: "orch_step L E orch s s'"

section \<open>Invariant\<close>

text \<open>
  The queues stay within their size; the nonces queue is first in, first out; no nonce is lost or made
  up: what arrived is what the services offered and what was moved back, and a failed nonce is
  on its way through \<open>MaybeRequeue\<close>, in the failed queue, with a mover, moved, or given up, but for the
  zeros that a closed queue gives; the channels close in order, when all three goroutines have
  ended.
\<close>

definition bounded :: "queues \<Rightarrow> bool" where
  "bounded s \<longleftrightarrow> length (NoncesQueue s) \<le> queueSize \<and> length (FailedQueue s) \<le> queueSize"

definition fifo :: "queues \<Rightarrow> bool" where
  "fifo s \<longleftrightarrow> Arrived s = rev (Processed s) @ NoncesQueue s"

definition ordered_stop :: "queues \<Rightarrow> bool" where
  "ordered_stop s \<longleftrightarrow> (SignalClosed s \<longleftrightarrow> ProcessorDone s) \<and> (ProcessorDone s \<longrightarrow> CtxDone s) \<and>
     (FailedClosed s \<longrightarrow> ListenerDone s \<and> ProcessorDone s \<and> Enqueuer s = Stopped) \<and>
     (NoncesClosed s \<longrightarrow> FailedClosed s) \<and> (EmptyReceives s \<noteq> 0 \<longrightarrow> FailedClosed s)"

fun held :: "mover list \<Rightarrow> u64 multiset" where
  "held [] = {#}"
| "held (Receiving # ms) = held ms"
| "held (Holding n # ms) = add_mset n (held ms)"

definition conserved :: "queues \<Rightarrow> bool" where
  "conserved s \<longleftrightarrow> mset (Arrived s) = mset (Offered s) + mset (Moved s) \<and>
     mset (Failed s) + replicate_mset (EmptyReceives s) 0 =
       mset (Requeuers s) + mset (FailedQueue s) + held (Movers s) + mset (Moved s) + mset (Discarded s) \<and>
     mset (Failed s) \<subseteq># mset (Processed s)"

definition only_offered :: "queues \<Rightarrow> bool" where
  "only_offered s \<longleftrightarrow> set (Processed s) \<subseteq> set (Offered s)"

text \<open>Why \<open>MaybeRequeue\<close> gives a nonce up: the latest nonce is not known, or too far from it.\<close>

definition given_up :: "env \<Rightarrow> u64 \<Rightarrow> bool" where
  "given_up E n \<longleftrightarrow> (\<exists>h. is_Err (app_latest_nonce E None h) \<or>
     (\<exists>latest. app_latest_nonce E None h = Ok latest \<and> 50 < latest \<and> unat n + 50 < unat latest))"

definition discarded_ok :: "env \<Rightarrow> queues \<Rightarrow> bool" where
  "discarded_ok E s \<longleftrightarrow> (\<forall>n \<in> set (Discarded s). given_up E n)"

lemmas queue_ops = send_nonce_def offer_def room_def

lemma held_remove_Receiving [simp]: "held (remove1 Receiving ms) = held ms"
  by (induction ms rule: held.induct) auto

lemma held_remove_Holding: "Holding n \<in> set ms \<Longrightarrow> held ms = add_mset n (held (remove1 (Holding n) ms))"
  by (induction ms rule: held.induct) auto

lemma mset_remove_add: "n \<in> set ns \<Longrightarrow> mset ns = add_mset n (mset (remove1 n ns))"
  by simp

lemma MaybeRequeue_gives_up:
  assumes "fst (MaybeRequeue E n h) = Ok False"
  shows "given_up E n"
proof (cases "app_latest_nonce E None h")
  case (Ok latest)
  then have l: "50 < latest" "n < latest - 50" using assms
    by (auto simp: MaybeRequeue_def QueryLatestAttestationNonce_def handle_def RequeueWindow_def split: if_splits)
  then have "unat n + 50 < unat latest" by (simp add: word_less_nat_alt unat_sub word_le_nat_alt)
  then show ?thesis using Ok l unfolding given_up_def by blast
qed (use assms in \<open>auto simp: given_up_def MaybeRequeue_def QueryLatestAttestationNonce_def handle_def is_Err_iff intro!: exI [of _ h]\<close>)

lemma bounded_step: "orch_step L E orch s s' \<Longrightarrow> bounded s \<Longrightarrow> bounded s'"
  by (erule orch_stepE) (simp_all add: bounded_def queue_ops)

lemma fifo_step: "orch_step L E orch s s' \<Longrightarrow> fifo s \<Longrightarrow> fifo s'"
  by (erule orch_stepE) (simp_all add: fifo_def queue_ops)

lemma ordered_stop_step: "orch_step L E orch s s' \<Longrightarrow> ordered_stop s \<Longrightarrow> ordered_stop s'"
  by (erule orch_stepE) (auto simp: ordered_stop_def queue_ops)

lemma discarded_ok_step: "orch_step L E orch s s' \<Longrightarrow> discarded_ok E s \<Longrightarrow> discarded_ok E s'"
  by (erule orch_stepE) (auto simp: discarded_ok_def queue_ops dest: MaybeRequeue_gives_up)

lemma conserved_step:
  assumes "orch_step L E orch s s'" and o: "conserved s"
  shows "conserved s'"
  using assms(1)
proof (cases rule: orch_step.cases)
  case (requeue n h)
  note mset_remove_add [OF requeue(3)]
  then show ?thesis using requeue o by (simp add: conserved_def)
next
  case (discard n h)
  note mset_remove_add [OF discard(3)]
  then show ?thesis using discard o by (simp add: conserved_def)
next
  case (move n)
  note held_remove_Holding [OF move(3)]
  then show ?thesis using move o by (simp add: conserved_def send_nonce_def)
qed (use o in \<open>auto simp: conserved_def queue_ops subset_mset.add_increasing2 intro: subset_mset.order_trans\<close>)

text \<open>While the processor runs, no zero has been received, so what arrived was offered.\<close>

lemma arrived_offered:
  assumes "conserved s" and "fifo s" and "only_offered s" and "EmptyReceives s = 0"
  shows "set (Arrived s) \<subseteq> set (Offered s)"
proof
  fix n assume "n \<in> set (Arrived s)"
  moreover have "set (Arrived s) = set (Offered s) \<union> set (Moved s)"
    using assms(1) unfolding conserved_def by (metis set_mset_mset set_mset_union)
  moreover have "n \<in> set (Offered s)" if "n \<in> set (Moved s)"
  proof -
    have "mset (Moved s) \<subseteq># mset (Failed s)" using assms(1,4) by (simp add: conserved_def)
    then have "n \<in># mset (Failed s)" using that by (meson mset_subset_eqD in_multiset_in_set)
    then have "n \<in># mset (Processed s)" using assms(1) unfolding conserved_def by (blast dest: mset_subset_eqD)
    then show ?thesis using assms(3) by (auto simp: only_offered_def)
  qed
  ultimately show "n \<in> set (Offered s)" by auto
qed

lemma only_offered_step:
  assumes "orch_step L E orch s s'" and inv: "only_offered s" "conserved s" "fifo s" "ordered_stop s"
  shows "only_offered s'"
proof -
  have "EmptyReceives s = 0" if "\<not> ProcessorDone s" using inv(4) that by (auto simp: ordered_stop_def)
  then have "n \<in> set (Offered s)" if "\<not> ProcessorDone s" "NoncesQueue s = n # ns" for n ns
    using arrived_offered [OF inv(2,3,1)] inv(3) that by (auto simp: fifo_def)
  then have *: "\<not> ProcessorDone s \<Longrightarrow> NoncesQueue s = n # ns \<Longrightarrow> n \<in> set (Offered s)" for n ns by blast
  from assms(1) show ?thesis
    by (cases rule: orch_step.cases) (use inv(1) * in \<open>auto simp: only_offered_def queue_ops\<close>)
qed

lemma orch_reachable_ok:
  "orch_reachable L E orch s \<Longrightarrow>
     bounded s \<and> fifo s \<and> ordered_stop s \<and> conserved s \<and> discarded_ok E s \<and> only_offered s"
proof (induction rule: orch_reachable.induct)
  case init
  then show ?case
    by (simp add: bounded_def fifo_def ordered_stop_def conserved_def discarded_ok_def only_offered_def orch_start_def)
next
  case (step s s')
  note * = step.hyps(2) step.IH
  then show ?case
    using bounded_step [OF *(1)] fifo_step [OF *(1)] ordered_stop_step [OF *(1)] conserved_step [OF *(1)]
      discarded_ok_step [OF *(1)] only_offered_step [OF *(1)] by blast
qed

section \<open>The order of missing nonces\<close>

fun enqueued :: "history \<Rightarrow> u64 list" where
  "enqueued [] = []"
| "enqueued (Local (Enqueued n) # h) = enqueued h @ [n]"
| "enqueued (e # h) = enqueued h"

lemma enqueued_append: "enqueued (s @ t) = enqueued t @ enqueued s"
  by (induction s rule: enqueued.induct) auto

fun enqueues :: "event \<Rightarrow> bool" where
  "enqueues (Local (Enqueued n)) = True"
| "enqueues e = False"

lemma enqueued_none: "\<forall>e \<in> set t. \<not> enqueues e \<Longrightarrow> enqueued t = []"
  by (induction t rule: enqueued.induct) auto

lemma enqueue_trace:
  "\<exists>t. snd (enqueue S n h) = t @ h \<and> (enqueued t = [n] \<or> enqueued t = [] \<and> fst (enqueue S n h) \<noteq> Ok ())"
  by (cases "next_ready S h") (auto simp: enqueue_def select_def intro: exI [of _ "[a]" for a] exI [of _ "[a, b]" for a b])

lemma enqueueMissing_loop_trace:
  "\<exists>t k. snd (enqueueMissing_loop S latest n i h) = t @ h \<and>
     enqueued t = take k (map (\<lambda>j. latest - (i + of_nat j)) [0 ..< n])"
proof (induction n arbitrary: i h)
  case (Suc n)
  let ?w = "Local (Wake WTick)"
  have one: "snd m = [?w] @ h \<Longrightarrow> \<exists>t k. snd m = t @ h \<and> enqueued t = take k (map (\<lambda>j. latest - (i + of_nat j)) [0 ..< Suc n])"
    for m :: "unit outcome \<times> history"
    by (intro exI [of _ "[?w]"] exI [of _ 0]) simp
  let ?m = "andThen (enqueue S (latest - i)) (\<lambda>_. enqueueMissing_loop S latest n (i + 1))"
  have rest: "\<exists>t k. snd (?m (?w # h)) = t @ h \<and> enqueued t = take k (map (\<lambda>j. latest - (i + of_nat j)) [0 ..< Suc n])"
  proof -
    obtain r h1 where e: "enqueue S (latest - i) (?w # h) = (r, h1)" by fastforce
    obtain t where t: "h1 = t @ ?w # h" "enqueued t = [latest - i] \<or> enqueued t = [] \<and> r \<noteq> Ok ()"
      using enqueue_trace [of S "latest - i" "?w # h"] e by auto
    have tail: "map (\<lambda>j. latest - (i + of_nat j)) [0 ..< Suc n] =
        (latest - i) # map (\<lambda>j. latest - (i + 1 + of_nat j)) [0 ..< n]"
      unfolding map_upt_Suc by (simp add: algebra_simps)
    show ?thesis
    proof (cases "r = Ok ()")
      case True
      obtain t' k where "snd (enqueueMissing_loop S latest n (i + 1) h1) = t' @ h1"
        "enqueued t' = take k (map (\<lambda>j. latest - (i + 1 + of_nat j)) [0 ..< n])" using Suc by blast
      then show ?thesis using e t True unfolding tail
        by (intro exI [of _ "t' @ t @ [?w]"] exI [of _ "Suc k"]) (simp add: andThen_Ok enqueued_append)
    next
      case False
      then have "snd (?m (?w # h)) = h1" using e by (cases r) (simp_all add: andThen_def)
      then show ?thesis using t unfolding tail
        by (intro exI [of _ "t @ [?w]"] exI [of _ "length (enqueued t)"]) (auto simp: enqueued_append)
    qed
  qed
  show ?case
    using rest one [of "(Ok (), ?w # h)"] one [of "(Err e, ?w # h)" for e]
    by (cases "next_ready S h") (simp_all only: enqueueMissing_loop.simps select_def andThen_observe ready.case
      ret_run throw_run snd_conv append.simps)
qed simp

lemma emits_deferred: "emits P m \<Longrightarrow> emits P c \<Longrightarrow> emits P (deferred m c)"
proof (rule emitsI)
  fix h assume m: "emits P m" and c: "emits P c"
  obtain r h1 where run: "m h = (r, h1)" by fastforce
  with m obtain t where t: "h1 = t @ h" "\<forall>e \<in> set t. P e" by (blast dest: emitsD)
  obtain s where s: "snd (c h1) = s @ h1" "\<forall>e \<in> set s. P e" using c unfolding emits_def by blast
  show "\<exists>t. snd (deferred m c h) = t @ h \<and> (\<forall>e \<in> set t. P e)"
    by (rule exI [of _ "if r = Blocked then t else s @ t"])
      (use run t s in \<open>auto simp: deferred_def split: outcome.split\<close>)
qed

lemma emits_WaitForHeight: "emits (\<lambda>e. \<not> enqueues e) (WaitForHeight E rounds height)"
proof -
  have q: "emits (\<lambda>e. \<not> enqueues e) (QueryHeight E)" unfolding QueryHeight_def by (intro emits_intros) simp
  have "emits (\<lambda>e. \<not> enqueues e) (waitForHeight_loop E height rounds)"
  proof (induction rounds)
    case (Suc k)
    have "emits (\<lambda>e. \<not> enqueues e) (case w of WCtx e \<Rightarrow> throw e | WTimeout \<Rightarrow> throw ErrCouldntReachSpecifiedHeight
        | WTick \<Rightarrow> andThen (QueryHeight E) (\<lambda>c. if height \<le> int64 c then ret () else waitForHeight_loop E height k))" for w
      using Suc q by (cases w) (auto intro!: emits_intros)
    then show ?case unfolding waitForHeight_loop.simps by (intro emits_intros) simp
  qed (simp only: waitForHeight_loop.simps emits_lift)
  then show ?thesis
    unfolding WaitForHeight_def SubscribeEvents_def UnsubscribeEvents_def
    by (intro emits_intros emits_deferred q; simp)
qed

text \<open>A schedule in which neither the signal nor the context ever gets in the way.\<close>

definition unhindered :: "schedule \<Rightarrow> bool" where
  "unhindered S \<longleftrightarrow> (\<forall>h. next_ready S h \<noteq> RSignal \<and> (\<forall>e. next_ready S h \<noteq> RCtx e))"

lemma enqueue_unhindered:
  assumes "unhindered S"
  shows "enqueue S n h = (Ok (), [Local (Enqueued n), Local (Wake WTick)] @ h)"
  using assms by (cases "next_ready S h") (auto simp: unhindered_def enqueue_def select_def)

lemma enqueueMissing_loop_all:
  assumes "unhindered S"
  shows "\<exists>t. enqueueMissing_loop S latest n i h = (Ok (), t @ h) \<and>
     enqueued t = map (\<lambda>j. latest - (i + of_nat j)) [0 ..< n]"
proof (induction n arbitrary: i h)
  case (Suc n)
  let ?h = "[Local (Enqueued (latest - i)), Local (Wake WTick)] @ Local (Wake WTick) # h"
  obtain t where t: "enqueueMissing_loop S latest n (i + 1) ?h = (Ok (), t @ ?h)"
    "enqueued t = map (\<lambda>j. latest - (i + 1 + of_nat j)) [0 ..< n]" using Suc by blast
  have "enqueueMissing_loop S latest (Suc n) i h = enqueueMissing_loop S latest n (i + 1) ?h"
    using assms by (cases "next_ready S h")
      (auto simp: unhindered_def select_def andThen_def enqueue_unhindered)
  moreover have "enqueued (t @ [Local (Enqueued (latest - i)), Local (Wake WTick), Local (Wake WTick)]) =
      map (\<lambda>j. latest - (i + of_nat j)) [0 ..< Suc n]"
    unfolding map_upt_Suc by (simp add: enqueued_append t(2) algebra_simps)
  ultimately show ?case using t(1) 
    by (intro exI [of _ "t @ [Local (Enqueued (latest - i)), Local (Wake WTick), Local (Wake WTick)]"]) simp
qed simp

lemma length_missing_nonces:
  assumes "e \<le> l" and "0 < e"
  shows "length (missing_nonces l e) = Suc (unat l - unat e)"
proof -
  have u: "unat (l - e) = unat l - unat e" using assms(1) by (simp add: unat_sub)
  have "l - e + 1 \<noteq> 0"
  proof
    assume "l - e + 1 = 0"
    then have "l - e = - 1" by (simp add: eq_neg_iff_add_eq_0)
    then have "unat l - unat e = unat (- 1 :: u64)" using u by simp
    moreover have "unat (- 1 :: u64) = 18446744073709551615" by (simp add: unsigned_minus_1_eq_mask mask_eq_exp_minus_1)
    moreover have "unat l < 18446744073709551616" using unat_u64_less [of l] by simp
    moreover have "0 < unat e" using assms(2) by (simp add: word_gt_0 unat_gt_0)
    ultimately show False by linarith
  qed
  then show ?thesis using u unatSuc [of "l - e"] by (simp add: missing_nonces_def add.commute)
qed

lemma set_missing_nonces:
  assumes "e \<le> l" and "0 < e"
  shows "set (missing_nonces l e) = {e .. l}"
proof (rule set_eqI)
  fix n
  have len: "unat (l - e + 1) = Suc (unat l - unat e)"
    using length_missing_nonces [OF assms] by (simp add: missing_nonces_def)
  have "n \<in> set (missing_nonces l e) \<longleftrightarrow> (\<exists>j \<le> unat l - unat e. n = l - of_nat j)"
    by (auto simp del: upt_Suc simp: missing_nonces_def len less_Suc_eq_le image_iff Bex_def)
  also have "\<dots> \<longleftrightarrow> n \<in> {e .. l}"
  proof
    assume "\<exists>j \<le> unat l - unat e. n = l - of_nat j"
    then obtain j where j: "j \<le> unat l - unat e" "n = l - of_nat j" by blast
    have "j < 18446744073709551616" using j(1) unat_u64_less [of l] by linarith
    then have u: "unat (of_nat j :: u64) = j" by (simp add: unat_of_nat)
    then have "unat n = unat l - j" using j by (subst j(2), subst unat_sub) (auto simp: word_le_nat_alt)
    then show "n \<in> {e .. l}" using j(1) assms by (auto simp: word_le_nat_alt)
  next
    assume n: "n \<in> {e .. l}"
    then have "n = l - of_nat (unat l - unat n)" by (simp add: of_nat_diff word_le_nat_alt)
    then show "\<exists>j \<le> unat l - unat e. n = l - of_nat j" using n
      by (intro exI [of _ "unat l - unat n"]) (auto simp: word_le_nat_alt)
  qed
  finally show "n \<in> set (missing_nonces l e) \<longleftrightarrow> n \<in> {e .. l}" .
qed

section \<open>A run that ends in a crash\<close>

text \<open>Nothing answers but the query of the latest nonce, so that nonce 5 fails and is to be requeued.\<close>

definition failing_env :: env where
  "failing_env = ref_env\<lparr>app_latest_nonce := (\<lambda>_ _. Ok 5)\<rparr>"

definition failing_orchestrator :: orchestrator where
  "failing_orchestrator = \<lparr>EvmAccount = replicate 20 7, NilKeyStore = False, OrchRetrier = NewRetrier 1 5\<rparr>"

lemma failing_nonce: "fst (processNonce ref_lib failing_env failing_orchestrator 5 []) = Ok True"
  by (simp add: processNonce_def Process_def QueryAttestationByNonce_def queryAttestation_def failing_env_def ref_env_def
      failing_orchestrator_def Retry_def NewRetrier_def meter_def handle_def andThen_def Let_def numeral_eq_Suc)

lemma failing_requeue: "fst (MaybeRequeue failing_env 5 []) = Ok True"
  by (simp add: MaybeRequeue_def QueryLatestAttestationNonce_def failing_env_def handle_def RequeueWindow_def)

text \<open>A service offers the nonce, it fails, everything stops, the channels are closed, then it is requeued.\<close>

definition failed_once :: queues where
  "failed_once = orch_start\<lparr>Processed := [5], Requeuers := [5], Arrived := [5], Offered := [5], Failed := [5]\<rparr>"

abbreviation reachable_failing :: "queues \<Rightarrow> bool" where
  "reachable_failing \<equiv> orch_reachable ref_lib failing_env failing_orchestrator"

lemma reach_failed_once: "reachable_failing failed_once"
proof -
  let ?s = "offer 5 orch_start"
  have "reachable_failing ?s"
    by (rule step [OF init listen]) (simp_all add: orch_start_def room_def queueSize_def)
  moreover have "orch_step ref_lib failing_env failing_orchestrator ?s
      (?s\<lparr>NoncesQueue := [], Processed := 5 # Processed ?s, Requeuers := 5 # Requeuers ?s, Failed := 5 # Failed ?s\<rparr>)"
    by (rule process_failed [OF _ _ _ failing_nonce]) (simp_all add: queue_ops orch_start_def)
  ultimately show ?thesis
    by (auto dest: orch_reachable.step simp: failed_once_def queue_ops orch_start_def)
qed

text \<open>The context is cancelled, the services end and the failed queue is closed.\<close>

lemma reach_shutdown:
  assumes "reachable_failing s" and "\<not> Crashed s" "\<not> ListenerDone s" "\<not> ProcessorDone s" "Enqueuer s = Asking" "\<not> FailedClosed s"
  shows "reachable_failing (s\<lparr>CtxDone := True, ListenerDone := True, Enqueuer := Stopped, ProcessorDone := True,
    SignalClosed := True, FailedClosed := True\<rparr>)"
proof -
  let ?s1 = "s\<lparr>CtxDone := True\<rparr>"
  let ?s2 = "?s1\<lparr>ListenerDone := True\<rparr>"
  let ?s3 = "?s2\<lparr>Enqueuer := Stopped\<rparr>"
  let ?s4 = "?s3\<lparr>ProcessorDone := True, SignalClosed := True\<rparr>"
  have "reachable_failing ?s1" by (rule step [OF assms(1) cancel]) (use assms in simp)
  then have "reachable_failing ?s2" by (rule step [OF _ listen_stop]) (use assms in simp_all)
  then have "reachable_failing ?s3" by (rule step [OF _ ask_fails]) (use assms in simp_all)
  then have "reachable_failing ?s4" by (rule step [OF _ process_stop]) (use assms in simp_all)
  then have "reachable_failing (?s4\<lparr>FailedClosed := True\<rparr>)" by (rule step [OF _ close_failed]) (use assms in simp_all)
  then show ?thesis by simp
qed

definition stopped_late :: queues where
  "stopped_late = failed_once\<lparr>CtxDone := True, ListenerDone := True, Enqueuer := Stopped, ProcessorDone := True,
     SignalClosed := True, FailedClosed := True, NoncesClosed := True\<rparr>"

lemma reach_stopped_late: "reachable_failing stopped_late"
proof -
  have "reachable_failing (failed_once\<lparr>CtxDone := True, ListenerDone := True, Enqueuer := Stopped, ProcessorDone := True,
      SignalClosed := True, FailedClosed := True\<rparr>)"
    by (rule reach_shutdown [OF reach_failed_once]) (simp_all add: failed_once_def orch_start_def)
  from step [OF this close_nonces] show ?thesis by (simp add: stopped_late_def failed_once_def orch_start_def)
qed

text \<open>Two movers were started for one failed nonce; one has it, the other still waits.\<close>

definition two_movers :: queues where
  "two_movers = failed_once\<lparr>Requeuers := [], Movers := [Holding 5, Receiving]\<rparr>"

lemma reach_two_movers: "reachable_failing two_movers"
proof -
  let ?s1 = "failed_once\<lparr>Requeuers := [], FailedQueue := [5]\<rparr>"
  note d = failed_once_def orch_start_def
  have "orch_step ref_lib failing_env failing_orchestrator failed_once
      (failed_once\<lparr>FailedQueue := FailedQueue failed_once @ [5], Requeuers := remove1 5 (Requeuers failed_once)\<rparr>)"
    by (rule requeue [OF _ _ failing_requeue]) (simp_all add: d room_def queueSize_def)
  then have "reachable_failing ?s1" using step [OF reach_failed_once] by (simp add: d)
  then have "reachable_failing (?s1\<lparr>Movers := [Receiving]\<rparr>)"
    by (auto dest: step [OF _ tick] simp: d room_def queueSize_def)
  then have "reachable_failing (?s1\<lparr>Movers := [Receiving, Receiving]\<rparr>)"
    by (auto dest: step [OF _ tick] simp: d room_def queueSize_def)
  then show ?thesis
    by (auto dest: step [OF _ receive [where n = 5 and ns = "[]"]] simp: d two_movers_def)
qed

section \<open>Properties\<close>

text \<open>
  C14: In every reachable state of the orchestrator's goroutines the two channels hold at most
  \<open>queueSize\<close> nonces, and the nonces queue is first in, first out. No nonce is lost, made up or counted
  twice: what was sent on the nonces queue is what the listener and the enqueuer offered and what
  was moved back from the failed queue; a nonce that failed after its retries has been
  processed, and is waiting in \<open>MaybeRequeue\<close>, in the failed queue, with a goroutine that moves it,
  moved back, or given up, each failure once; the only values from nowhere are the zeros that
  such goroutines get from the failed queue once it is closed. Whatever is processed was offered
  by a service. A nonce is given up only when the latest nonce cannot be had or is more than 50
  ahead. The failed queue is closed when all three services have ended, the processor only after
  the context, and the nonces queue after the failed queue.
\<close>

theorem orchestrator_queues:
  assumes "orch_reachable L E orch s"
  shows "length (NoncesQueue s) \<le> queueSize \<and> length (FailedQueue s) \<le> queueSize \<and>
    Arrived s = rev (Processed s) @ NoncesQueue s \<and>
    mset (Arrived s) = mset (Offered s) + mset (Moved s) \<and>
    mset (Failed s) + replicate_mset (EmptyReceives s) 0 =
      mset (Requeuers s) + mset (FailedQueue s) + held (Movers s) + mset (Moved s) + mset (Discarded s) \<and>
    mset (Failed s) \<subseteq># mset (Processed s) \<and> set (Processed s) \<subseteq> set (Offered s) \<and>
    (\<forall>n \<in> set (Discarded s). given_up E n) \<and>
    (SignalClosed s = ProcessorDone s) \<and> (\<not> ProcessorDone s \<or> CtxDone s) \<and>
    (\<not> FailedClosed s \<or> ListenerDone s \<and> ProcessorDone s \<and> Enqueuer s = Stopped) \<and>
    (FailedClosed s \<or> \<not> NoncesClosed s \<and> EmptyReceives s = 0)"
  using orch_reachable_ok [OF assms]
  unfolding bounded_def fifo_def ordered_stop_def only_offered_def conserved_def discarded_ok_def by blast

theorem orchestrator_queues_witness:
  "Arrived two_movers = rev (Processed two_movers) @ NoncesQueue two_movers \<and> Failed two_movers = [5] \<and>
   mset (Failed two_movers) = mset (FailedQueue two_movers) + held (Movers two_movers)"
  using orchestrator_queues [OF reach_two_movers] by (simp add: two_movers_def failed_once_def orch_start_def)

text \<open>
  In the moment between the two closings, a goroutine that still waits for a failed nonce gets zero
  and sends it on the nonces queue, where nothing that was ever offered is waiting.
\<close>

theorem shutdown_can_send_zero:
  "\<exists>s. reachable_failing s \<and> \<not> Crashed s \<and> NoncesQueue s = [0] \<and> set (Offered s) = {5}"
proof -
  note d = two_movers_def failed_once_def orch_start_def
  let ?s = "two_movers\<lparr>CtxDone := True, ListenerDone := True, Enqueuer := Stopped, ProcessorDone := True,
      SignalClosed := True, FailedClosed := True\<rparr>"
  have "reachable_failing ?s" by (rule reach_shutdown [OF reach_two_movers]) (simp_all add: d)
  from step [OF this receive_closed]
  have "reachable_failing (?s\<lparr>Movers := [Holding 0, Holding 5], EmptyReceives := 1\<rparr>)" by (simp add: d)
  from step [OF this move [where n = 0]] show ?thesis
    by (auto simp: d send_nonce_def room_def queueSize_def)
qed

text \<open>
  C33: An orderly shutdown can end in a crash: \<open>Start\<close> closes the channels when its three goroutines
  have ended, but the goroutines that requeue failed nonces are not waited for, and a send on a
  closed channel panics.
\<close>

theorem orchestrator_shutdown_can_crash:
  "\<exists>s s'. orch_reachable ref_lib failing_env failing_orchestrator s \<and> CtxDone s \<and> FailedClosed s \<and> NoncesClosed s \<and> \<not> Crashed s \<and>
     orch_step ref_lib failing_env failing_orchestrator s s' \<and> Crashed s'"
proof -
  have "orch_step ref_lib failing_env failing_orchestrator stopped_late (stopped_late\<lparr>Crashed := True\<rparr>)"
    by (rule requeue_closed [OF _ _ failing_requeue])
      (simp_all add: stopped_late_def failed_once_def orch_start_def)
  with reach_stopped_late show ?thesis
    by (intro exI [of _ stopped_late] exI [of _ "stopped_late\<lparr>Crashed := True\<rparr>"])
      (simp add: stopped_late_def failed_once_def orch_start_def)
qed

text \<open>
  \<open>EnqueueMissingEvents\<close> sends nonces only after the application gave the latest and the earliest
  one, and then a prefix of \<open>latest\<close>, \<open>latest - 1\<close>, ..., \<open>earliest\<close> in this order, however it ends.
\<close>

theorem EnqueueMissingEvents_order:
  "\<exists>t. snd (EnqueueMissingEvents E S rounds h) = t @ h \<and>
     (enqueued t = [] \<or>
      (\<exists>latest earliest k. App (LatestNonce None (Ok latest)) \<in> set t \<and> App (EarliestNonce (Ok earliest)) \<in> set t \<and>
         enqueued t = take k (missing_nonces latest earliest)))"
proof -
  obtain r h1 where w: "WaitForHeight E rounds 1 h = (r, h1)" by fastforce
  obtain t where t: "h1 = t @ h" "\<forall>e \<in> set t. \<not> enqueues e" using emitsD [OF emits_WaitForHeight w] by blast
  note n = enqueued_none [OF t(2)]
  show ?thesis
  proof (cases r)
    case (Ok u)
    let ?l = "App (LatestNonce None (app_latest_nonce E None h1))"
    show ?thesis
    proof (cases "app_latest_nonce E None h1")
      case latest: (Ok l)
      let ?e = "App (EarliestNonce (app_earliest_nonce E (?l # h1)))"
      show ?thesis
      proof (cases "app_earliest_nonce E (?l # h1)")
        case earliest: (Ok e)
        have "\<exists>t k. snd (enqueueMissing_loop S l (unat (l - e + 1)) 0 (?e # ?l # h1)) = t @ ?e # ?l # h1 \<and>
          enqueued t = take k (missing_nonces l e)"
          using enqueueMissing_loop_trace [of S l "unat (l - e + 1)" 0 "?e # ?l # h1"] by (simp add: missing_nonces_def)
        then obtain t' k where "snd (enqueueMissing_loop S l (unat (l - e + 1)) 0 (?e # ?l # h1)) = t' @ ?e # ?l # h1"
          "enqueued t' = take k (missing_nonces l e)" by blast
        then show ?thesis using w t(1) n Ok latest earliest
          by (intro exI [of _ "t' @ [?e, ?l] @ t"])
            (auto simp: EnqueueMissingEvents_def QueryLatestAttestationNonce_def QueryEarliestAttestationNonce_def
              andThen_def enqueued_append)
      qed (use w t(1) n Ok latest in \<open>auto intro!: exI [of _ "[?e, ?l] @ t"] simp: EnqueueMissingEvents_def
          QueryLatestAttestationNonce_def QueryEarliestAttestationNonce_def andThen_def\<close>)
    qed (use w t(1) n Ok in \<open>auto intro!: exI [of _ "?l # t"] simp: EnqueueMissingEvents_def
        QueryLatestAttestationNonce_def andThen_def\<close>)
  qed (use w t(1) n in \<open>auto intro!: exI [of _ t] simp: EnqueueMissingEvents_def andThen_def\<close>)
qed

text \<open>
  C35: \<open>EnqueueMissingEvents\<close> delivers: when the chain is there, the application gives a latest and an
  earliest nonce that are in order, and neither the signal nor the context gets in the way, it
  ends without an error and has sent every nonce from the earliest to the latest, each once, the
  latest first.
\<close>

theorem EnqueueMissingEvents_delivers:
  assumes "unhindered S" and "WaitForHeight E rounds 1 h = (Ok (), h1)"
    and "app_latest_nonce E None h1 = Ok l" and "app_earliest_nonce E (App (LatestNonce None (Ok l)) # h1) = Ok e"
    and "0 < e" and "e \<le> l"
  shows "\<exists>t. EnqueueMissingEvents E S rounds h = (Ok (), t @ h1) \<and> enqueued t = missing_nonces l e \<and>
    set (enqueued t) = {e .. l} \<and> length (enqueued t) = unat l - unat e + 1"
proof -
  let ?h = "App (EarliestNonce (Ok e)) # App (LatestNonce None (Ok l)) # h1"
  obtain t where t: "enqueueMissing_loop S l (unat (l - e + 1)) 0 ?h = (Ok (), t @ ?h)" "enqueued t = missing_nonces l e"
    using enqueueMissing_loop_all [OF assms(1), of l "unat (l - e + 1)" 0 ?h] unfolding missing_nonces_def by auto
  then have "EnqueueMissingEvents E S rounds h = (Ok (), (t @ [App (EarliestNonce (Ok e)), App (LatestNonce None (Ok l))]) @ h1)"
    using assms(2-4) by (simp add: EnqueueMissingEvents_def QueryLatestAttestationNonce_def QueryEarliestAttestationNonce_def andThen_def)
  then show ?thesis using t(2) set_missing_nonces [OF assms(6,5)] length_missing_nonces [OF assms(6,5)]
    by (intro exI [of _ "t @ [App (EarliestNonce (Ok e)), App (LatestNonce None (Ok l))]"]) (simp add: enqueued_append)
qed

text \<open>Nonces 3 to 5 at height 1.\<close>

definition history_env :: env where
  "history_env = ref_env\<lparr>tm_status := (\<lambda>_. Ok 1), app_latest_nonce := (\<lambda>_ _. Ok 5), app_earliest_nonce := (\<lambda>_. Ok 3)\<rparr>"

theorem EnqueueMissingEvents_delivers_witness:
  "\<exists>t h1. EnqueueMissingEvents history_env \<lparr>next_ready = \<lambda>_. RSend\<rparr> 0 [] = (Ok (), t @ h1) \<and> set (enqueued t) = {3 .. 5}"
proof -
  have w: "WaitForHeight history_env 0 1 [] = (Ok (), [Tm (Status (Ok 1))])"
    by (simp add: WaitForHeight_def QueryHeight_def history_env_def andThen_def int64_def)
  have "unhindered \<lparr>next_ready = \<lambda>_. RSend\<rparr>" by (simp add: unhindered_def)
  from EnqueueMissingEvents_delivers [OF this w, of 5 3] show ?thesis by (auto simp: history_env_def)
qed

end
