(* ===== verification/Relayer.thy ===== *)
theory Relayer imports Querier Rpc begin

text \<open>
  \<open>relayer/relayer.go\<close>: from an attestation to the transaction that relays it. The previous valset
  is looked for on the application, on the P2P network and on an archive node; the confirms are
  collected from the P2P network, saved, matched with the members and sent to the contract. Waiting
  for the transaction is in the theory RelayerTx, the main loop in RelayerLoop.
\<close>

section \<open>The relayer\<close>

record relayer =
  EVMClient :: evm_client
  RelRetrier :: retrier
  RetryTimeout :: u64
  IsBackupRelayer :: bool
  BackupRelayerWaitTime :: u64

section \<open>The previous valset\<close>

text \<open>\<open>vsHash.Hex()[2:]\<close> panics on a shorter string; the text of a hash is not.\<close>

definition QueryValsetFromP2PNetworkAndValidateIt :: "lib \<Rightarrow> env \<Rightarrow> valset prog" where
  "QueryValsetFromP2PNetworkAndValidateIt L E =
     andThen (GetLatestValset E) (\<lambda>latestValset.
     let vs = ToValset latestValset in
     andThen (lift (ValsetSignBytes L vs)) (\<lambda>vsHash.
     andThen (StateLastValidatorSetCheckpoint E) (\<lambda>contractHash.
     andThen (lift (if length (HashHex L vsHash) < 2 then Panic ''slice bounds out of range''
                    else hex_DecodeString (drop 2 (HashHex L vsHash)))) (\<lambda>bzVSHash.
     if bzVSHash \<noteq> contractHash then throw ErrValidatorSetMismatch else ret vs))))"

text \<open>The application may answer with a nil valset, the two fallbacks do not.\<close>

definition previousValsetOf :: "lib \<Rightarrow> env \<Rightarrow> u64 \<Rightarrow> valset option prog" where
  "previousValsetOf L E nonce =
     handle (QueryLastValsetBeforeNonce E nonce) ret
       (\<lambda>_. handle (QueryValsetFromP2PNetworkAndValidateIt L E) (\<lambda>vs. ret (Some vs))
         (\<lambda>_. andThen (QueryHeight E) (\<lambda>currentHeight.
              andThen (QueryRecursiveHistoricalLastValsetBeforeNonce L E nonce currentHeight) (\<lambda>vs. ret (Some vs)))))"

section \<open>Signatures\<close>

text \<open>\<open>sigsMap[c.EthAddress] = c.Signature\<close> for each confirm, later ones overwriting earlier ones.\<close>

fun sigsMap :: "('c \<Rightarrow> string) \<Rightarrow> ('c \<Rightarrow> string) \<Rightarrow> (string \<rightharpoonup> string) \<Rightarrow> 'c list \<Rightarrow> string \<rightharpoonup> string" where
  "sigsMap addr sig m [] = m"
| "sigsMap addr sig m (c # cs) = sigsMap addr sig (m(addr c \<mapsto> sig c)) cs"

text \<open>The zero value of \<open>wrapper.Signature\<close>.\<close>

definition zero_vrs :: vrs where
  "zero_vrs = \<lparr>SigV = 0, SigR = replicate 32 0, SigS = replicate 32 0\<rparr>"

fun match_loop :: "lib \<Rightarrow> (string \<rightharpoonup> string) \<Rightarrow> nat \<Rightarrow> bridge_validator list \<Rightarrow> vrs list \<Rightarrow> vrs list outcome" where
  "match_loop L signatures i [] sigs = Ok sigs"
| "match_loop L signatures i (val # members) sigs = (case signatures (EvmAddress val) of
       None \<Rightarrow> match_loop L signatures (Suc i) members sigs
     | Some sig \<Rightarrow>
         obind (SigToVRS L sig) (\<lambda>(v, r, s).
         match_loop L signatures (Suc i) members (sigs[i := \<lparr>SigV = v, SigR = r, SigS = s\<rparr>])))"

definition matchAttestationConfirmSigs :: "lib \<Rightarrow> (string \<rightharpoonup> string) \<Rightarrow> valset \<Rightarrow> vrs list outcome" where
  "matchAttestationConfirmSigs L signatures currentValset =
     match_loop L signatures 0 (Members currentValset) (replicate (length (Members currentValset)) zero_vrs)"

section \<open>The signature store\<close>

definition storeBatch :: "env \<Rightarrow> unit prog" where
  "storeBatch E = call (store_batch E) (\<lambda>r. Store (Batch r))"

definition storeHas :: "env \<Rightarrow> string \<Rightarrow> bool prog" where
  "storeHas E key = call (store_has E key) (\<lambda>r. Store (Has key r))"

definition batchPut :: "env \<Rightarrow> string \<Rightarrow> string \<Rightarrow> unit prog" where
  "batchPut E key value = call (store_put E key value) (\<lambda>r. Store (BatchPut key value r))"

definition batchCommit :: "env \<Rightarrow> unit prog" where
  "batchCommit E = call (store_commit E) (\<lambda>r. Store (BatchCommit r))"

text \<open>The body of the two loops over confirms.\<close>

definition saveConfirm :: "env \<Rightarrow> ('c \<Rightarrow> string) \<Rightarrow> ('c \<Rightarrow> string outcome) \<Rightarrow> 'c \<Rightarrow> unit prog" where
  "saveConfirm E key marshal confirm =
     andThen (lift (marshal confirm)) (\<lambda>v.
     andThen (storeHas E (key confirm)) (\<lambda>has.
     if \<not> has then batchPut E (key confirm) v else ret ()))"

definition SaveValsetSignaturesToStore :: "lib \<Rightarrow> env \<Rightarrow> valset \<Rightarrow> ValsetConfirm list \<Rightarrow> unit prog" where
  "SaveValsetSignaturesToStore L E att confirms =
     andThen (storeBatch E) (\<lambda>_.
     andThen (lift (ValsetSignBytes L att)) (\<lambda>signBytes.
     andThen (forEach confirms (saveConfirm E
       (\<lambda>confirm. NewKey L (GetValsetConfirmKey (Nonce att) (VcEthAddress confirm) (HashHex L signBytes)))
       MarshalValsetConfirm)) (\<lambda>_.
     batchCommit E)))"

definition SaveDataCommitmentSignaturesToStore ::
  "lib \<Rightarrow> env \<Rightarrow> data_commitment \<Rightarrow> string \<Rightarrow> DataCommitmentConfirm list \<Rightarrow> unit prog" where
  "SaveDataCommitmentSignaturesToStore L E att dataRootTupleRoot confirms =
     andThen (storeBatch E) (\<lambda>_.
     andThen (forEach confirms (saveConfirm E
       (\<lambda>confirm. NewKey L (GetDataCommitmentConfirmKey (DcNonce att) (DccEthAddress confirm) dataRootTupleRoot))
       MarshalDataCommitmentConfirm)) (\<lambda>_.
     batchCommit E))"

section \<open>Relaying\<close>

definition nil_deref :: "'a option \<Rightarrow> 'a prog" where
  "nil_deref x = (case x of None \<Rightarrow> panic ''invalid memory address or nil pointer dereference'' | Some y \<Rightarrow> ret y)"

definition Relayer_UpdateValidatorSet ::
  "lib \<Rightarrow> env \<Rightarrow> transact_opts \<Rightarrow> valset \<Rightarrow> u64 \<Rightarrow> ValsetConfirm list \<Rightarrow> evm_tx prog" where
  "Relayer_UpdateValidatorSet L E opts valset newThreshold confirms =
     andThen (if Nonce valset = 1 then ret valset
              else andThen (QueryLastValsetBeforeNonce E (Nonce valset)) nil_deref) (\<lambda>currentValset.
     andThen (lift (matchAttestationConfirmSigs L (sigsMap VcEthAddress VcSignature Map.empty confirms) currentValset)) (\<lambda>sigs.
     UpdateValidatorSet L E opts (Nonce valset) newThreshold currentValset valset sigs))"

definition Relayer_SubmitDataRootTupleRoot ::
  "lib \<Rightarrow> env \<Rightarrow> transact_opts \<Rightarrow> data_commitment \<Rightarrow> valset \<Rightarrow> string \<Rightarrow> DataCommitmentConfirm list \<Rightarrow> evm_tx prog" where
  "Relayer_SubmitDataRootTupleRoot L E opts dataCommitment currentValset commitment confirms =
     andThen (lift (matchAttestationConfirmSigs L (sigsMap DccEthAddress DccSignature Map.empty confirms) currentValset)) (\<lambda>sigs.
     SubmitDataRootTupleRoot L E opts (HexToHash L commitment) (DcNonce dataCommitment) currentValset sigs)"

text \<open>The cases of the type switch; \<open>rounds\<close> bounds the polls for confirms.\<close>

definition relayValset :: "lib \<Rightarrow> env \<Rightarrow> nat \<Rightarrow> transact_opts \<Rightarrow> valset option \<Rightarrow> valset \<Rightarrow> evm_tx prog" where
  "relayValset L E rounds opts previousValset att =
     andThen (lift (ValsetSignBytes L att)) (\<lambda>signBytes.
     andThen (nil_deref previousValset) (\<lambda>pv.
     andThen (QueryTwoThirdsValsetConfirms L E rounds (Nonce att) pv (HashHex L signBytes)) (\<lambda>confirms.
     andThen (SaveValsetSignaturesToStore L E att confirms) (\<lambda>_.
     Relayer_UpdateValidatorSet L E opts att (TwoThirdsThreshold L att) confirms))))"

definition relayDataCommitment ::
  "lib \<Rightarrow> env \<Rightarrow> nat \<Rightarrow> transact_opts \<Rightarrow> valset option \<Rightarrow> data_commitment \<Rightarrow> evm_tx prog" where
  "relayDataCommitment L E rounds opts previousValset att =
     andThen (QueryCommitment E (BeginBlock att) (EndBlock att)) (\<lambda>commitment.
     andThen (lift (DataCommitmentTupleRootSignBytes L (int64 (DcNonce att)) commitment)) (\<lambda>dataRootHash.
     andThen (nil_deref previousValset) (\<lambda>pv.
     andThen (QueryTwoThirdsDataCommitmentConfirms L E rounds pv (DcNonce att) (HashHex L dataRootHash)) (\<lambda>confirms.
     andThen (SaveDataCommitmentSignaturesToStore L E att (HashHex L dataRootHash) confirms) (\<lambda>_.
     Relayer_SubmitDataRootTupleRoot L E opts att pv (HexBytesString L commitment) confirms)))))"

definition ProcessAttestation :: "lib \<Rightarrow> env \<Rightarrow> nat \<Rightarrow> transact_opts \<Rightarrow> attestation \<Rightarrow> evm_tx prog" where
  "ProcessAttestation L E rounds opts attI =
     andThen (previousValsetOf L E (GetNonce attI)) (\<lambda>previousValset. case attI of
         AttValset att \<Rightarrow> relayValset L E rounds opts previousValset att
       | AttDataCommitment att \<Rightarrow> relayDataCommitment L E rounds opts previousValset att
       | AttOther n \<Rightarrow> throw (Wrap ErrUnknownAttestationType (FormatUint 10 (unat n))))"

end
