(* ===== verification/RelayTrace.thy ===== *)
theory RelayTrace imports Relayer begin

text \<open>
  What the relayer sends to the contract: the lemmas follow the code from matching signatures to
  \<open>ProcessAttestation\<close>; the properties are in the theory RelaySafety.
\<close>

section \<open>Matching signatures with members\<close>

fun traverse :: "('a \<Rightarrow> 'b outcome) \<Rightarrow> 'a list \<Rightarrow> 'b list outcome" where
  "traverse f [] = Ok []"
| "traverse f (x # xs) = obind (f x) (\<lambda>y. obind (traverse f xs) (\<lambda>ys. Ok (y # ys)))"

lemma traverse_Ok_iff: "traverse f xs = Ok ys \<longleftrightarrow> list_all2 (\<lambda>x y. f x = Ok y) xs ys"
  by (induction xs arbitrary: ys) (auto simp: obind_eq_Ok list_all2_Cons1)

text \<open>The signature the contract is given for a member: its confirm's, or zeros if it has none.\<close>

definition member_sig :: "lib \<Rightarrow> (string \<rightharpoonup> string) \<Rightarrow> bridge_validator \<Rightarrow> vrs outcome" where
  "member_sig L signatures val = (case signatures (EvmAddress val) of
       None \<Rightarrow> Ok zero_vrs
     | Some sig \<Rightarrow> obind (SigToVRS L sig) (\<lambda>(v, r, s). Ok \<lparr>SigV = v, SigR = r, SigS = s\<rparr>))"

lemma match_loop_traverse:
  "match_loop L m (length done) ms (done @ replicate (length ms) zero_vrs) =
     obind (traverse (member_sig L m) ms) (\<lambda>sigs. Ok (done @ sigs))"
proof (induction ms arbitrary: "done")
  case (Cons val ms)
  show ?case
  proof (cases "m (EvmAddress val)")
    case None
    then show ?thesis using Cons [of "done @ [zero_vrs]"] by (simp add: member_sig_def obind_assoc)
  next
    case (Some sig)
    show ?thesis
    proof (cases "SigToVRS L sig")
      case (Ok vrs)
      obtain v r s where vrs: "vrs = (v, r, s)" by (cases vrs) auto
      show ?thesis using Cons [of "done @ [\<lparr>SigV = v, SigR = r, SigS = s\<rparr>]"] Some Ok
        by (simp add: member_sig_def vrs list_update_append obind_assoc)
    qed (simp_all add: Some member_sig_def)
  qed
qed simp

lemma matchAttestationConfirmSigs_traverse:
  "matchAttestationConfirmSigs L m vs = traverse (member_sig L m) (Members vs)"
  using match_loop_traverse [of L m "[]" "Members vs"]
  by (cases "traverse (member_sig L m) (Members vs)") (simp_all add: matchAttestationConfirmSigs_def)

lemma sigsMap_map_of: "sigsMap addr sig m cs = m ++ map_of (rev (map (\<lambda>c. (addr c, sig c)) cs))"
  by (induction cs arbitrary: m) (simp_all add: map_add_assoc [symmetric])

section \<open>Saving confirms\<close>

text \<open>Both kinds of confirms are saved by the same loop; it needs of the encoding only that it succeeds.\<close>

fun store_event :: "event \<Rightarrow> bool" where
  "store_event (Store c) = True"
| "store_event e = False"

text \<open>
  What the loop does when it succeeds, oldest event first: for each confirm in turn, the store is asked
  for its key, and a confirm that the store does not have is put into the batch.
\<close>

fun save_events :: "('c \<Rightarrow> string) \<Rightarrow> ('c \<Rightarrow> string outcome) \<Rightarrow> 'c list \<Rightarrow> event list \<Rightarrow> bool" where
  "save_events key marshal [] es \<longleftrightarrow> es = []"
| "save_events key marshal (c # cs) es \<longleftrightarrow> (\<exists>rest. save_events key marshal cs rest \<and>
     (es = Store (Has (key c) (Ok True)) # rest \<or>
      (\<exists>v. marshal c = Ok v \<and>
         es = Store (Has (key c) (Ok False)) # Store (BatchPut (key c) v (Ok ())) # rest)))"

lemma save_events_Cons:
  "save_events key marshal [c] es \<Longrightarrow> save_events key marshal cs es' \<Longrightarrow> save_events key marshal (c # cs) (es @ es')"
  by auto

locale confirm_saver =
  fixes E :: env
    and key :: "'c \<Rightarrow> string"
    and marshal :: "'c \<Rightarrow> string outcome"
  assumes marshals: "is_Ok (marshal c)"
begin

lemma save_one:
  "\<exists>t. snd (saveConfirm E key marshal c h) = t @ h \<and> list_all store_event t \<and>
     (fst (saveConfirm E key marshal c h) = Ok () \<longrightarrow> save_events key marshal [c] (rev t))"
proof -
  obtain v where v: "marshal c = Ok v" using marshals [of c] by (auto simp: is_Ok_iff)
  let ?e = "Store (Has (key c) (store_has E (key c) h))"
  show ?thesis
  proof (cases "store_has E (key c) h")
    case (Ok has)
    let ?p = "Store (BatchPut (key c) v (store_put E (key c) v (?e # h)))"
    show ?thesis
      by (rule exI [of _ "if has then [?e] else [?p, ?e]"])
        (use Ok v in \<open>auto simp: saveConfirm_def storeHas_def batchPut_def andThen_def\<close>)
  qed (use v in \<open>auto intro!: exI [of _ "[?e]"] simp: saveConfirm_def storeHas_def andThen_def\<close>)
qed

lemma save_all:
  "\<exists>t. snd (forEach cs (saveConfirm E key marshal) h) = t @ h \<and> list_all store_event t \<and>
     (fst (forEach cs (saveConfirm E key marshal) h) = Ok () \<longrightarrow> save_events key marshal cs (rev t))"
proof (induction cs arbitrary: h)
  case (Cons c cs)
  obtain r h1 where m: "saveConfirm E key marshal c h = (r, h1)" by fastforce
  with save_one [of c h] obtain t where s: "h1 = t @ h" "list_all store_event t"
    "r = Ok () \<longrightarrow> save_events key marshal [c] (rev t)" by auto
  show ?case
  proof (cases r)
    case (Ok u)
    obtain t' where s': "snd (forEach cs (saveConfirm E key marshal) h1) = t' @ h1" "list_all store_event t'"
      "fst (forEach cs (saveConfirm E key marshal) h1) = Ok () \<longrightarrow> save_events key marshal cs (rev t')" using Cons by blast
    then have "fst (forEach cs (saveConfirm E key marshal) h1) = Ok () \<longrightarrow> save_events key marshal (c # cs) (rev (t' @ t))"
      using s(3) Ok save_events_Cons [of key marshal c "rev t" cs "rev t'"] by simp
    then show ?thesis using m s Ok s' by (intro exI [of _ "t' @ t"]) (simp add: andThen_Ok)
  qed (use m s in \<open>auto simp: andThen_def\<close>)
qed simp

end

interpretation vc_saver: confirm_saver E key MarshalValsetConfirm for E key
  by unfold_locales (simp add: MarshalValsetConfirm_def)

interpretation dcc_saver: confirm_saver E key MarshalDataCommitmentConfirm for E key
  by unfold_locales (simp add: MarshalDataCommitmentConfirm_def)

section \<open>The contract is written last\<close>

fun contract_write :: "event \<Rightarrow> bool" where
  "contract_write (Contract (ContractUpdate a b c d e f g r)) = True"
| "contract_write (Contract (ContractSubmit a b c d e f r)) = True"
| "contract_write (Contract (DeployWrappers a r)) = True"
| "contract_write (Contract (DeployProxy a b c r)) = True"
| "contract_write e = False"

text \<open>Events that reading and saving never cause.\<close>

fun mark :: "event \<Rightarrow> bool" where
  "mark (Local (Slept d)) = True"
| "mark (Local (Metric m)) = True"
| "mark (Local (Enqueued n)) = True"
| "mark e = contract_write e"

abbreviation free :: "event \<Rightarrow> bool" where
  "free e \<equiv> \<not> mark e"

lemma contract_write_mark: "contract_write e \<Longrightarrow> mark e"
  by (cases e rule: mark.cases) simp_all

lemma read_only_free: "read_only e \<Longrightarrow> free e"
  by (cases e rule: read_only.cases) simp_all

lemma emits_free_read: "emits read_only m \<Longrightarrow> emits free m"
  by (erule emits_mono) (rule read_only_free)

lemma emits_free_queries [emits_intros]:
  "emits free (QueryLastValsetBeforeNonce E n)"
  "emits free (QueryCommitment E a b)"
  "emits free (QueryHeight E)"
  "emits free (QueryLatestAttestationNonce E)"
  "emits free (QueryAttestationByNonce L E n)"
  by (rule emits_free_read, rule emits_intros)+

lemma emits_attestation [emits_intros]:
  "(\<And>v. emits P (f v)) \<Longrightarrow> (\<And>d. emits P (g d)) \<Longrightarrow> (\<And>n. emits P (k n)) \<Longrightarrow>
   emits P (case a of AttValset v \<Rightarrow> f v | AttDataCommitment d \<Rightarrow> g d | AttOther n \<Rightarrow> k n)"
  by (cases a) simp_all

lemma emits_lastValsetBefore [emits_intros]: "emits read_only (lastValsetBefore L E k n height)"
  by (induction k arbitrary: n)
    (simp_all only: lastValsetBefore.simps QueryRecursiveHistoricalAttestationByNonce_def,
     (intro emits_intros read_only.simps | assumption | simp)+)

lemma emits_collect [emits_intros]: "(\<And>m. emits P (get m)) \<Longrightarrow> emits P (collect get ms acc)"
  by (induction ms arbitrary: acc) (auto intro!: emits_intros)

lemma emits_pollConfirms [emits_intros]:
  assumes "emits P qf" "\<And>w. P (Local (Wake w))"
  shows "emits P (pollConfirms E te qf k)"
proof (induction k)
  case (Suc k)
  have "emits P (case w of WCtx e \<Rightarrow> throw e | WTimeout \<Rightarrow> throw te
      | WTick \<Rightarrow> andThen qf (\<lambda>v. if length v \<noteq> 0 then ret v else pollConfirms E te qf k))" for w
    using Suc assms(1) by (cases w) (auto intro!: emits_intros)
  then show ?case using assms(2) unfolding pollConfirms.simps by (intro emits_intros)
qed (simp only: pollConfirms.simps emits_lift)

lemma emits_queryTwoThirds [emits_intros]:
  "emits P qf \<Longrightarrow> (\<And>w. P (Local (Wake w))) \<Longrightarrow> emits P (queryTwoThirds E te qf k)"
  unfolding queryTwoThirds_def by (intro emits_intros)

lemma emits_GetConfirm [emits_intros]:
  "emits free (GetValsetConfirm E k)" "emits free (GetDataCommitmentConfirm E k)" "emits free (GetLatestValset E)"
  unfolding GetValsetConfirm_def GetDataCommitmentConfirm_def GetLatestValset_def
  by (intro emits_intros; simp)+

lemma emits_confirms [emits_intros]:
  "emits free (QueryTwoThirdsValsetConfirms L E k n vs d)"
  "emits free (QueryTwoThirdsDataCommitmentConfirms L E k vs n d)"
  unfolding QueryTwoThirdsValsetConfirms_def QueryTwoThirdsDataCommitmentConfirms_def queryFunc_def
    QueryValsetConfirms_def QueryDataCommitmentConfirms_def
  by (intro emits_intros; simp)+

lemma emits_nil_deref [emits_intros]: "emits P (nil_deref x)"
  unfolding nil_deref_def by (intro emits_intros)

lemma emits_previousValset [emits_intros]: "emits free (previousValsetOf L E n)"
  unfolding previousValsetOf_def QueryValsetFromP2PNetworkAndValidateIt_def Let_def
    StateLastValidatorSetCheckpoint_def QueryRecursiveHistoricalLastValsetBeforeNonce_def
  by (intro emits_intros emits_free_read; simp)

text \<open>
  A trace that writes to the contract at most once, as its last event, which is \<open>W\<close>, or which is
  related by \<open>K\<close> to the events before it.
\<close>

definition last_write :: "(event \<Rightarrow> bool) \<Rightarrow> history \<Rightarrow> bool" where
  "last_write W t \<longleftrightarrow> list_all free t \<or> (\<exists>w s. t = w # s \<and> contract_write w \<and> W w \<and> list_all free s)"

definition saves_then_writes :: "(event \<Rightarrow> history \<Rightarrow> bool) \<Rightarrow> history \<Rightarrow> bool" where
  "saves_then_writes K t \<longleftrightarrow> list_all free t \<or>
     (\<exists>w s. t = w # s \<and> contract_write w \<and> list_all free s \<and> K w s)"

definition traces :: "(history \<Rightarrow> bool) \<Rightarrow> 'a prog \<Rightarrow> bool" where
  "traces P m \<longleftrightarrow> (\<forall>h. \<exists>t. snd (m h) = t @ h \<and> P t)"

lemma emits_free_traces:
  "emits free m \<Longrightarrow> traces (last_write W) m" "emits free m \<Longrightarrow> traces (saves_then_writes K) m"
  unfolding emits_def traces_def last_write_def saves_then_writes_def list_all_iff by blast+

lemma traces_lift: "P [] \<Longrightarrow> (\<And>x. r = Ok x \<Longrightarrow> traces P (f x)) \<Longrightarrow> traces P (andThen (lift r) f)"
  by (cases r) (auto simp: traces_def andThen_def)

lemma traces_andThen:
  assumes "emits free m" and "\<And>x. traces P (f x)" and "\<And>t s. P t \<Longrightarrow> list_all free s \<Longrightarrow> P (t @ s)" and "P []"
  shows "traces P (andThen m f)"
  unfolding traces_def
proof
  fix h
  obtain r h1 where m: "m h = (r, h1)" by fastforce
  from emitsD [OF assms(1) m] obtain s where s: "h1 = s @ h" "list_all free s" by (auto simp: list_all_iff)
  show "\<exists>t. snd (andThen m f h) = t @ h \<and> P t"
  proof (cases r)
    case (Ok x)
    obtain t where "snd (f x h1) = t @ h1" "P t" using assms(2) unfolding traces_def by blast
    then show ?thesis using m s Ok assms(3) by (intro exI [of _ "t @ s"]) (simp add: andThen_Ok)
  qed (use m s assms(3) [OF assms(4)] in \<open>auto simp: andThen_def\<close>)
qed

lemma traces_last_andThen:
  "emits free m \<Longrightarrow> (\<And>x. traces (last_write W) (f x)) \<Longrightarrow> traces (last_write W) (andThen m f)"
  by (rule traces_andThen) (auto simp: last_write_def)

lemma traces_saves_andThen:
  assumes "emits free m" and "\<And>x. traces (saves_then_writes K) (f x)" and K: "\<And>w s b. K w s \<Longrightarrow> K w (s @ b)"
  shows "traces (saves_then_writes K) (andThen m f)"
proof (rule traces_andThen [OF assms(1,2)])
  fix t s assume "saves_then_writes K t" "list_all free s"
  then show "saves_then_writes K (t @ s)"
    using K by (cases t) (auto simp: saves_then_writes_def)
qed (simp add: saves_then_writes_def)

lemma traces_saves_lift:
  "(\<And>x. r = Ok x \<Longrightarrow> traces (saves_then_writes K) (f x)) \<Longrightarrow> traces (saves_then_writes K) (andThen (lift r) f)"
  by (rule traces_lift) (simp_all add: saves_then_writes_def)

lemma traces_last_lift:
  "(\<And>x. r = Ok x \<Longrightarrow> traces (last_write W) (f x)) \<Longrightarrow> traces (last_write W) (andThen (lift r) f)"
  by (rule traces_lift) (simp_all add: last_write_def)

lemma traces_call: "(\<And>r. contract_write (ev r)) \<Longrightarrow> (\<And>r. W (ev r)) \<Longrightarrow> traces (last_write W) (call f ev)"
  by (simp add: traces_def last_write_def)

text \<open>The signatures sent for the members, read from the confirms.\<close>

definition sent_sigs :: "lib \<Rightarrow> ('c \<Rightarrow> string) \<Rightarrow> ('c \<Rightarrow> string) \<Rightarrow> 'c list \<Rightarrow> valset \<Rightarrow> vrs list \<Rightarrow> bool" where
  "sent_sigs L addr sig cs vs sigs \<longleftrightarrow>
     list_all2 (\<lambda>m s. member_sig L (map_of (rev (map (\<lambda>c. (addr c, sig c)) cs))) m = Ok s) (Members vs) sigs"

lemma sent_sigs_iff:
  "matchAttestationConfirmSigs L (sigsMap addr sig Map.empty cs) vs = Ok sigs \<longleftrightarrow> sent_sigs L addr sig cs vs sigs"
  by (simp add: matchAttestationConfirmSigs_traverse traverse_Ok_iff sigsMap_map_of sent_sigs_def)

text \<open>The two writes of the relayer, with signatures of the given confirms.\<close>

definition updates_with :: "lib \<Rightarrow> valset \<Rightarrow> ValsetConfirm list \<Rightarrow> event \<Rightarrow> bool" where
  "updates_with L vs cs w \<longleftrightarrow> (\<exists>opts n th vh evals sigs r cur.
     w = Contract (ContractUpdate opts (int64 (Nonce vs)) n th vh evals sigs r) \<and>
     sent_sigs L VcEthAddress VcSignature cs cur sigs)"

definition submits_with :: "lib \<Rightarrow> data_commitment \<Rightarrow> string \<Rightarrow> DataCommitmentConfirm list \<Rightarrow> event \<Rightarrow> bool" where
  "submits_with L dc commitment cs w \<longleftrightarrow> (\<exists>opts evals sigs r pv.
     w = Contract (ContractSubmit opts (int64 (DcNonce dc)) (int64 (Nonce pv)) (HexToHash L commitment) evals sigs r) \<and>
     sent_sigs L DccEthAddress DccSignature cs pv sigs)"

lemma updates_traces: "traces (last_write (updates_with L vs cs)) (Relayer_UpdateValidatorSet L E opts vs th cs)"
  unfolding Relayer_UpdateValidatorSet_def UpdateValidatorSet_def Let_def
  by (rule traces_last_andThen, intro emits_if emits_intros, rule traces_last_lift, rule traces_last_lift,
      rule traces_last_lift, rule traces_call) (auto simp: updates_with_def sent_sigs_iff)

lemma submits_traces:
  "traces (last_write (submits_with L dc c cs)) (Relayer_SubmitDataRootTupleRoot L E opts dc vs c cs)"
  unfolding Relayer_SubmitDataRootTupleRoot_def SubmitDataRootTupleRoot_def Let_def
  by (rule traces_last_lift, rule traces_last_lift, rule traces_call) (auto simp: submits_with_def sent_sigs_iff)

text \<open>
  A batch that is saved is free of contract calls; if it succeeds, it was opened, filled and
  committed, and these are all its events.
\<close>

definition batch_trace :: "('c \<Rightarrow> string) \<Rightarrow> ('c \<Rightarrow> string outcome) \<Rightarrow> 'c list \<Rightarrow> history \<Rightarrow> bool" where
  "batch_trace key marshal cs t \<longleftrightarrow> (\<exists>es. save_events key marshal cs es \<and>
     t = Store (BatchCommit (Ok ())) # rev es @ [Store (Batch (Ok ()))])"

definition saved_batch :: "('c \<Rightarrow> string) \<Rightarrow> ('c \<Rightarrow> string outcome) \<Rightarrow> 'c list \<Rightarrow> history \<Rightarrow> bool" where
  "saved_batch key marshal cs t \<longleftrightarrow> (\<exists>u s b. batch_trace key marshal cs s \<and> t = u @ s @ b)"

lemma saved_batch_last: "batch_trace key marshal cs s \<Longrightarrow> saved_batch key marshal cs (u @ s)"
  unfolding saved_batch_def by (metis append_Nil2)

lemma saved_batch_older: "saved_batch key marshal cs t \<Longrightarrow> saved_batch key marshal cs (t @ b)"
  unfolding saved_batch_def by (metis append_assoc)

lemma saved_batch_newer: "saved_batch key marshal cs t \<Longrightarrow> saved_batch key marshal cs (u @ t)"
  unfolding saved_batch_def by (metis append_assoc)

definition commits :: "(history \<Rightarrow> bool) \<Rightarrow> unit prog \<Rightarrow> bool" where
  "commits Q m \<longleftrightarrow> (\<forall>h. \<exists>t. snd (m h) = t @ h \<and> list_all store_event t \<and> (fst (m h) = Ok () \<longrightarrow> Q t))"

lemma store_event_free: "store_event e \<Longrightarrow> free e"
  by (cases e rule: store_event.cases) simp_all

lemma commits_then_writes:
  assumes "commits Q m" and "traces (last_write W) n" and K: "\<And>w u s. W w \<Longrightarrow> Q s \<Longrightarrow> K w (u @ s)"
  shows "traces (saves_then_writes K) (andThen m (\<lambda>_. n))"
  unfolding traces_def
proof
  fix h
  obtain r h1 where m: "m h = (r, h1)" by fastforce
  with assms(1) obtain s where s: "h1 = s @ h" "list_all store_event s" "r = Ok () \<longrightarrow> Q s"
    unfolding commits_def by (metis fst_conv snd_conv)
  then have f: "list_all free s" by (auto simp: list_all_iff dest: store_event_free)
  show "\<exists>t. snd (andThen m (\<lambda>_. n) h) = t @ h \<and> saves_then_writes K t"
  proof (cases r)
    case (Ok x)
    obtain t where t: "snd (n h1) = t @ h1" "last_write W t" using assms(2) unfolding traces_def by blast
    have "saves_then_writes K (t @ s)"
      using t(2) s(3) f Ok K by (cases t) (auto simp: saves_then_writes_def last_write_def)
    then show ?thesis using m s Ok t by (intro exI [of _ "t @ s"]) (simp add: andThen_Ok)
  qed (use m s f in \<open>auto simp: andThen_def saves_then_writes_def\<close>)
qed

lemma commits_batch:
  assumes "\<And>h. \<exists>t. snd (m h) = t @ h \<and> list_all store_event t \<and> (fst (m h) = Ok () \<longrightarrow> R (rev t))"
  shows "commits (\<lambda>t. \<exists>es. R es \<and> t = Store (BatchCommit (Ok ())) # rev es @ [Store (Batch (Ok ()))])
    (andThen (storeBatch E) (\<lambda>_. andThen m (\<lambda>_. batchCommit E)))"
  unfolding commits_def
proof
  fix h
  let ?e = "Store (Batch (store_batch E h))" and ?p = "andThen (storeBatch E) (\<lambda>_. andThen m (\<lambda>_. batchCommit E))"
  show "\<exists>t. snd (?p h) = t @ h \<and> list_all store_event t \<and> (fst (?p h) = Ok () \<longrightarrow>
    (\<exists>es. R es \<and> t = Store (BatchCommit (Ok ())) # rev es @ [Store (Batch (Ok ()))]))"
  proof (cases "store_batch E h")
    case (Ok u)
    obtain r h1 where m: "m (?e # h) = (r, h1)" by fastforce
    with assms obtain t where t: "h1 = t @ ?e # h" "list_all store_event t" "r = Ok () \<longrightarrow> R (rev t)"
      by (metis fst_conv snd_conv)
    let ?c = "Store (BatchCommit (store_commit E h1))"
    show ?thesis
    proof (cases r)
      case r: (Ok v)
      show ?thesis
        by (rule exI [of _ "?c # t @ [?e]"])
          (use m t Ok r in \<open>auto simp: storeBatch_def batchCommit_def andThen_def intro!: exI [of _ "rev t"]\<close>)
    qed (use m t Ok in \<open>auto intro!: exI [of _ "t @ [?e]"] simp: storeBatch_def andThen_def\<close>)
  qed (auto intro!: exI [of _ "[?e]"] simp: storeBatch_def andThen_def)
qed

lemma andThen_assoc: "andThen (andThen m f) g = andThen m (\<lambda>x. andThen (f x) g)"
  by (rule ext) (simp add: andThen_def split: prod.splits outcome.splits)

abbreviation vc_store_key :: "lib \<Rightarrow> valset \<Rightarrow> hash \<Rightarrow> ValsetConfirm \<Rightarrow> string" where
  "vc_store_key L vs digest c \<equiv> NewKey L (GetValsetConfirmKey (Nonce vs) (VcEthAddress c) (HashHex L digest))"

abbreviation dcc_store_key :: "lib \<Rightarrow> data_commitment \<Rightarrow> string \<Rightarrow> DataCommitmentConfirm \<Rightarrow> string" where
  "dcc_store_key L dc root c \<equiv> NewKey L (GetDataCommitmentConfirmKey (DcNonce dc) (DccEthAddress c) root)"

lemma vc_saves:
  "commits (\<lambda>t. \<exists>digest. ValsetSignBytes L att = Ok digest \<and> batch_trace (vc_store_key L att digest) MarshalValsetConfirm cs t)
    (SaveValsetSignaturesToStore L E att cs)"
proof (cases "ValsetSignBytes L att")
  case (Ok digest)
  have "commits (batch_trace (vc_store_key L att digest) MarshalValsetConfirm cs)
    (andThen (storeBatch E) (\<lambda>_. andThen (forEach cs (saveConfirm E (vc_store_key L att digest) MarshalValsetConfirm)) (\<lambda>_. batchCommit E)))"
    unfolding batch_trace_def [abs_def] by (rule commits_batch) (rule vc_saver.save_all)
  moreover have "andThen (lift (Ok digest)) f = f digest" for f :: "hash \<Rightarrow> unit prog"
    by (rule ext) (simp add: andThen_def)
  ultimately show ?thesis using Ok by (simp add: SaveValsetSignaturesToStore_def)
qed (auto simp: SaveValsetSignaturesToStore_def commits_def andThen_def storeBatch_def split: prod.splits outcome.splits)

lemma dcc_saves:
  "commits (batch_trace (dcc_store_key L att root) MarshalDataCommitmentConfirm cs)
    (SaveDataCommitmentSignaturesToStore L E att root cs)"
  unfolding SaveDataCommitmentSignaturesToStore_def batch_trace_def [abs_def]
  by (rule commits_batch) (rule dcc_saver.save_all)

text \<open>What \<open>ProcessAttestation\<close> sends, and what it saved before.\<close>

fun sent_and_saved :: "lib \<Rightarrow> attestation \<Rightarrow> event \<Rightarrow> history \<Rightarrow> bool" where
  "sent_and_saved L (AttValset vs) w s \<longleftrightarrow> (\<exists>digest cs. ValsetSignBytes L vs = Ok digest \<and>
     updates_with L vs cs w \<and> saved_batch (vc_store_key L vs digest) MarshalValsetConfirm cs s)"
| "sent_and_saved L (AttDataCommitment dc) w s \<longleftrightarrow> (\<exists>commitment digest cs.
     DataCommitmentTupleRootSignBytes L (int64 (DcNonce dc)) commitment = Ok digest \<and>
     submits_with L dc (HexBytesString L commitment) cs w \<and>
     saved_batch (dcc_store_key L dc (HashHex L digest)) MarshalDataCommitmentConfirm cs s)"
| "sent_and_saved L (AttOther n) w s \<longleftrightarrow> False"

lemma sent_and_saved_append: "sent_and_saved L att w s \<Longrightarrow> sent_and_saved L att w (s @ b)"
  by (cases att) (auto dest: saved_batch_older)

lemma ProcessAttestation_traces: "traces (saves_then_writes (sent_and_saved L att)) (ProcessAttestation L E rounds opts att)"
proof -
  have vs: "traces (saves_then_writes (sent_and_saved L (AttValset v))) (relayValset L E rounds opts pv v)" for pv v
    unfolding relayValset_def
    by (rule traces_saves_lift, rule traces_saves_andThen, rule emits_intros, rule traces_saves_andThen,
        rule emits_intros, rule commits_then_writes [OF vc_saves updates_traces])
      (auto intro: saved_batch_older saved_batch_last)
  have dc: "traces (saves_then_writes (sent_and_saved L (AttDataCommitment v))) (relayDataCommitment L E rounds opts pv v)" for pv v
    unfolding relayDataCommitment_def
    by (rule traces_saves_andThen, rule emits_intros, rule traces_saves_lift, rule traces_saves_andThen,
        rule emits_intros, rule traces_saves_andThen,
        rule emits_intros, rule commits_then_writes [OF dcc_saves submits_traces])
      (auto intro: saved_batch_older saved_batch_last)
  show ?thesis
    unfolding ProcessAttestation_def
  proof (rule traces_saves_andThen [OF emits_previousValset])
    show "traces (saves_then_writes (sent_and_saved L att)) (case att of AttValset v \<Rightarrow> relayValset L E rounds opts pv v
       | AttDataCommitment d \<Rightarrow> relayDataCommitment L E rounds opts pv d
       | AttOther n \<Rightarrow> throw (Wrap ErrUnknownAttestationType (FormatUint 10 (unat n))))" for pv
      using vs dc by (cases att) (simp_all add: emits_free_traces del: sent_and_saved.simps)
  qed (rule sent_and_saved_append)
qed

section \<open>What a success has done\<close>

text \<open>The confirms a poll returned hold the threshold of the valset and are the DHT's answers.\<close>

definition quorum :: "lib \<Rightarrow> history \<Rightarrow> valset \<Rightarrow> (bridge_validator \<Rightarrow> string) \<Rightarrow> (string \<Rightarrow> 'c outcome) \<Rightarrow>
    ('c \<Rightarrow> string) \<Rightarrow> 'c list \<Rightarrow> bool" where
  "quorum L t vs key unmarshal addr cs \<longleftrightarrow>
     TwoThirdsThreshold L vs \<le> signed_power (Querier.vals vs) 0 (map addr cs) \<and>
     (\<exists>found. cs = somes found \<and> list_all2 (lookup_answer t key unmarshal) (Members vs) found)"

lemma quorum_mono: "quorum L t vs key un addr cs \<Longrightarrow> set t \<subseteq> set t' \<Longrightarrow> quorum L t' vs key un addr cs"
  unfolding quorum_def by (auto elim!: lookup_answer_mono list_all2_mono)

lemma QueryTwoThirdsDataCommitmentConfirms_quorum:
  assumes "QueryTwoThirdsDataCommitmentConfirms L E k vs n root h = (Ok cs, h')"
  shows "quorum L h' vs (\<lambda>m. GetDataCommitmentConfirmKey n (EvmAddress m) root) UnmarshalDataCommitmentConfirm DccEthAddress cs"
proof -
  from assms obtain h0 where "cs \<noteq> []"
    and q: "queryFunc L vs DccEthAddress (QueryDataCommitmentConfirms E vs n root) h0 = (Ok cs, h')"
    unfolding QueryTwoThirdsDataCommitmentConfirms_def by (blast dest: queryTwoThirds_Ok)
  from queryFunc_Ok [OF q this(1)] obtain t found where t: "h' = t @ h0" "cs = somes found"
    "list_all2 (lookup_answer t (\<lambda>m. GetDataCommitmentConfirmKey n (EvmAddress m) root) UnmarshalDataCommitmentConfirm) (Members vs) found"
    "TwoThirdsThreshold L vs \<le> signed_power (Querier.vals vs) 0 (map DccEthAddress cs)"
    unfolding QueryDataCommitmentConfirms_def by (auto dest!: dcc_lookup.collect_answers)
  then show ?thesis unfolding quorum_def by (auto elim!: lookup_answer_mono list_all2_mono)
qed

lemma QueryTwoThirdsValsetConfirms_quorum:
  assumes "QueryTwoThirdsValsetConfirms L E k n vs d h = (Ok cs, h')"
  shows "quorum L h' vs (\<lambda>m. GetValsetConfirmKey n (EvmAddress m) d) UnmarshalValsetConfirm VcEthAddress cs"
proof -
  from assms obtain h0 where "cs \<noteq> []"
    and q: "queryFunc L vs VcEthAddress (QueryValsetConfirms E n vs d) h0 = (Ok cs, h')"
    unfolding QueryTwoThirdsValsetConfirms_def by (blast dest: queryTwoThirds_Ok)
  from queryFunc_Ok [OF q this(1)] obtain t found where t: "h' = t @ h0" "cs = somes found"
    "list_all2 (lookup_answer t (\<lambda>m. GetValsetConfirmKey n (EvmAddress m) d) UnmarshalValsetConfirm) (Members vs) found"
    "TwoThirdsThreshold L vs \<le> signed_power (Querier.vals vs) 0 (map VcEthAddress cs)"
    unfolding QueryValsetConfirms_def by (auto dest!: vc_lookup.collect_answers)
  then show ?thesis unfolding quorum_def by (auto elim!: lookup_answer_mono list_all2_mono)
qed

lemma commits_Ok:
  assumes "commits Q m" and "m h = (Ok (), h')"
  obtains t where "h' = t @ h" and "Q t"
  using assms unfolding commits_def by (metis fst_conv snd_conv)

lemma relayDataCommitment_Ok:
  assumes "relayDataCommitment L E rounds opts pvo dc h = (Ok tx, h')"
  obtains pv commitment digest cs vals sigs t where "pvo = Some pv"
    and "h' = Contract (ContractSubmit opts (int64 (DcNonce dc)) (int64 (Nonce pv))
      (HexToHash L (HexBytesString L commitment)) vals sigs (Ok tx)) # t"
    and "set h \<subseteq> set t" and "Tm (Commitment (BeginBlock dc) (EndBlock dc) (Ok commitment)) \<in> set t"
    and "DataCommitmentTupleRootSignBytes L (int64 (DcNonce dc)) commitment = Ok digest"
    and "quorum L t pv (\<lambda>m. GetDataCommitmentConfirmKey (DcNonce dc) (EvmAddress m) (HashHex L digest))
      UnmarshalDataCommitmentConfirm DccEthAddress cs"
    and "ethValset L pv = Ok vals" and "sent_sigs L DccEthAddress DccSignature cs pv sigs"
    and "saved_batch (dcc_store_key L dc (HashHex L digest)) MarshalDataCommitmentConfirm cs t"
proof -
  from assms obtain commitment h1 digest pv cs h2 h3 sigs vals where
    c: "QueryCommitment E (BeginBlock dc) (EndBlock dc) h = (Ok commitment, h1)"
    and d: "DataCommitmentTupleRootSignBytes L (int64 (DcNonce dc)) commitment = Ok digest"
    and pv: "pvo = Some pv"
    and q: "QueryTwoThirdsDataCommitmentConfirms L E rounds pv (DcNonce dc) (HashHex L digest) h1 = (Ok cs, h2)"
    and s: "SaveDataCommitmentSignaturesToStore L E dc (HashHex L digest) cs h2 = (Ok (), h3)"
    and m: "sent_sigs L DccEthAddress DccSignature cs pv sigs" and v: "ethValset L pv = Ok vals"
    and w: "h' = Contract (ContractSubmit opts (int64 (DcNonce dc)) (int64 (Nonce pv))
      (HexToHash L (HexBytesString L commitment)) vals sigs (Ok tx)) # h3"
    unfolding relayDataCommitment_def nil_deref_def Relayer_SubmitDataRootTupleRoot_def SubmitDataRootTupleRoot_def
    by (auto simp: andThen_eq_Ok sent_sigs_iff split: option.splits)
  have h1: "h1 = Tm (Commitment (BeginBlock dc) (EndBlock dc) (Ok commitment)) # h"
    using c by (auto simp: QueryCommitment_def)
  have e2: "set h1 \<subseteq> set h2" using emits_extends [OF emits_confirms(2) q] .
  obtain s3 where e3: "h3 = s3 @ h2" "batch_trace (dcc_store_key L dc (HashHex L digest)) MarshalDataCommitmentConfirm cs s3"
    using commits_Ok [OF dcc_saves s] .
  show thesis
  proof (rule that [OF pv w _ _ d _ v m])
    show "quorum L h3 pv (\<lambda>m. GetDataCommitmentConfirmKey (DcNonce dc) (EvmAddress m) (HashHex L digest))
      UnmarshalDataCommitmentConfirm DccEthAddress cs"
      using QueryTwoThirdsDataCommitmentConfirms_quorum [OF q] by (rule quorum_mono) (simp add: e3(1))
    show "saved_batch (dcc_store_key L dc (HashHex L digest)) MarshalDataCommitmentConfirm cs h3"
      using saved_batch_last [OF e3(2), of "[]"] e3(1) saved_batch_older by simp
  qed (use h1 e2 e3(1) in auto)
qed

lemma UpdateValidatorSet_Ok:
  assumes "UpdateValidatorSet L E opts n th cur new sigs h = (Ok tx, h')"
  shows "\<exists>evals vh. ethValset L cur = Ok evals \<and> ValsetHash L new = Ok vh \<and>
    h' = Contract (ContractUpdate opts (int64 n) (if Nonce new = 1 then 0 else int64 (Nonce cur)) (int64 th) vh evals sigs (Ok tx)) # h"
proof -
  have "int64 (if Nonce new = 1 then 0 else Nonce cur) = (if Nonce new = 1 then 0 else int64 (Nonce cur))"
    by (simp add: int64_def)
  then show ?thesis using assms by (auto simp: UpdateValidatorSet_def Let_def andThen_eq_Ok)
qed

lemma Relayer_UpdateValidatorSet_Ok:
  assumes "Relayer_UpdateValidatorSet L E opts vs th cs h = (Ok tx, h')"
  shows "\<exists>cur h1 sigs.
    (if Nonce vs = 1 then ret vs else andThen (QueryLastValsetBeforeNonce E (Nonce vs)) nil_deref) h = (Ok cur, h1) \<and>
    sent_sigs L VcEthAddress VcSignature cs cur sigs \<and> UpdateValidatorSet L E opts (Nonce vs) th cur vs sigs h1 = (Ok tx, h')"
  using assms [unfolded Relayer_UpdateValidatorSet_def]
  by (elim andThen_OkE) (metis fst_conv lift_run sent_sigs_iff snd_conv)

lemma current_valset:
  assumes "(if Nonce vs = 1 then ret vs else andThen (QueryLastValsetBeforeNonce E (Nonce vs)) nil_deref) h = (Ok cur, h1)"
  shows "set h \<subseteq> set h1 \<and> (if Nonce vs = 1 then cur = vs else App (ValsetBefore None (Nonce vs) (Ok (Some cur))) \<in> set h1)"
proof (cases "Nonce vs = 1")
  case False
  then have "app_valset_before E None (Nonce vs) h = Ok (Some cur)"
    "h1 = App (ValsetBefore None (Nonce vs) (Ok (Some cur))) # h"
    using assms by (auto simp: andThen_eq_Ok QueryLastValsetBeforeNonce_def nil_deref_def split: option.splits)
  then show ?thesis using False by auto
qed (use assms in simp)

lemma current_valset_extends:
  assumes "(if Nonce vs = 1 then ret vs else andThen (QueryLastValsetBeforeNonce E (Nonce vs)) nil_deref) h = (Ok cur, h1)"
  shows "\<exists>u. h1 = u @ h"
  using assms by (auto simp: andThen_eq_Ok QueryLastValsetBeforeNonce_def nil_deref_def split: if_splits option.splits)

lemma relayValset_steps:
  assumes "relayValset L E rounds opts pvo vs h = (Ok tx, h')"
  shows "\<exists>pv. pvo = Some pv \<and> (\<exists>digest cs h1 h2. ValsetSignBytes L vs = Ok digest \<and>
    QueryTwoThirdsValsetConfirms L E rounds (Nonce vs) pv (HashHex L digest) h = (Ok cs, h1) \<and>
    SaveValsetSignaturesToStore L E vs cs h1 = (Ok (), h2) \<and>
    Relayer_UpdateValidatorSet L E opts vs (TwoThirdsThreshold L vs) cs h2 = (Ok tx, h'))"
proof (cases pvo)
  case (Some pv)
  show ?thesis
    using assms [unfolded relayValset_def Some nil_deref_def option.case] Some
    by (elim andThen_OkE) (clarsimp; blast)
qed (use assms in \<open>auto simp: relayValset_def nil_deref_def andThen_eq_Ok\<close>)

lemma relayValset_Ok:
  assumes "relayValset L E rounds opts pvo vs h = (Ok tx, h')"
  obtains pv cur digest cs evals sigs vh t where "pvo = Some pv"
    and "h' = Contract (ContractUpdate opts (int64 (Nonce vs)) (if Nonce vs = 1 then 0 else int64 (Nonce cur))
      (int64 (TwoThirdsThreshold L vs)) vh evals sigs (Ok tx)) # t"
    and "set h \<subseteq> set t" and "ValsetSignBytes L vs = Ok digest" and "ValsetHash L vs = Ok vh"
    and "if Nonce vs = 1 then cur = vs else App (ValsetBefore None (Nonce vs) (Ok (Some cur))) \<in> set t"
    and "quorum L t pv (\<lambda>m. GetValsetConfirmKey (Nonce vs) (EvmAddress m) (HashHex L digest))
      UnmarshalValsetConfirm VcEthAddress cs"
    and "ethValset L cur = Ok evals" and "sent_sigs L VcEthAddress VcSignature cs cur sigs"
    and "saved_batch (vc_store_key L vs digest) MarshalValsetConfirm cs t"
proof -
  obtain pv where pv: "pvo = Some pv" and "\<exists>digest cs h1 h2. ValsetSignBytes L vs = Ok digest \<and>
    QueryTwoThirdsValsetConfirms L E rounds (Nonce vs) pv (HashHex L digest) h = (Ok cs, h1) \<and>
    SaveValsetSignaturesToStore L E vs cs h1 = (Ok (), h2) \<and>
    Relayer_UpdateValidatorSet L E opts vs (TwoThirdsThreshold L vs) cs h2 = (Ok tx, h')"
    using relayValset_steps [OF assms] by blast
  then obtain digest cs h1 h2 where d: "ValsetSignBytes L vs = Ok digest"
    and q: "QueryTwoThirdsValsetConfirms L E rounds (Nonce vs) pv (HashHex L digest) h = (Ok cs, h1)"
    and s: "SaveValsetSignaturesToStore L E vs cs h1 = (Ok (), h2)"
    and r: "Relayer_UpdateValidatorSet L E opts vs (TwoThirdsThreshold L vs) cs h2 = (Ok tx, h')" by blast
  obtain cur h3 sigs where
    cur: "(if Nonce vs = 1 then ret vs else andThen (QueryLastValsetBeforeNonce E (Nonce vs)) nil_deref) h2 = (Ok cur, h3)"
    and m: "sent_sigs L VcEthAddress VcSignature cs cur sigs"
    and upd: "UpdateValidatorSet L E opts (Nonce vs) (TwoThirdsThreshold L vs) cur vs sigs h3 = (Ok tx, h')"
    using Relayer_UpdateValidatorSet_Ok [OF r] by blast
  obtain evals vh where v: "ethValset L cur = Ok evals" and vh: "ValsetHash L vs = Ok vh"
    and w: "h' = Contract (ContractUpdate opts (int64 (Nonce vs)) (if Nonce vs = 1 then 0 else int64 (Nonce cur))
      (int64 (TwoThirdsThreshold L vs)) vh evals sigs (Ok tx)) # h3"
    using UpdateValidatorSet_Ok [OF upd] by blast
  have e2: "set h \<subseteq> set h1" using emits_extends [OF emits_confirms(1) q] .
  obtain s2 where e3: "h2 = s2 @ h1" "batch_trace (vc_store_key L vs digest) MarshalValsetConfirm cs s2"
    using commits_Ok [OF vc_saves s] d by auto
  obtain u where u: "h3 = u @ h2" using current_valset_extends [OF cur] ..
  have c: "set h2 \<subseteq> set h3" "if Nonce vs = 1 then cur = vs else App (ValsetBefore None (Nonce vs) (Ok (Some cur))) \<in> set h3"
    using current_valset [OF cur] by blast+
  show thesis
  proof (rule that [OF pv w _ d vh c(2) _ v m])
    show "quorum L h3 pv (\<lambda>m. GetValsetConfirmKey (Nonce vs) (EvmAddress m) (HashHex L digest))
      UnmarshalValsetConfirm VcEthAddress cs"
      using QueryTwoThirdsValsetConfirms_quorum [OF q] by (rule quorum_mono) (auto simp: e3(1) u)
    show "saved_batch (vc_store_key L vs digest) MarshalValsetConfirm cs h3"
      using saved_batch_older [OF saved_batch_last [OF e3(2), of u], of h1] e3(1) u by simp
  qed (use e2 e3 c(1) in auto)
qed

text \<open>
  Where the previous valset came from: the application's answer; or the P2P network, its digest
  being the contract's checkpoint; or the last valset before the nonce in an archive.
\<close>

definition checkpointed :: "lib \<Rightarrow> history \<Rightarrow> valset \<Rightarrow> bool" where
  "checkpointed L t vs \<longleftrightarrow> (\<exists>checkpoint digest. Contract (StateCheckpoint (Ok checkpoint)) \<in> set t \<and>
     ValsetSignBytes L vs = Ok digest \<and> hex_DecodeString (drop 2 (HashHex L digest)) = Ok checkpoint)"

definition valset_source :: "lib \<Rightarrow> history \<Rightarrow> u64 \<Rightarrow> valset \<Rightarrow> bool" where
  "valset_source L t n vs \<longleftrightarrow>
     App (ValsetBefore None n (Ok (Some vs))) \<in> set t \<or> checkpointed L t vs \<or>
     (\<exists>m. answered L t m (Some (AttValset vs)) \<and>
        (\<forall>k. m < k \<and> k \<le> n - 1 \<longrightarrow> (\<exists>a. answered L t k a \<and> \<not> is_valset a)))"

lemma valset_source_mono:
  assumes "valset_source L t n vs" and "set t \<subseteq> set t'"
  shows "valset_source L t' n vs"
proof -
  have a: "answered L t k a \<Longrightarrow> answered L t' k a" for k a using answered_mono assms(2) by blast
  have "checkpointed L t vs \<Longrightarrow> checkpointed L t' vs" using assms(2) unfolding checkpointed_def by blast
  then show ?thesis using assms a unfolding valset_source_def by (metis subsetD)
qed

lemma QueryValsetFromP2P_Ok:
  "QueryValsetFromP2PNetworkAndValidateIt L E h = (Ok vs, h') \<Longrightarrow> checkpointed L h' vs"
  unfolding QueryValsetFromP2PNetworkAndValidateIt_def StateLastValidatorSetCheckpoint_def checkpointed_def Let_def
  by (fastforce simp: andThen_eq_Ok split: if_splits)

lemma previousValsetOf_Ok:
  assumes "previousValsetOf L E n h = (Ok (Some vs), h')"
  shows "valset_source L h' n vs"
  using assms unfolding previousValsetOf_def handle_eq_Ok andThen_eq_Ok ret_run throw_run
proof (elim exE disjE conjE; clarsimp)
  fix h1 assume "QueryLastValsetBeforeNonce E n h = (Ok (Some vs), h')"
  then show ?thesis by (auto simp: QueryLastValsetBeforeNonce_def valset_source_def)
next
  fix h1 assume "QueryValsetFromP2PNetworkAndValidateIt L E h1 = (Ok vs, h')"
  then show ?thesis by (auto simp: valset_source_def dest: QueryValsetFromP2P_Ok)
next
  fix c h2 assume "QueryRecursiveHistoricalLastValsetBeforeNonce L E n c h2 = (Ok vs, h')"
  then show ?thesis
    unfolding QueryRecursiveHistoricalLastValsetBeforeNonce_def valset_source_def
    by (blast dest: lastValsetBefore_Ok)
qed

end
