(* ===== verification/RelaySafety.thy ===== *)
theory RelaySafety imports RelayTrace begin

text \<open>
  The properties of \<open>ProcessAttestation\<close>: what is sent to the contract, with which quorum and after
  what. A small network on which it succeeds provides the witnesses.
\<close>

section \<open>A small network with a relayer\<close>

text \<open>One member, whose valid signature the DHT has, and a contract that accepts; for witnesses.\<close>

definition relay_lib :: lib where
  "relay_lib = ref_lib\<lparr>IsHexAddress := (\<lambda>_. True)\<rparr>"

definition relay_sig :: string where
  "relay_sig = hex_EncodeToString (replicate 32 7 @ replicate 31 0 @ [9, 1])"

definition relay_vc :: ValsetConfirm where
  "relay_vc = \<lparr>VcEthAddress = ''0xaa'', VcSignature = relay_sig\<rparr>"

definition relay_dcc :: DataCommitmentConfirm where
  "relay_dcc = \<lparr>DccSignature = relay_sig, DccEthAddress = ''0xaa''\<rparr>"

definition relay_env :: "string \<Rightarrow> env" where
  "relay_env record = ref_env\<lparr>dht_get := (\<lambda>_ _. Ok record), app_valset_before := (\<lambda>_ _ _. Ok (Some one_member)),
     tm_commitment := (\<lambda>_ _ _. Ok (replicate 32 1)),
     contract_submit := (\<lambda>_ _ _ _ _ _ _. Ok sample_tx), contract_update := (\<lambda>_ _ _ _ _ _ _ _. Ok sample_tx)\<rparr>"

lemma relay_sig_splits: "SigToVRS relay_lib relay_sig = Ok (28, replicate 32 7, replicate 31 0 @ [9])"
proof -
  let ?b = "replicate 32 7 @ replicate 31 0 @ [9, 1] :: bytes"
  have law: "hash_hex_law relay_lib" using ref_hash_hex_law by (simp add: hash_hex_law_def relay_lib_def)
  have v: "be_value (replicate k 0 @ [9]) = 9" for k
    by (induction k) (simp_all add: be_value_Cons)
  have s: "\<not> str_le MalleabilityThreshold (HashHex relay_lib (replicate 31 0 @ [9]))"
    "HashHex relay_lib (replicate 31 0 @ [9]) \<noteq> ZeroSValue"
    using s_bounds [OF law, of "replicate 31 0 @ [9]"] v [of 31] by (simp_all add: secp256k1_n_def)
  have f: "FromHex relay_lib (ToLower relay_sig) = ?b" by (simp add: relay_lib_def ref_lib_def relay_sig_def)
  have "length ?b = 65" "?b ! 64 = 1" "BytesToHash relay_lib (take 32 ?b) = replicate 32 7"
    "BytesToHash relay_lib (take 32 (drop 32 ?b)) = replicate 31 0 @ [9]"
    using law by (simp_all add: nth_append hash_hex_law_def)
  then show ?thesis using s unfolding SigToVRS_cases Let_def f by simp
qed

lemma relay_unmarshal:
  "UnmarshalValsetConfirm (print (vc_json relay_vc)) = Ok relay_vc"
  "UnmarshalDataCommitmentConfirm (print (dcc_json relay_dcc)) = Ok relay_dcc"
proof -
  have "valid_utf8 ''0xaa''" by (simp add: valid_utf8_ascii)
  then show "UnmarshalValsetConfirm (print (vc_json relay_vc)) = Ok relay_vc"
    "UnmarshalDataCommitmentConfirm (print (dcc_json relay_dcc)) = Ok relay_dcc"
    using Unmarshal_Marshal_vc [of relay_vc] Unmarshal_Marshal_dcc [of relay_dcc] hex_ascii
    by (simp_all add: MarshalValsetConfirm_def MarshalDataCommitmentConfirm_def vc_utf8_def dcc_utf8_def
        relay_vc_def relay_dcc_def relay_sig_def)
qed

lemma relay_threshold: "TwoThirdsThreshold relay_lib one_member \<le> signed_power (Querier.vals one_member) 0 [''0xaa'']"
  using one_power by (simp add: relay_lib_def)

lemma relay_vcs:
  "\<exists>h'. QueryTwoThirdsValsetConfirms relay_lib (relay_env (print (vc_json relay_vc))) k n one_member d h = (Ok [relay_vc], h')"
proof -
  let ?E = "relay_env (print (vc_json relay_vc))"
  have "dht_get ?E k h = Ok (print (vc_json relay_vc))" for k h by (simp add: relay_env_def)
  then have "\<exists>h'. QueryValsetConfirms ?E n one_member d h = (Ok [relay_vc], h')"
    by (simp add: QueryValsetConfirms_def one_member_def handle_def GetValsetConfirm_run relay_unmarshal)
  then show ?thesis using relay_threshold
    by (auto simp: QueryTwoThirdsValsetConfirms_def queryTwoThirds_def queryFunc_def andThen_def relay_vc_def)
qed

lemma relay_dccs:
  "\<exists>h'. QueryTwoThirdsDataCommitmentConfirms relay_lib (relay_env (print (dcc_json relay_dcc))) k one_member n d h = (Ok [relay_dcc], h')"
proof -
  let ?E = "relay_env (print (dcc_json relay_dcc))"
  have "dht_get ?E k h = Ok (print (dcc_json relay_dcc))" for k h by (simp add: relay_env_def)
  then have "\<exists>h'. QueryDataCommitmentConfirms ?E one_member n d h = (Ok [relay_dcc], h')"
    by (simp add: QueryDataCommitmentConfirms_def one_member_def handle_def GetDataCommitmentConfirm_run relay_unmarshal)
  then show ?thesis using relay_threshold
    by (auto simp: QueryTwoThirdsDataCommitmentConfirms_def queryTwoThirds_def queryFunc_def andThen_def relay_dcc_def)
qed

lemma relay_saves:
  "\<exists>h'. SaveValsetSignaturesToStore relay_lib (relay_env v) vs [c1] h = (Ok (), h')"
  "\<exists>h'. SaveDataCommitmentSignaturesToStore relay_lib (relay_env v) dc r [c2] h = (Ok (), h')"
  by (simp_all add: SaveValsetSignaturesToStore_def SaveDataCommitmentSignaturesToStore_def storeBatch_def
      saveConfirm_def storeHas_def batchPut_def batchCommit_def andThen_def relay_env_def ref_env_def
      MarshalValsetConfirm_def MarshalDataCommitmentConfirm_def relay_lib_def ref_lib_def)

lemma relay_matches:
  "\<exists>sigs. matchAttestationConfirmSigs relay_lib (sigsMap VcEthAddress VcSignature Map.empty [relay_vc]) one_member = Ok sigs"
  "\<exists>sigs. matchAttestationConfirmSigs relay_lib (sigsMap DccEthAddress DccSignature Map.empty [relay_dcc]) one_member = Ok sigs"
  by (simp_all add: matchAttestationConfirmSigs_def one_member_def relay_vc_def relay_dcc_def relay_sig_splits)

lemma relay_ethValset: "\<exists>vals. ethValset relay_lib one_member = Ok vals"
  by (simp add: ethValset_def one_member_def relay_lib_def)

text \<open>Sequencing on a run that is known to succeed.\<close>

lemma andThen_is_Ok: "\<exists>h'. m h = (Ok x, h') \<Longrightarrow> (\<And>h'. is_Ok (fst (f x h'))) \<Longrightarrow> is_Ok (fst (andThen m f h))"
  by (auto simp: andThen_Ok)

lemma relay_previous: "\<exists>h'. previousValsetOf L (relay_env v) n h = (Ok (Some one_member), h')"
  by (simp add: previousValsetOf_def QueryLastValsetBeforeNonce_def relay_env_def handle_def)

definition relayed_dc :: data_commitment where
  "relayed_dc = \<lparr>DcNonce = 5, BeginBlock = 1, EndBlock = 9\<rparr>"

lemma relay_dc_succeeds:
  "is_Ok (fst (ProcessAttestation relay_lib (relay_env (print (dcc_json relay_dcc))) 1 sample_opts (AttDataCommitment relayed_dc) []))"
proof -
  let ?E = "relay_env (print (dcc_json relay_dcc))"
  obtain digest where d: "DataCommitmentTupleRootSignBytes relay_lib (int64 5) (replicate 32 1) = Ok digest"
    by (simp add: DataCommitmentTupleRootSignBytes_def relay_lib_def ref_lib_def)
  obtain sigs where s: "matchAttestationConfirmSigs relay_lib (sigsMap DccEthAddress DccSignature Map.empty [relay_dcc]) one_member = Ok sigs"
    using relay_matches by blast
  obtain evals where v: "ethValset relay_lib one_member = Ok evals" using relay_ethValset by blast
  have w: "is_Ok (fst (Relayer_SubmitDataRootTupleRoot relay_lib ?E sample_opts relayed_dc one_member c [relay_dcc] h))" for c h
    using s v by (simp add: Relayer_SubmitDataRootTupleRoot_def SubmitDataRootTupleRoot_def andThen_def relay_env_def)
  show ?thesis
    unfolding ProcessAttestation_def relayDataCommitment_def
    by (rule andThen_is_Ok, rule relay_previous, simp only: attestation.case,
        rule andThen_is_Ok [of _ _ "replicate 32 1"], simp add: QueryCommitment_def relay_env_def,
        rule andThen_is_Ok [of _ _ digest], simp add: d relayed_dc_def,
        rule andThen_is_Ok [of _ _ one_member], simp add: nil_deref_def,
        rule andThen_is_Ok, rule relay_dccs, rule andThen_is_Ok [of _ _ "()"], rule relay_saves(2), rule w)
qed

lemma relay_vs_succeeds:
  "is_Ok (fst (ProcessAttestation relay_lib (relay_env (print (vc_json relay_vc))) 1 sample_opts (AttValset sample_valset) []))"
proof -
  let ?E = "relay_env (print (vc_json relay_vc))"
  obtain digest where d: "ValsetSignBytes relay_lib sample_valset = Ok digest" by (simp add: relay_lib_def ref_lib_def)
  obtain sigs where s: "matchAttestationConfirmSigs relay_lib (sigsMap VcEthAddress VcSignature Map.empty [relay_vc]) one_member = Ok sigs"
    using relay_matches by blast
  obtain evals where v: "ethValset relay_lib one_member = Ok evals" using relay_ethValset by blast
  obtain vh where h: "ValsetHash relay_lib sample_valset = Ok vh" by (simp add: relay_lib_def ref_lib_def)
  have n: "Nonce sample_valset \<noteq> 1" by (simp add: sample_valset_def)
  have w: "is_Ok (fst (Relayer_UpdateValidatorSet relay_lib ?E sample_opts sample_valset th [relay_vc] h))" for th h
    using s v h n by (simp add: Relayer_UpdateValidatorSet_def QueryLastValsetBeforeNonce_def nil_deref_def
        UpdateValidatorSet_def andThen_def relay_env_def Let_def)
  show ?thesis
    unfolding ProcessAttestation_def relayValset_def
    by (rule andThen_is_Ok, rule relay_previous, simp only: attestation.case,
        rule andThen_is_Ok [of _ _ digest], simp add: d,
        rule andThen_is_Ok [of _ _ one_member], simp add: nil_deref_def,
        rule andThen_is_Ok, rule relay_vcs, rule andThen_is_Ok [of _ _ "()"], rule relay_saves(1), rule w)
qed

section \<open>Properties\<close>

text \<open>
  C2: A successful \<open>ProcessAttestation\<close> of a data commitment ends with the contract call, and this
  is what came before it. The previous valset \<open>pv\<close> is the application's answer, which is trusted; or
  one whose digest is the contract's checkpoint; or the archive's last valset before the nonce. The
  confirms are those the DHT returned for the members of \<open>pv\<close> under the digest of the commitment
  that tendermint computed for the block range, and their signers hold at least the threshold. Of
  these very confirms, in their order, each was looked up in the store and, where the store did not
  have it, put into a batch, which was then committed. The contract gets the members of \<open>pv\<close> in
  order, each with the signature of its confirm or zeros.
\<close>

theorem relayed_data_commitment_has_quorum:
  assumes "ProcessAttestation L E rounds opts (AttDataCommitment dc) h = (Ok tx, h')"
  shows "\<exists>pv commitment digest cs evals sigs t.
    h' = Contract (ContractSubmit opts (int64 (DcNonce dc)) (int64 (Nonce pv))
      (HexToHash L (HexBytesString L commitment)) evals sigs (Ok tx)) # t \<and>
    valset_source L t (DcNonce dc) pv \<and>
    Tm (Commitment (BeginBlock dc) (EndBlock dc) (Ok commitment)) \<in> set t \<and>
    DataCommitmentTupleRootSignBytes L (int64 (DcNonce dc)) commitment = Ok digest \<and>
    quorum L t pv (\<lambda>m. GetDataCommitmentConfirmKey (DcNonce dc) (EvmAddress m) (HashHex L digest))
      UnmarshalDataCommitmentConfirm DccEthAddress cs \<and>
    ethValset L pv = Ok evals \<and> sent_sigs L DccEthAddress DccSignature cs pv sigs \<and>
    saved_batch (dcc_store_key L dc (HashHex L digest)) MarshalDataCommitmentConfirm cs t"
proof -
  obtain pvo h1 where p: "previousValsetOf L E (DcNonce dc) h = (Ok pvo, h1)"
    and r: "relayDataCommitment L E rounds opts pvo dc h1 = (Ok tx, h')"
    using assms unfolding ProcessAttestation_def by (elim andThen_OkE) simp
  from relayDataCommitment_Ok [OF r] obtain pv commitment digest cs evals sigs t where *: "pvo = Some pv"
    "h' = Contract (ContractSubmit opts (int64 (DcNonce dc)) (int64 (Nonce pv))
      (HexToHash L (HexBytesString L commitment)) evals sigs (Ok tx)) # t"
    "set h1 \<subseteq> set t" "Tm (Commitment (BeginBlock dc) (EndBlock dc) (Ok commitment)) \<in> set t"
    "DataCommitmentTupleRootSignBytes L (int64 (DcNonce dc)) commitment = Ok digest"
    "quorum L t pv (\<lambda>m. GetDataCommitmentConfirmKey (DcNonce dc) (EvmAddress m) (HashHex L digest))
      UnmarshalDataCommitmentConfirm DccEthAddress cs"
    "ethValset L pv = Ok evals" "sent_sigs L DccEthAddress DccSignature cs pv sigs"
    "saved_batch (dcc_store_key L dc (HashHex L digest)) MarshalDataCommitmentConfirm cs t" .
  have "valset_source L t (DcNonce dc) pv"
    using previousValsetOf_Ok p *(1,3) valset_source_mono by blast
  with * show ?thesis by blast
qed

theorem relayed_data_commitment_has_quorum_witness:
  "\<exists>w t. snd (ProcessAttestation relay_lib (relay_env (print (dcc_json relay_dcc))) 1 sample_opts (AttDataCommitment relayed_dc) []) = w # t \<and>
     (\<exists>root cs. saved_batch (dcc_store_key relay_lib relayed_dc root) MarshalDataCommitmentConfirm cs t) \<and>
     (\<exists>pv. valset_source relay_lib t 5 pv)"
proof -
  obtain tx h' where r: "ProcessAttestation relay_lib (relay_env (print (dcc_json relay_dcc))) 1 sample_opts (AttDataCommitment relayed_dc) [] = (Ok tx, h')"
    using relay_dc_succeeds unfolding is_Ok_iff by (metis prod.collapse)
  have "DcNonce relayed_dc = 5" by (simp add: relayed_dc_def)
  with relayed_data_commitment_has_quorum [OF r] show ?thesis unfolding r snd_conv by metis
qed

text \<open>
  C3: A valset update is sent to the contract only with a quorum of the previous valset, whose
  confirms were saved, likewise. The signatures are laid out for the valset that the application is asked for a second time, or for
  the new valset itself when it is the first.
\<close>

theorem relayed_valset_has_quorum:
  assumes "ProcessAttestation L E rounds opts (AttValset vs) h = (Ok tx, h')"
  shows "\<exists>pv cur digest cs evals sigs vh t.
    h' = Contract (ContractUpdate opts (int64 (Nonce vs)) (if Nonce vs = 1 then 0 else int64 (Nonce cur))
      (int64 (TwoThirdsThreshold L vs)) vh evals sigs (Ok tx)) # t \<and>
    valset_source L t (Nonce vs) pv \<and> ValsetSignBytes L vs = Ok digest \<and> ValsetHash L vs = Ok vh \<and>
    (if Nonce vs = 1 then cur = vs else App (ValsetBefore None (Nonce vs) (Ok (Some cur))) \<in> set t) \<and>
    quorum L t pv (\<lambda>m. GetValsetConfirmKey (Nonce vs) (EvmAddress m) (HashHex L digest))
      UnmarshalValsetConfirm VcEthAddress cs \<and>
    ethValset L cur = Ok evals \<and> sent_sigs L VcEthAddress VcSignature cs cur sigs \<and>
    saved_batch (vc_store_key L vs digest) MarshalValsetConfirm cs t"
proof -
  obtain pvo h1 where p: "previousValsetOf L E (Nonce vs) h = (Ok pvo, h1)"
    and r: "relayValset L E rounds opts pvo vs h1 = (Ok tx, h')"
    using assms unfolding ProcessAttestation_def by (elim andThen_OkE) simp
  from relayValset_Ok [OF r] obtain pv cur digest cs evals sigs vh t where *: "pvo = Some pv"
    "h' = Contract (ContractUpdate opts (int64 (Nonce vs)) (if Nonce vs = 1 then 0 else int64 (Nonce cur))
      (int64 (TwoThirdsThreshold L vs)) vh evals sigs (Ok tx)) # t"
    "set h1 \<subseteq> set t" "ValsetSignBytes L vs = Ok digest" "ValsetHash L vs = Ok vh"
    "if Nonce vs = 1 then cur = vs else App (ValsetBefore None (Nonce vs) (Ok (Some cur))) \<in> set t"
    "quorum L t pv (\<lambda>m. GetValsetConfirmKey (Nonce vs) (EvmAddress m) (HashHex L digest))
      UnmarshalValsetConfirm VcEthAddress cs"
    "ethValset L cur = Ok evals" "sent_sigs L VcEthAddress VcSignature cs cur sigs"
    "saved_batch (vc_store_key L vs digest) MarshalValsetConfirm cs t" .
  have "valset_source L t (Nonce vs) pv"
    using previousValsetOf_Ok p *(1,3) valset_source_mono by blast
  with * show ?thesis by blast
qed

theorem relayed_valset_has_quorum_witness:
  "\<exists>w t. snd (ProcessAttestation relay_lib (relay_env (print (vc_json relay_vc))) 1 sample_opts (AttValset sample_valset) []) = w # t \<and>
     (\<exists>digest cs. saved_batch (vc_store_key relay_lib sample_valset digest) MarshalValsetConfirm cs t) \<and>
     (\<exists>pv. valset_source relay_lib t 10 pv)"
proof -
  obtain tx h' where r: "ProcessAttestation relay_lib (relay_env (print (vc_json relay_vc))) 1 sample_opts (AttValset sample_valset) [] = (Ok tx, h')"
    using relay_vs_succeeds unfolding is_Ok_iff by (metis prod.collapse)
  have "Nonce sample_valset = 10" by (simp add: sample_valset_def)
  with relayed_valset_has_quorum [OF r] show ?thesis unfolding r snd_conv by metis
qed

text \<open>
  C10: Whatever the services answer and whichever way \<open>ProcessAttestation\<close> ends, it writes to the
  contract at most once, as the last thing it does; what it writes is the update or the submission
  of this attestation, with signatures taken from a list of confirms; and before that these
  confirms were saved under the attestation's digest: each was looked up in the store and, where
  the store did not have it, put into a batch, which was then committed.
\<close>

theorem ProcessAttestation_saves_before_it_writes:
  "\<exists>t. snd (ProcessAttestation L E rounds opts att h) = t @ h \<and>
     (list_all (\<lambda>e. \<not> contract_write e) t \<or>
      (\<exists>w s. t = w # s \<and> contract_write w \<and> list_all (\<lambda>e. \<not> contract_write e) s \<and> sent_and_saved L att w s))"
proof -
  have "list_all (\<lambda>e. \<not> contract_write e) s" if "list_all (\<lambda>e. \<not> mark e) s" for s
    using that contract_write_mark by (auto simp: list_all_iff)
  then show ?thesis
    using ProcessAttestation_traces [of L att E rounds opts] unfolding traces_def saves_then_writes_def by meson
qed

text \<open>
  C11: The signatures given to the contract are exactly one per member of the valset, in the order of
  the members: the split signature of the last confirm with the member's address, or zeros; one
  signature that cannot be split makes the whole matching fail.
\<close>

theorem matchAttestationConfirmSigs_by_member:
  "matchAttestationConfirmSigs L (sigsMap addr sig Map.empty cs) vs =
     traverse (\<lambda>m. case map_of (rev (map (\<lambda>c. (addr c, sig c)) cs)) (EvmAddress m) of
         None \<Rightarrow> Ok zero_vrs
       | Some s \<Rightarrow> obind (SigToVRS L s) (\<lambda>(v, r, s). Ok \<lparr>SigV = v, SigR = r, SigS = s\<rparr>)) (Members vs)"
  unfolding matchAttestationConfirmSigs_traverse sigsMap_map_of member_sig_def [abs_def] by simp

text \<open>
  C32: A valset other than the first cannot be relayed while the application cannot answer for the
  valset before it, although \<open>ProcessAttestation\<close> recovers that very valset from the P2P network
  or an archive: \<open>UpdateValidatorSet\<close> asks the application again.
\<close>

theorem relaying_a_valset_needs_the_application:
  assumes "\<And>h. is_Err (app_valset_before E None (Nonce vs) h)" and "Nonce vs \<noteq> 1"
  shows "\<not> is_Ok (fst (ProcessAttestation L E rounds opts (AttValset vs) h))"
proof
  assume "is_Ok (fst (ProcessAttestation L E rounds opts (AttValset vs) h))"
  then obtain tx h' where "ProcessAttestation L E rounds opts (AttValset vs) h = (Ok tx, h')"
    by (metis is_Ok_iff prod.collapse)
  then obtain pvo h1 where "relayValset L E rounds opts pvo vs h1 = (Ok tx, h')"
    unfolding ProcessAttestation_def by (elim andThen_OkE) simp
  then obtain h2 cs where "Relayer_UpdateValidatorSet L E opts vs (TwoThirdsThreshold L vs) cs h2 = (Ok tx, h')"
    using relayValset_steps by blast
  from Relayer_UpdateValidatorSet_Ok [OF this] assms(2)
  obtain cur h3 where "andThen (QueryLastValsetBeforeNonce E (Nonce vs)) nil_deref h2 = (Ok cur, h3)" by auto
  moreover have "is_Err (app_valset_before E None (Nonce vs) h2)" by (rule assms(1))
  ultimately show False by (auto simp: QueryLastValsetBeforeNonce_def andThen_eq_Ok)
qed

theorem relaying_a_valset_needs_the_application_witness:
  "\<not> is_Ok (fst (ProcessAttestation ref_lib ref_env 3 sample_opts (AttValset sample_valset) []))"
  by (rule relaying_a_valset_needs_the_application) (simp_all add: ref_env_def sample_valset_def)

end
