(* ===== verification/RelayTx.thy ===== *)
theory RelayTx imports Relayer begin

text \<open>
  \<open>relayer/relayer.go\<close>: waiting for a transaction and resending it with a higher gas price. The
  loop makes at most ten rounds. \<open>elasticity\<close> is go-ethereum's \<open>params.DefaultElasticityMultiplier\<close>.
\<close>

section \<open>Copies of a transaction\<close>

definition toLegacyTransaction :: "evm_tx \<Rightarrow> legacy_tx" where
  "toLegacyTransaction tx =
     \<lparr>TxNonce = TxNonce tx, TxGas = TxGas tx, TxTo = TxTo tx, TxValue = TxValue tx, TxData = TxData tx,
      TxV = TxV tx, TxR = TxR tx, TxS = TxS tx, LegacyGasPrice = GasPrice tx\<rparr>"

definition toDynamicTransaction :: "evm_tx \<Rightarrow> dynamic_tx" where
  "toDynamicTransaction tx =
     \<lparr>TxNonce = TxNonce tx, TxGas = TxGas tx, TxTo = TxTo tx, TxValue = TxValue tx, TxData = TxData tx,
      TxV = TxV tx, TxR = TxR tx, TxS = TxS tx, DynChainId = ChainId tx, DynGasTipCap = GasTipCap tx,
      DynGasFeeCap = GasFeeCap tx, DynAccessList = AccessList tx\<rparr>"

section \<open>Speeding up\<close>

definition suggestGasPrice :: "env \<Rightarrow> int prog" where
  "suggestGasPrice E = call (evm_suggest_gas_price E) (\<lambda>r. Chain (SuggestGasPrice r))"

definition suggestGasTipCap :: "env \<Rightarrow> int prog" where
  "suggestGasTipCap E = call (evm_suggest_tip E) (\<lambda>r. Chain (SuggestGasTipCap r))"

text \<open>The base fee of the last header, nil before the London upgrade.\<close>

definition headerBaseFee :: "env \<Rightarrow> int option prog" where
  "headerBaseFee E = call (evm_header E) (\<lambda>r. Chain (HeaderByNumber r))"

definition createSpeededUpLegacyTransaction :: "lib \<Rightarrow> env \<Rightarrow> evm_tx \<Rightarrow> evm_tx prog" where
  "createSpeededUpLegacyTransaction L E newTx =
     andThen (suggestGasPrice E) (\<lambda>newGasPrice.
     ret (NewLegacyTx L ((toLegacyTransaction newTx)\<lparr>LegacyGasPrice := Some newGasPrice\<rparr>)))"

definition createSpeededUpDynamicTransaction :: "lib \<Rightarrow> env \<Rightarrow> int \<Rightarrow> evm_tx \<Rightarrow> evm_tx prog" where
  "createSpeededUpDynamicTransaction L E elasticity newTx =
     andThen (suggestGasTipCap E) (\<lambda>gasTipCap.
     andThen (andThen (headerBaseFee E) nil_deref) (\<lambda>baseFee.
     let gasFeeCap = gasTipCap + baseFee * elasticity in
     if gasFeeCap < gasTipCap then throw (Errorf ''maxFeePerGas < maxPriorityFeePerGas'')
     else ret (NewDynamicTx L ((toDynamicTransaction newTx)\<lparr>DynGasTipCap := Some gasTipCap, DynGasFeeCap := Some gasFeeCap\<rparr>))))"

text \<open>\<open>rawTx.GasPrice().Cmp(newTx.GasPrice()) <= 0\<close> means \<open>continue\<close>, here \<open>None\<close>.\<close>

definition resendIfHigher :: "int option \<Rightarrow> int option \<Rightarrow> evm_tx \<Rightarrow> evm_tx option prog" where
  "resendIfHigher price oldPrice rawTx =
     andThen (nil_deref price) (\<lambda>p. andThen (nil_deref oldPrice) (\<lambda>q.
     ret (if p \<le> q then None else Some rawTx)))"

definition speedUpLegacy :: "lib \<Rightarrow> env \<Rightarrow> evm_tx \<Rightarrow> evm_tx option prog" where
  "speedUpLegacy L E newTx =
     andThen (createSpeededUpLegacyTransaction L E newTx) (\<lambda>rawTx.
     resendIfHigher (GasPrice rawTx) (GasPrice newTx) rawTx)"

definition speedUpDynamic :: "lib \<Rightarrow> env \<Rightarrow> int \<Rightarrow> evm_tx \<Rightarrow> evm_tx option prog" where
  "speedUpDynamic L E elasticity newTx =
     andThen (createSpeededUpDynamicTransaction L E elasticity newTx) (\<lambda>rawTx.
     resendIfHigher (GasFeeCap rawTx) (GasFeeCap newTx) rawTx)"

definition speedUp :: "lib \<Rightarrow> env \<Rightarrow> int \<Rightarrow> evm_tx \<Rightarrow> evm_tx \<Rightarrow> evm_tx option prog" where
  "speedUp L E elasticity tx newTx =
     (if GasPrice tx \<noteq> None then speedUpLegacy L E newTx
      else if GasTipCap tx \<noteq> None \<and> GasFeeCap tx \<noteq> None then speedUpDynamic L E elasticity newTx
      else
        andThen (headerBaseFee E) (\<lambda>baseFee.
        if baseFee \<noteq> None then speedUpDynamic L E elasticity newTx else speedUpLegacy L E newTx))"

section \<open>Waiting\<close>

definition signTx :: "env \<Rightarrow> address \<Rightarrow> evm_tx \<Rightarrow> evm_tx prog" where
  "signTx E from rawTx = call (evm_sign_tx E from rawTx) (\<lambda>r. Chain (SignTx from rawTx r))"

definition sendTransaction :: "env \<Rightarrow> evm_tx \<Rightarrow> unit prog" where
  "sendTransaction E tx = call (evm_send_tx E tx) (\<lambda>r. Chain (SendTransaction tx r))"

text \<open>
  Signing and sending. The logged gas price of the signed transaction is read after it was sent; an
  error of sending is only logged.
\<close>

definition resend :: "env \<Rightarrow> transact_opts \<Rightarrow> evm_tx \<Rightarrow> unit prog" where
  "resend E opts rawTx =
     andThen (signTx E (From opts) rawTx) (\<lambda>signedTx.
     andThen (ignoreErr (sendTransaction E signedTx)) (\<lambda>_.
     andThen (nil_deref (GasPrice signedTx)) (\<lambda>_. ret ())))"

fun wait_loop :: "lib \<Rightarrow> env \<Rightarrow> int \<Rightarrow> transact_opts \<Rightarrow> evm_tx \<Rightarrow> evm_tx \<Rightarrow> nat \<Rightarrow> unit prog" where
  "wait_loop L E elasticity opts tx newTx 0 = throw ErrTransactionStillPending"
| "wait_loop L E elasticity opts tx newTx (Suc left) =
     handle (WaitForTransaction E newTx)
       (\<lambda>_. ret ())
       (\<lambda>err. if errors_Is err DeadlineExceeded
              then
                andThen (speedUp L E elasticity tx newTx) (\<lambda>raw. case raw of
                    None \<Rightarrow> wait_loop L E elasticity opts tx newTx left
                  | Some rawTx \<Rightarrow>
                      andThen (resend E opts rawTx) (\<lambda>_.
                      wait_loop L E elasticity opts tx newTx left))
              else throw err)"

text \<open>The first statement logs the gas price of the transaction, so a nil one panics here.\<close>

definition waitForTransactionAndRetryIfNeeded :: "lib \<Rightarrow> env \<Rightarrow> int \<Rightarrow> transact_opts \<Rightarrow> evm_tx \<Rightarrow> unit prog" where
  "waitForTransactionAndRetryIfNeeded L E elasticity opts tx =
     andThen (nil_deref (GasPrice tx)) (\<lambda>_. wait_loop L E elasticity opts tx tx 10)"

section \<open>What the loop does\<close>

fun waited :: "history \<Rightarrow> evm_tx list" where
  "waited [] = []"
| "waited (Chain (WaitMined tx r) # h) = tx # waited h"
| "waited (e # h) = waited h"

fun signedTxs :: "history \<Rightarrow> (address \<times> evm_tx) list" where
  "signedTxs [] = []"
| "signedTxs (Chain (SignTx a tx r) # h) = (a, tx) # signedTxs h"
| "signedTxs (e # h) = signedTxs h"

fun dynamic_call :: "event \<Rightarrow> bool" where
  "dynamic_call (Chain (SuggestGasTipCap r)) = True"
| "dynamic_call (Chain (HeaderByNumber r)) = True"
| "dynamic_call e = False"

lemma waited_append [simp]: "waited (s @ t) = waited s @ waited t"
  by (induction s rule: waited.induct) auto

lemma signedTxs_append [simp]: "signedTxs (s @ t) = signedTxs s @ signedTxs t"
  by (induction s rule: signedTxs.induct) auto

text \<open>
  A replacement of the transaction: the same but for the price, which is the one suggested and
  higher than the original's.
\<close>

definition isReplacement :: "lib \<Rightarrow> evm_tx \<Rightarrow> evm_tx \<Rightarrow> bool" where
  "isReplacement L tx raw \<longleftrightarrow> (\<exists>p old new. raw = NewLegacyTx L ((toLegacyTransaction tx)\<lparr>LegacyGasPrice := Some p\<rparr>) \<and>
     GasPrice tx = Some old \<and> GasPrice raw = Some new \<and> old < new)"

definition legacy_trace :: "lib \<Rightarrow> address \<Rightarrow> evm_tx \<Rightarrow> nat \<Rightarrow> history \<Rightarrow> bool" where
  "legacy_trace L from tx k t \<longleftrightarrow>
     list_all (\<lambda>w. w = tx) (waited t) \<and> length (waited t) \<le> k \<and> list_all (\<lambda>e. \<not> dynamic_call e) t \<and>
     list_all (\<lambda>(a, raw). a = from \<and> isReplacement L tx raw) (signedTxs t) \<and> length (signedTxs t) \<le> length (waited t)"

lemma speedUp_trace:
  assumes "GasPrice tx \<noteq> None"
  shows "\<exists>r s. speedUp L E el tx tx h = (r, Chain (SuggestGasPrice s) # h) \<and>
    (\<forall>raw. r = Ok (Some raw) \<longrightarrow> isReplacement L tx raw)"
proof -
  obtain old where old: "GasPrice tx = Some old" using assms by auto
  show ?thesis
  proof (cases "evm_suggest_gas_price E h")
    case (Ok p)
    let ?raw = "NewLegacyTx L ((toLegacyTransaction tx)\<lparr>LegacyGasPrice := Some p\<rparr>)"
    show ?thesis
      by (cases "GasPrice ?raw")
        (use Ok old in \<open>auto simp: speedUp_def speedUpLegacy_def createSpeededUpLegacyTransaction_def
          suggestGasPrice_def resendIfHigher_def nil_deref_def andThen_def isReplacement_def\<close>)
  qed (use old in \<open>auto simp: speedUp_def speedUpLegacy_def createSpeededUpLegacyTransaction_def
      suggestGasPrice_def andThen_def\<close>)
qed

lemma resend_trace:
  "\<exists>t. snd (resend E opts raw h) = t @ h \<and> signedTxs t = [(From opts, raw)] \<and> waited t = [] \<and>
     list_all (\<lambda>e. \<not> dynamic_call e) t"
proof (cases "evm_sign_tx E (From opts) raw h")
  case (Ok stx)
  let ?e1 = "Chain (SignTx (From opts) raw (Ok stx))"
  let ?e2 = "Chain (SendTransaction stx (evm_send_tx E stx (?e1 # h)))"
  have "snd (resend E opts raw h) = [?e2, ?e1] @ h"
    using Ok by (cases "evm_send_tx E stx (?e1 # h)"; cases "GasPrice stx")
      (simp_all add: resend_def signTx_def sendTransaction_def andThen_def ignoreErr_run nil_deref_def)
  then show ?thesis by (intro exI [of _ "[?e2, ?e1]"]) simp
qed (auto simp: resend_def signTx_def andThen_def intro!: exI [of _ "[a]" for a])

text \<open>One round of the loop: one wait, at most one replacement.\<close>

definition round_trace :: "lib \<Rightarrow> address \<Rightarrow> evm_tx \<Rightarrow> history \<Rightarrow> bool" where
  "round_trace L from tx s \<longleftrightarrow> waited s = [tx] \<and> list_all (\<lambda>e. \<not> dynamic_call e) s \<and>
     list_all (\<lambda>(a, raw). a = from \<and> isReplacement L tx raw) (signedTxs s) \<and> length (signedTxs s) \<le> 1"

lemma round_trace_step: "round_trace L from tx s \<Longrightarrow> legacy_trace L from tx k t \<Longrightarrow> legacy_trace L from tx (Suc k) (t @ s)"
  by (auto simp: legacy_trace_def round_trace_def)

lemma wait_round:
  assumes "GasPrice tx \<noteq> None"
  shows "\<exists>s. round_trace L (From opts) tx s \<and> (snd (wait_loop L E el opts tx tx (Suc k) h) = s @ h \<or>
    wait_loop L E el opts tx tx (Suc k) h = wait_loop L E el opts tx tx k (s @ h))"
proof -
  let ?w = "Chain (WaitMined tx (evm_wait_mined E tx h))"
  have one: "round_trace L (From opts) tx [?w]" by (simp add: round_trace_def)
  have wait: "WaitForTransaction E tx h = (evm_wait_mined E tx h, ?w # h)" by (simp add: WaitForTransaction_def)
  show ?thesis
  proof (cases "\<exists>e. evm_wait_mined E tx h = Err e \<and> errors_Is e DeadlineExceeded")
    case False
    then have "snd (wait_loop L E el opts tx tx (Suc k) h) = [?w] @ h"
      using wait by (cases "evm_wait_mined E tx h") (auto simp: handle_def)
    then show ?thesis using one by blast
  next
    case True
    then obtain e where e: "evm_wait_mined E tx h = Err e" "errors_Is e DeadlineExceeded" by blast
    from speedUp_trace [OF assms] obtain r s where s: "speedUp L E el tx tx (?w # h) = (r, Chain (SuggestGasPrice s) # ?w # h)"
      and rep: "\<And>raw. r = Ok (Some raw) \<Longrightarrow> isReplacement L tx raw" by meson
    let ?s = "[Chain (SuggestGasPrice s), ?w]"
    have two: "round_trace L (From opts) tx ?s" by (simp add: round_trace_def)
    note run = wait e s
    show ?thesis
    proof (cases "\<exists>raw. r = Ok (Some raw)")
      case False
      then show ?thesis using run two
        by (cases r) (auto simp: handle_def andThen_def split: option.splits intro!: exI [of _ ?s])
    next
      case True
      then obtain raw where raw: "r = Ok (Some raw)" by blast
      obtain t1 where t1: "snd (resend E opts raw (?s @ h)) = t1 @ ?s @ h" "signedTxs t1 = [(From opts, raw)]"
        "waited t1 = []" "list_all (\<lambda>e. \<not> dynamic_call e) t1" using resend_trace by blast
      have "round_trace L (From opts) tx (t1 @ ?s)" using t1 rep raw by (simp add: round_trace_def)
      moreover obtain q where "resend E opts raw (?s @ h) = (q, t1 @ ?s @ h)" using t1(1) by (metis prod.collapse)
      ultimately show ?thesis using run raw
        by (cases q) (auto simp: handle_def andThen_def intro!: exI [of _ "t1 @ ?s"])
    qed
  qed
qed

lemma wait_loop_trace:
  assumes "GasPrice tx \<noteq> None"
  shows "\<exists>t. snd (wait_loop L E el opts tx tx k h) = t @ h \<and> legacy_trace L (From opts) tx k t"
proof (induction k arbitrary: h)
  case (Suc k)
  obtain s where s: "round_trace L (From opts) tx s" "snd (wait_loop L E el opts tx tx (Suc k) h) = s @ h \<or>
    wait_loop L E el opts tx tx (Suc k) h = wait_loop L E el opts tx tx k (s @ h)"
    using wait_round [OF assms] by blast
  obtain t where t: "snd (wait_loop L E el opts tx tx k (s @ h)) = t @ s @ h" "legacy_trace L (From opts) tx k t"
    using Suc by blast
  have "legacy_trace L (From opts) tx (Suc k) s" using s(1) by (simp add: round_trace_def legacy_trace_def)
  with s t round_trace_step [OF s(1) t(2)] show ?case by (metis append.assoc)
qed (simp add: legacy_trace_def)

text \<open>The loop says that the transaction is mined only if the last wait for it said so.\<close>

lemma wait_loop_Ok:
  "wait_loop L E el opts tx newTx k h = (Ok u, h') \<Longrightarrow> \<exists>status t. h' = Chain (WaitMined newTx (Ok status)) # t"
proof (induction k arbitrary: h)
  case (Suc k)
  then show ?case
    by (auto simp: handle_eq_Ok andThen_eq_Ok WaitForTransaction_def split: if_splits option.splits)
qed simp

text \<open>All waits time out: ten rounds and the error that says so, if nothing else fails.\<close>

lemma wait_loop_pending:
  assumes "\<And>h. evm_wait_mined E tx h = Err DeadlineExceeded" and "\<And>h. evm_suggest_gas_price E h = Ok p"
    and "GasPrice tx = Some old" and "\<And>r a h. \<exists>s q. evm_sign_tx E a r h = Ok s \<and> GasPrice s = Some q"
    and "\<And>t h. is_Ok (evm_send_tx E t h) \<or> is_Err (evm_send_tx E t h)"
    and "GasPrice (NewLegacyTx L ((toLegacyTransaction tx)\<lparr>LegacyGasPrice := Some p\<rparr>)) = Some new"
  shows "\<exists>t. wait_loop L E el opts tx tx k h = (Err ErrTransactionStillPending, t @ h) \<and> length (waited t) = k"
proof (induction k arbitrary: h)
  case (Suc k)
  let ?raw = "NewLegacyTx L ((toLegacyTransaction tx)\<lparr>LegacyGasPrice := Some p\<rparr>)"
  let ?h1 = "Chain (SuggestGasPrice (Ok p)) # Chain (WaitMined tx (Err DeadlineExceeded)) # h"
  have s: "speedUp L E el tx tx (Chain (WaitMined tx (Err DeadlineExceeded)) # h) = (Ok (if new \<le> old then None else Some ?raw), ?h1)"
    using assms(2,3,6) by (simp add: speedUp_def speedUpLegacy_def createSpeededUpLegacyTransaction_def
        suggestGasPrice_def resendIfHigher_def nil_deref_def andThen_def)
  have r: "\<exists>t. resend E opts ?raw h0 = (Ok (), t @ h0) \<and> waited t = []" for h0
  proof -
    obtain stx q where stx: "evm_sign_tx E (From opts) ?raw h0 = Ok stx" "GasPrice stx = Some q" using assms(4) by meson
    let ?h2 = "Chain (SignTx (From opts) ?raw (Ok stx)) # h0"
    show ?thesis
      using stx assms(5) [of stx ?h2]
      by (cases "evm_send_tx E stx ?h2") (auto simp: resend_def signTx_def sendTransaction_def andThen_def
          ignoreErr_run nil_deref_def intro!: exI [of _ "[a, b]" for a b])
  qed
  have step: "\<exists>t. wait_loop L E el opts tx tx (Suc k) h = wait_loop L E el opts tx tx k (t @ h) \<and> waited t = [tx]"
  proof (cases "new \<le> old")
    case True
    then show ?thesis using s assms(1)
      by (intro exI [of _ "[Chain (SuggestGasPrice (Ok p)), Chain (WaitMined tx (Err DeadlineExceeded))]"])
        (simp add: WaitForTransaction_def handle_def andThen_def)
  next
    case False
    obtain t where "resend E opts ?raw ?h1 = (Ok (), t @ ?h1)" "waited t = []" using r by blast
    then show ?thesis using s assms(1) False
      by (intro exI [of _ "t @ [Chain (SuggestGasPrice (Ok p)), Chain (WaitMined tx (Err DeadlineExceeded))]"])
        (simp add: WaitForTransaction_def handle_def andThen_def)
  qed
  then obtain t where t: "wait_loop L E el opts tx tx (Suc k) h = wait_loop L E el opts tx tx k (t @ h)" "waited t = [tx]" by blast
  obtain t' where "wait_loop L E el opts tx tx k (t @ h) = (Err ErrTransactionStillPending, t' @ t @ h)" "length (waited t') = k"
    using Suc by blast
  then show ?case unfolding t(1) using t(2) by (intro exI [of _ "t' @ t"]) simp
qed simp

section \<open>Properties\<close>

text \<open>
  C12: Waiting for a transaction ends after at most ten waits, and every one of them is for the
  original transaction: no replacement that was sent is ever waited for. Each transaction that is
  signed is a legacy copy of the original with the suggested price, signed for the same account
  and only if the price is higher; the branches for dynamic fees are never taken, whatever the
  type of the original transaction, as go-ethereum gives a gas price for every one.
\<close>

theorem waitForTransaction_waits_for_the_original:
  "\<exists>t. snd (waitForTransactionAndRetryIfNeeded L E el opts tx h) = t @ h \<and>
     list_all (\<lambda>w. w = tx) (waited t) \<and> length (waited t) \<le> 10 \<and> length (signedTxs t) \<le> length (waited t) \<and>
     list_all (\<lambda>e. \<not> dynamic_call e) t \<and>
     list_all (\<lambda>(a, raw). a = From opts \<and> isReplacement L tx raw) (signedTxs t)"
proof (cases "GasPrice tx")
  case None
  then show ?thesis by (simp add: waitForTransactionAndRetryIfNeeded_def nil_deref_def andThen_def)
next
  case (Some p)
  then obtain t where "snd (wait_loop L E el opts tx tx 10 h) = t @ h" "legacy_trace L (From opts) tx 10 t"
    using wait_loop_trace by blast
  then show ?thesis using Some
    by (intro exI [of _ t]) (simp add: waitForTransactionAndRetryIfNeeded_def nil_deref_def andThen_def legacy_trace_def)
qed

text \<open>
  The relayer takes the transaction for relayed only when the chain answered the last wait with a
  receipt of the original transaction, whatever the status in the receipt.
\<close>

theorem waitForTransaction_success:
  assumes "waitForTransactionAndRetryIfNeeded L E el opts tx h = (Ok (), h')"
  shows "\<exists>status t. h' = Chain (WaitMined tx (Ok status)) # t"
  using assms unfolding waitForTransactionAndRetryIfNeeded_def andThen_eq_Ok by (blast dest: wait_loop_Ok)

theorem waitForTransaction_success_witness:
  "\<exists>status t. [Chain (WaitMined sample_tx (Ok 0))] = Chain (WaitMined sample_tx (Ok status)) # t"
proof -
  let ?E = "ref_env\<lparr>evm_wait_mined := (\<lambda>_ _. Ok 0)\<rparr>"
  have "waitForTransactionAndRetryIfNeeded ref_lib ?E 2 sample_opts sample_tx [] = (Ok (), [Chain (WaitMined sample_tx (Ok 0))])"
    by (simp add: waitForTransactionAndRetryIfNeeded_def nil_deref_def andThen_def sample_tx_def handle_def
        WaitForTransaction_def eval_nat_numeral)
  from waitForTransaction_success [OF this] show ?thesis .
qed

text \<open>
  When every wait times out, the loop gives up with \<open>ErrTransactionStillPending\<close> after exactly
  ten waits, as long as the node suggests prices and the account signs; failures to send do not
  matter.
\<close>

theorem waitForTransaction_gives_up:
  assumes "\<And>h. evm_wait_mined E tx h = Err DeadlineExceeded" and "\<And>h. evm_suggest_gas_price E h = Ok p"
    and "GasPrice tx = Some old" and "\<And>r a h. \<exists>s q. evm_sign_tx E a r h = Ok s \<and> GasPrice s = Some q"
    and "\<And>t h. is_Ok (evm_send_tx E t h) \<or> is_Err (evm_send_tx E t h)"
    and "GasPrice (NewLegacyTx L ((toLegacyTransaction tx)\<lparr>LegacyGasPrice := Some p\<rparr>)) = Some new"
  shows "\<exists>t. waitForTransactionAndRetryIfNeeded L E el opts tx h = (Err ErrTransactionStillPending, t @ h) \<and>
    length (waited t) = 10"
  using wait_loop_pending [OF assms(1-6), where k = 10 and h = h and opts = opts and el = el] assms(3)
  by (simp add: waitForTransactionAndRetryIfNeeded_def nil_deref_def andThen_def)

definition stuck_env :: env where
  "stuck_env = ref_env\<lparr>evm_suggest_gas_price := (\<lambda>_. Ok 9), evm_sign_tx := (\<lambda>_ _ _. Ok sample_tx),
     evm_send_tx := (\<lambda>_ _. Err (Ext ''replacement transaction underpriced''))\<rparr>"

theorem waitForTransaction_gives_up_witness:
  "\<exists>t. waitForTransactionAndRetryIfNeeded ref_lib stuck_env 2 sample_opts sample_tx [] = (Err ErrTransactionStillPending, t @ []) \<and>
    length (waited t) = 10"
  by (rule waitForTransaction_gives_up [where p = 9 and old = 5 and new = 9])
    (simp_all add: stuck_env_def ref_env_def sample_tx_def ref_lib_def)

end
