(* ===== verification/RelayerLoop.thy ===== *)
theory RelayerLoop imports RelayTx RelayTrace begin

text \<open>
  The main loop of \<open>relayer/relayer.go\<close> (\<open>Start\<close>). The closure \<open>processFunc\<close> keeps the flag
  \<open>backupRelayerShouldRelay\<close> between its calls, so it is a step on that flag whose result is the
  error it returns, and the loops of the package \<open>helpers\<close> that call it thread the flag.
\<close>

section \<open>Closures with a state\<close>

type_synonym 's closure = "'s \<Rightarrow> (go_error option \<times> 's) prog"

text \<open>\<open>if err != nil { return err }\<close> in such a closure.\<close>

definition orReturn :: "'s \<Rightarrow> 'a prog \<Rightarrow> ('a \<Rightarrow> (go_error option \<times> 's) prog) \<Rightarrow> (go_error option \<times> 's) prog" where
  "orReturn s m f = handle m f (\<lambda>e. ret (Some e, s))"

fun retry_closure :: "env \<Rightarrow> retrier \<Rightarrow> 's closure \<Rightarrow> nat \<Rightarrow> nat \<Rightarrow> go_error option \<Rightarrow> 's closure" where
  "retry_closure E r f 0 i err s = ret (err, s)"
| "retry_closure E r f (Suc left) i err s =
     andThen (ctxErr E) (\<lambda>c. case c of
         Some e \<Rightarrow> ret (Some e, s)
       | None \<Rightarrow>
           andThen (timer (NextTick r i)) (\<lambda>_.
           andThen (f s) (\<lambda>(res, s'). case res of
               None \<Rightarrow> ret (None, s')
             | Some e \<Rightarrow> retry_closure E r f left (Suc i) (Some e) s')))"

definition RetryClosure :: "env \<Rightarrow> retrier \<Rightarrow> 's closure \<Rightarrow> 's closure" where
  "RetryClosure E r f = retry_closure E r f (nat (retriesNumber r)) 0 None"

fun ticker_closure :: "env \<Rightarrow> u64 \<Rightarrow> 's closure \<Rightarrow> nat \<Rightarrow> 's closure" where
  "ticker_closure E duration f 0 s = lift Blocked"
| "ticker_closure E duration f (Suc rounds) s =
     andThen (ctxErr E) (\<lambda>c. case c of
         Some e \<Rightarrow> ret (Some e, s)
       | None \<Rightarrow>
           andThen (timer duration) (\<lambda>_.
           andThen (f s) (\<lambda>(res, s'). case res of
               None \<Rightarrow> ticker_closure E duration f rounds s'
             | Some e \<Rightarrow> ret (Some e, s'))))"

definition ImmediateTickerClosure :: "env \<Rightarrow> nat \<Rightarrow> u64 \<Rightarrow> 's closure \<Rightarrow> 's closure" where
  "ImmediateTickerClosure E rounds duration f s =
     andThen (f s) (\<lambda>(res, s'). case res of
         None \<Rightarrow> ticker_closure E duration f rounds s'
       | Some e \<Rightarrow> ret (Some e, s'))"

section \<open>Start\<close>

definition relayerMetric :: "string \<Rightarrow> unit prog" where
  "relayerMetric name = andThen (observe (\<lambda>_. ()) (\<lambda>_. Local (Metric name))) ret"

definition sleep :: "u64 \<Rightarrow> unit prog" where
  "sleep d = andThen (observe (\<lambda>_. sint d) (\<lambda>n. Local (Slept n))) (\<lambda>_. ret ())"

text \<open>
  One iteration relays at most one attestation. \<open>rounds\<close> bounds the iterations, \<open>polls\<close> the rounds of
  waiting for confirms.
\<close>

fun processFunc :: "lib \<Rightarrow> env \<Rightarrow> int \<Rightarrow> nat \<Rightarrow> relayer \<Rightarrow> nat \<Rightarrow> bool closure" where
  "processFunc L E elasticity polls R 0 backupRelayerShouldRelay = lift Blocked"
| "processFunc L E elasticity polls R (Suc rounds) backupRelayerShouldRelay =
     andThen (ctxErr E) (\<lambda>c. case c of
         Some e \<Rightarrow> ret (Some e, backupRelayerShouldRelay)
       | None \<Rightarrow>
           orReturn backupRelayerShouldRelay (StateLastEventNonce E) (\<lambda>lastContractNonce.
           orReturn backupRelayerShouldRelay (QueryLatestAttestationNonce E) (\<lambda>latestNonce.
           if latestNonce \<le> lastContractNonce then ret (None, backupRelayerShouldRelay)
           else if IsBackupRelayer R \<and> \<not> backupRelayerShouldRelay
           then
             andThen (sleep (BackupRelayerWaitTime R)) (\<lambda>_.
             processFunc L E elasticity polls R rounds True)
           else
             orReturn backupRelayerShouldRelay (QueryAttestationByNonce L E (lastContractNonce + 1)) (\<lambda>a. case a of
                 None \<Rightarrow> ret (Some ErrAttestationNotFound, backupRelayerShouldRelay)
               | Some att \<Rightarrow>
                   orReturn backupRelayerShouldRelay (NewTransactionOpts E (EVMClient R)) (\<lambda>opts.
                   orReturn backupRelayerShouldRelay (ProcessAttestation L E polls opts att) (\<lambda>tx.
                   handle (waitForTransactionAndRetryIfNeeded L E elasticity opts tx)
                     (\<lambda>_. andThen (relayerMetric ''ProcessingTime'') (\<lambda>_.
                          andThen (relayerMetric ''ProcessedNonces'') (\<lambda>_.
                          processFunc L E elasticity polls R rounds
                            (if IsBackupRelayer R then False else backupRelayerShouldRelay))))
                     (\<lambda>e. andThen (relayerMetric ''Failures'') (\<lambda>_. ret (Some e, backupRelayerShouldRelay)))))))))"

definition tickerPeriod :: u64 where
  "tickerPeriod = 100 * 1000000000"

fun start_loop :: "env \<Rightarrow> retrier \<Rightarrow> nat \<Rightarrow> 's closure \<Rightarrow> nat \<Rightarrow> 's \<Rightarrow> unit prog" where
  "start_loop E r ticks f 0 s = lift Blocked"
| "start_loop E r ticks f (Suc rounds) s =
     andThen (ctxErr E) (\<lambda>c. case c of
         Some e \<Rightarrow> throw e
       | None \<Rightarrow>
           andThen (ImmediateTickerClosure E ticks tickerPeriod f s) (\<lambda>(res, s'). case res of
               None \<Rightarrow> start_loop E r ticks f rounds s'
             | Some err \<Rightarrow>
                 andThen (RetryClosure E r f s') (\<lambda>(res', s''). case res' of
                     None \<Rightarrow> start_loop E r ticks f rounds s''
                   | Some err' \<Rightarrow> throw err')))"

definition Relayer_Start :: "lib \<Rightarrow> env \<Rightarrow> int \<Rightarrow> nat \<Rightarrow> relayer \<Rightarrow> nat \<Rightarrow> unit prog" where
  "Relayer_Start L E elasticity fuel R rounds =
     andThen (NewEthClient E) (\<lambda>_.
     start_loop E (RelRetrier R) fuel (processFunc L E elasticity fuel R fuel) rounds False)"

section \<open>A closure without a state is a method\<close>

definition stateless :: "unit prog \<Rightarrow> 's closure" where
  "stateless m s = handle m (\<lambda>_. ret (None, s)) (\<lambda>e. ret (Some e, s))"

lemma stateless_run:
  "stateless m s h = (case m h of (r, h') \<Rightarrow> (case r of Ok u \<Rightarrow> (Ok (None, s), h') | Err e \<Rightarrow> (Ok (Some e, s), h')
     | Panic p \<Rightarrow> (Panic p, h') | Blocked \<Rightarrow> (Blocked, h')))"
  by (simp add: stateless_def handle_def split: prod.splits outcome.splits)

lemma retry_closure_stateless:
  "retry_closure E r (stateless m) k i err s h = stateless (retry_loop E r m k i err) s h"
proof (induction k arbitrary: i err h)
  case 0
  then show ?case by (cases err) (simp_all add: stateless_run)
next
  case (Suc k)
  show ?case
  proof (cases "ctx_err E h")
    case None
    let ?h = "Local (TimerFired (sint (NextTick r i))) # Local (CtxErr None) # h"
    obtain q h1 where q: "m ?h = (q, h1)" by fastforce
    show ?thesis using None q Suc
      by (cases q) (simp_all add: stateless_run andThen_def handle_def)
  qed (simp add: stateless_run)
qed

lemma ticker_closure_stateless:
  "ticker_closure E d (stateless m) k s h = stateless (ticker_loop E d m k) s h"
proof (induction k arbitrary: h)
  case (Suc k)
  show ?case
  proof (cases "ctx_err E h")
    case None
    let ?h = "Local (TimerFired (sint d)) # Local (CtxErr None) # h"
    obtain q h1 where q: "m ?h = (q, h1)" by fastforce
    show ?thesis using None q Suc
      by (cases q) (simp_all add: stateless_run andThen_def handle_def)
  qed (simp add: stateless_run)
qed (simp add: stateless_run)

section \<open>The discipline of a backup relayer\<close>

text \<open>
  A monitor over the events of a run, oldest first. Its flag is set by the wait of a backup relayer and
  cleared when a nonce was relayed; a backup relayer must find it set when it writes to the contract.
\<close>

fun flag_step :: "bool \<Rightarrow> bool \<Rightarrow> event \<Rightarrow> bool" where
  "flag_step backup flag (Local (Slept d)) = True"
| "flag_step backup flag (Local (Metric m)) = (if m = ''ProcessedNonces'' \<and> backup then False else flag)"
| "flag_step backup flag e = flag"

definition flag_after :: "bool \<Rightarrow> bool \<Rightarrow> event list \<Rightarrow> bool" where
  "flag_after backup flag es = foldl (flag_step backup) flag es"

fun disciplined :: "bool \<Rightarrow> bool \<Rightarrow> event list \<Rightarrow> bool" where
  "disciplined backup flag [] = True"
| "disciplined backup flag (e # es) =
     ((contract_write e \<and> backup \<longrightarrow> flag) \<and> disciplined backup (flag_step backup flag e) es)"

lemma disciplined_append [simp]:
  "disciplined b f (xs @ ys) \<longleftrightarrow> disciplined b f xs \<and> disciplined b (flag_after b f xs) ys"
  by (induction xs arbitrary: f) (simp_all add: flag_after_def)

lemma flag_after_simps [simp]:
  "flag_after b f [] = f" "flag_after b f (e # es) = flag_after b (flag_step b f e) es"
  "flag_after b f (xs @ ys) = flag_after b (flag_after b f xs) ys"
  by (simp_all add: flag_after_def)

lemma flag_step_free: "\<not> mark e \<or> contract_write e \<Longrightarrow> flag_step b f e = f"
  by (cases e rule: mark.cases) auto

lemma disciplined_free: "list_all free es \<Longrightarrow> disciplined b f es \<and> flag_after b f es = f"
  by (induction es) (auto simp: flag_step_free dest: contract_write_mark)

text \<open>\<open>moves b f f' m\<close>: \<open>m\<close> is disciplined from the flag \<open>f\<close> and leaves it at \<open>f'\<close>; \<open>keeps b f m\<close>: the flag
  it returns is the monitor's.\<close>

definition moves :: "bool \<Rightarrow> bool \<Rightarrow> bool \<Rightarrow> 'a prog \<Rightarrow> bool" where
  "moves b f f' m \<longleftrightarrow> (\<forall>h. \<exists>t. snd (m h) = t @ h \<and> disciplined b f (rev t) \<and> flag_after b f (rev t) = f')"

definition keeps :: "bool \<Rightarrow> bool \<Rightarrow> (go_error option \<times> bool) prog \<Rightarrow> bool" where
  "keeps b f m \<longleftrightarrow> (\<forall>h. \<exists>t. snd (m h) = t @ h \<and> disciplined b f (rev t) \<and>
     (\<forall>e s. fst (m h) = Ok (e, s) \<longrightarrow> flag_after b f (rev t) = s))"

lemma moves_free: "emits free m \<Longrightarrow> moves b f f m"
  unfolding emits_def moves_def by (metis disciplined_free list_all_iff set_rev)

lemma moves_write:
  assumes "traces (saves_then_writes K) m" and "b \<longrightarrow> f"
  shows "moves b f f m"
  unfolding moves_def
proof
  fix h
  obtain t where t: "snd (m h) = t @ h" "saves_then_writes K t" using assms(1) unfolding traces_def by blast
  show "\<exists>t. snd (m h) = t @ h \<and> disciplined b f (rev t) \<and> flag_after b f (rev t) = f"
  proof (cases "list_all free t")
    case True
    then have "list_all free (rev t)" by (simp add: list_all_iff)
    then show ?thesis using t(1) disciplined_free by blast
  next
    case False
    then obtain w s where w: "t = w # s" "contract_write w" "list_all free s"
      using t(2) unfolding saves_then_writes_def by blast
    then have "disciplined b f (rev s) \<and> flag_after b f (rev s) = f"
      by (intro disciplined_free) (simp add: list_all_iff)
    then show ?thesis using t(1) w assms(2) by (intro exI [of _ t]) (simp add: flag_step_free)
  qed
qed

lemma moves_sleep: "moves b f True (sleep d)"
  by (auto simp: moves_def sleep_def intro: exI [of _ "[Local (Slept (sint d))]"])

lemma moves_metric: "moves b f (if name = ''ProcessedNonces'' \<and> b then False else f) (relayerMetric name)"
  by (auto simp: moves_def relayerMetric_def andThen_def intro: exI [of _ "[Local (Metric name)]"])

lemma keeps_ret: "keeps b f (ret (e, f))"
  by (simp add: keeps_def)

lemma keeps_blocked: "keeps b f (lift Blocked)"
  by (simp add: keeps_def)

lemma keeps_handle:
  assumes "moves b f f' m" and "\<And>x. keeps b f' (g x)" and "\<And>e. keeps b f' (k e)"
  shows "keeps b f (handle m g k)"
  unfolding keeps_def
proof
  fix h
  obtain r h1 where m: "m h = (r, h1)" by fastforce
  with assms(1) obtain t where t: "h1 = t @ h" "disciplined b f (rev t)" "flag_after b f (rev t) = f'"
    unfolding moves_def by (metis snd_conv)
  have cont: "\<exists>t. snd (handle m g k h) = t @ h \<and> disciplined b f (rev t) \<and>
      (\<forall>e s. fst (handle m g k h) = Ok (e, s) \<longrightarrow> flag_after b f (rev t) = s)" if k: "keeps b f' n" and n: "handle m g k h = n h1" for n
  proof -
    obtain s where "snd (n h1) = s @ h1" "disciplined b f' (rev s)"
      "\<forall>e s'. fst (n h1) = Ok (e, s') \<longrightarrow> flag_after b f' (rev s) = s'" using k unfolding keeps_def by blast
    then show ?thesis using t n by (intro exI [of _ "s @ t"]) simp
  qed
  show "\<exists>t. snd (handle m g k h) = t @ h \<and> disciplined b f (rev t) \<and>
      (\<forall>e s. fst (handle m g k h) = Ok (e, s) \<longrightarrow> flag_after b f (rev t) = s)"
    using cont [OF assms(2)] cont [OF assms(3)] m t
    by (cases r) (auto simp: handle_Ok handle_Err handle_Panic handle_Blocked)
qed

lemma keeps_andThen: "moves b f f' m \<Longrightarrow> (\<And>x. keeps b f' (g x)) \<Longrightarrow> keeps b f (andThen m g)"
  unfolding andThen_handle by (rule keeps_handle) (auto simp: keeps_def)

lemma keeps_orReturn: "emits free m \<Longrightarrow> (\<And>x. keeps b f (g x)) \<Longrightarrow> keeps b f (orReturn f m g)"
  unfolding orReturn_def by (rule keeps_handle [OF moves_free]) (auto intro: keeps_ret)

lemma emits_wait_loop: "emits free (wait_loop L E el opts tx newTx k)"
proof (induction k)
  case (Suc k)
  have "emits free (speedUp L E el tx newTx)"
    unfolding speedUp_def speedUpLegacy_def speedUpDynamic_def createSpeededUpLegacyTransaction_def
      createSpeededUpDynamicTransaction_def resendIfHigher_def suggestGasPrice_def suggestGasTipCap_def
      headerBaseFee_def Let_def
    by (intro emits_intros; simp)
  moreover have "emits free (resend E opts raw)" for raw
    unfolding resend_def signTx_def sendTransaction_def by (intro emits_intros; simp)
  moreover have "emits free (WaitForTransaction E newTx)"
    unfolding WaitForTransaction_def by (intro emits_intros; simp)
  ultimately show ?case unfolding wait_loop.simps by (intro emits_intros Suc)
qed (simp only: wait_loop.simps emits_throw)

lemma emits_NewTransactionOpts: "emits free (NewTransactionOpts E ec)"
  unfolding NewTransactionOpts_def transactOptsBuilder_def by (intro emits_intros; simp)

lemma emits_StateLastEventNonce: "emits free (StateLastEventNonce E)"
  unfolding StateLastEventNonce_def by (intro emits_intros; simp)

lemma keeps_option: "keeps b f m \<Longrightarrow> (\<And>y. keeps b f (g y)) \<Longrightarrow> keeps b f (case x of None \<Rightarrow> m | Some y \<Rightarrow> g y)"
  by (cases x) simp_all

lemma keeps_if: "(c \<Longrightarrow> keeps b f m) \<Longrightarrow> (\<not> c \<Longrightarrow> keeps b f n) \<Longrightarrow> keeps b f (if c then m else n)"
  by simp

text \<open>The part of an iteration after the checks.\<close>

lemma keeps_relay:
  assumes cont: "\<And>s. keeps (IsBackupRelayer R) s (processFunc L E el polls R k s)" and f: "IsBackupRelayer R \<longrightarrow> f"
  shows "keeps (IsBackupRelayer R) f (orReturn f (ProcessAttestation L E polls opts att) (\<lambda>tx.
      handle (waitForTransactionAndRetryIfNeeded L E el opts tx)
        (\<lambda>_. andThen (relayerMetric ''ProcessingTime'') (\<lambda>_.
             andThen (relayerMetric ''ProcessedNonces'') (\<lambda>_.
             processFunc L E el polls R k (if IsBackupRelayer R then False else f))))
        (\<lambda>e. andThen (relayerMetric ''Failures'') (\<lambda>_. ret (Some e, f)))))"
  (is "keeps ?b f (orReturn f ?m ?g)")
proof -
  have time: "moves ?b f f (relayerMetric ''ProcessingTime'')" "moves ?b f f (relayerMetric ''Failures'')"
    using moves_metric [of ?b f "''ProcessingTime''"] moves_metric [of ?b f "''Failures''"] by simp_all
  have relayed: "moves ?b f (if ?b then False else f) (relayerMetric ''ProcessedNonces'')"
    using moves_metric [of ?b f "''ProcessedNonces''"] by simp
  have "emits free (waitForTransactionAndRetryIfNeeded L E el opts tx)" for tx
    unfolding waitForTransactionAndRetryIfNeeded_def by (intro emits_intros emits_wait_loop)
  note wait = moves_free [OF this]
  have "keeps ?b f (?g tx)" for tx
    by (rule keeps_handle [OF wait], rule keeps_andThen [OF time(1)], rule keeps_andThen [OF relayed], rule cont,
        rule keeps_andThen [OF time(2)], rule keeps_ret)
  then show ?thesis
    unfolding orReturn_def by (intro keeps_handle [OF moves_write [OF ProcessAttestation_traces f]] keeps_ret)
qed

lemma processFunc_keeps: "keeps (IsBackupRelayer R) f (processFunc L E el polls R k f)"
proof (induction k arbitrary: f)
  case (Suc k)
  have ctx: "moves (IsBackupRelayer R) f f (ctxErr E)" by (intro moves_free emits_intros) simp
  show ?case
    unfolding processFunc.simps
    by (intro keeps_andThen [OF ctx] keeps_option keeps_ret keeps_orReturn keeps_if keeps_relay Suc
        emits_intros emits_StateLastEventNonce emits_NewTransactionOpts keeps_andThen [OF moves_sleep]) simp
qed (simp only: processFunc.simps keeps_blocked)

lemma keeps_bind:
  assumes "keeps b f m" and "\<And>e s. keeps b s (g (e, s))"
  shows "keeps b f (andThen m g)"
  unfolding keeps_def
proof
  fix h
  obtain r h1 where m: "m h = (r, h1)" by fastforce
  with assms(1) obtain t where t: "h1 = t @ h" "disciplined b f (rev t)"
    "\<forall>e s. r = Ok (e, s) \<longrightarrow> flag_after b f (rev t) = s" unfolding keeps_def by (metis fst_conv snd_conv)
  show "\<exists>t. snd (andThen m g h) = t @ h \<and> disciplined b f (rev t) \<and>
    (\<forall>e s. fst (andThen m g h) = Ok (e, s) \<longrightarrow> flag_after b f (rev t) = s)"
  proof (cases r)
    case (Ok es)
    obtain e s where es: "es = (e, s)" by fastforce
    obtain u where "snd (g (e, s) h1) = u @ h1" "disciplined b s (rev u)"
      "\<forall>e' s'. fst (g (e, s) h1) = Ok (e', s') \<longrightarrow> flag_after b s (rev u) = s'"
      using assms(2) unfolding keeps_def by blast
    then show ?thesis using m t Ok es by (intro exI [of _ "u @ t"]) (simp add: andThen_Ok)
  qed (use m t in \<open>auto simp: andThen_def\<close>)
qed

lemma moves_ctxErr: "moves b f f (ctxErr E)"
  by (intro moves_free emits_intros) simp

lemma moves_timer: "moves b f f (timer d)"
  by (intro moves_free emits_intros) simp

lemma retry_closure_keeps: "(\<And>s. keeps b s (f s)) \<Longrightarrow> keeps b s (retry_closure E r f k i err s)"
proof (induction k arbitrary: i err s)
  case (Suc k)
  show ?case unfolding retry_closure.simps
    by (intro keeps_andThen [OF moves_ctxErr] keeps_option keeps_ret keeps_andThen [OF moves_timer] keeps_bind [OF Suc.prems])
      (simp add: keeps_option keeps_ret Suc)
qed (simp only: retry_closure.simps keeps_ret)

lemma ticker_closure_keeps: "(\<And>s. keeps b s (f s)) \<Longrightarrow> keeps b s (ticker_closure E d f k s)"
proof (induction k arbitrary: s)
  case (Suc k)
  show ?case unfolding ticker_closure.simps
    by (intro keeps_andThen [OF moves_ctxErr] keeps_option keeps_ret keeps_andThen [OF moves_timer] keeps_bind [OF Suc.prems])
      (simp add: keeps_option keeps_ret Suc)
qed (simp only: ticker_closure.simps keeps_blocked)

lemma ImmediateTickerClosure_keeps:
  "(\<And>s. keeps b s (f s)) \<Longrightarrow> keeps b s (ImmediateTickerClosure E k d f s)"
  unfolding ImmediateTickerClosure_def by (rule keeps_bind) (simp_all add: keeps_option keeps_ret ticker_closure_keeps)

text \<open>The same of a method without the flag in its result.\<close>

definition disciplined_run :: "bool \<Rightarrow> bool \<Rightarrow> 'a prog \<Rightarrow> bool" where
  "disciplined_run b f m \<longleftrightarrow> (\<forall>h. \<exists>t. snd (m h) = t @ h \<and> disciplined b f (rev t))"

lemma disciplined_run_free: "emits free m \<Longrightarrow> disciplined_run b f m"
  using moves_free [of m b f] unfolding moves_def disciplined_run_def by blast

lemma disciplined_run_bind:
  assumes "keeps b f m" and "\<And>e s. disciplined_run b s (g (e, s))"
  shows "disciplined_run b f (andThen m g)"
  unfolding disciplined_run_def
proof
  fix h
  obtain r h1 where m: "m h = (r, h1)" by fastforce
  with assms(1) obtain t where t: "h1 = t @ h" "disciplined b f (rev t)"
    "\<forall>e s. r = Ok (e, s) \<longrightarrow> flag_after b f (rev t) = s" unfolding keeps_def by (metis fst_conv snd_conv)
  show "\<exists>t. snd (andThen m g h) = t @ h \<and> disciplined b f (rev t)"
  proof (cases r)
    case (Ok es)
    obtain e s where es: "es = (e, s)" by fastforce
    obtain u where "snd (g (e, s) h1) = u @ h1" "disciplined b s (rev u)"
      using assms(2) unfolding disciplined_run_def by blast
    then show ?thesis using m t Ok es by (intro exI [of _ "u @ t"]) (simp add: andThen_Ok)
  qed (use m t in \<open>auto simp: andThen_def\<close>)
qed

lemma disciplined_run_andThen:
  assumes "emits free m" and "\<And>x. disciplined_run b f (g x)"
  shows "disciplined_run b f (andThen m g)"
  unfolding disciplined_run_def
proof
  fix h
  obtain r h1 where m: "m h = (r, h1)" by fastforce
  with moves_free [OF assms(1), of b f] obtain t where t: "h1 = t @ h" "disciplined b f (rev t)" "flag_after b f (rev t) = f"
    unfolding moves_def by (metis snd_conv)
  show "\<exists>t. snd (andThen m g h) = t @ h \<and> disciplined b f (rev t)"
  proof (cases r)
    case (Ok x)
    obtain u where "snd (g x h1) = u @ h1" "disciplined b f (rev u)"
      using assms(2) unfolding disciplined_run_def by blast
    then show ?thesis using m t Ok by (intro exI [of _ "u @ t"]) (simp add: andThen_Ok)
  qed (use m t in \<open>auto simp: andThen_def\<close>)
qed

lemma start_loop_disciplined: "(\<And>s. keeps b s (f s)) \<Longrightarrow> disciplined_run b s (start_loop E r n f k s)"
proof (induction k arbitrary: s)
  case (Suc k)
  have throws: "disciplined_run b s (throw e)" for s e by (intro disciplined_run_free emits_intros)
  have retry: "disciplined_run b s (andThen (RetryClosure E r f s) (\<lambda>(res', s''). case res' of
      None \<Rightarrow> start_loop E r n f k s'' | Some err' \<Rightarrow> throw err'))" for s
    unfolding RetryClosure_def
    by (rule disciplined_run_bind [OF retry_closure_keeps [OF Suc.prems]])
      (auto simp: throws Suc split: option.split)
  have tick: "disciplined_run b s (andThen (ImmediateTickerClosure E n tickerPeriod f s) (\<lambda>(res, s'). case res of
      None \<Rightarrow> start_loop E r n f k s'
    | Some err \<Rightarrow> andThen (RetryClosure E r f s') (\<lambda>(res', s''). case res' of
        None \<Rightarrow> start_loop E r n f k s'' | Some err' \<Rightarrow> throw err')))" for s
    by (rule disciplined_run_bind [OF ImmediateTickerClosure_keeps [OF Suc.prems]])
      (auto simp: retry Suc split: option.split)
  have c: "emits free (ctxErr E)" by (intro emits_intros) simp
  show ?case unfolding start_loop.simps
    by (rule disciplined_run_andThen [OF c]) (use throws tick in \<open>auto split: option.split\<close>)
qed (simp only: start_loop.simps disciplined_run_free emits_lift)

lemma start_loop_not_Ok: "fst (start_loop E r n f k s h) \<noteq> Ok ()"
proof (induction k arbitrary: s h)
  case (Suc k)
  show ?case
    by (auto simp: andThen_def Suc split: option.split prod.split outcome.split)
qed simp

section \<open>Properties\<close>

text \<open>
  C13: A backup relayer writes to the contract only after it has slept since it was started or since
  the last nonce it relayed, through every tick and every retry of the main loop.
\<close>

theorem backup_relayer_waits_before_relaying:
  "\<exists>t. snd (Relayer_Start L E elasticity fuel R rounds h) = t @ h \<and> disciplined (IsBackupRelayer R) False (rev t)"
proof -
  have "emits free (NewEthClient E)" unfolding NewEthClient_def by (intro emits_intros) simp
  then have "disciplined_run (IsBackupRelayer R) False (Relayer_Start L E elasticity fuel R rounds)"
    unfolding Relayer_Start_def by (intro disciplined_run_andThen start_loop_disciplined processFunc_keeps)
  then show ?thesis unfolding disciplined_run_def by blast
qed

text \<open>
  \<open>Start\<close> never returns without an error.
\<close>

theorem Relayer_Start_never_nil: "fst (Relayer_Start L E elasticity fuel R rounds h) \<noteq> Ok ()"
  by (auto simp: Relayer_Start_def andThen_def start_loop_not_Ok split: prod.split outcome.split)

text \<open>
  C34: The processing function ends without an error only when the contract has caught up: the last two
  answers it got are the contract's nonce and a latest nonce that is not larger.
\<close>

theorem processFunc_ends_caught_up:
  assumes "processFunc L E elasticity polls R rounds flag h = (Ok (None, flag'), h')"
  shows "\<exists>latest n t. h' = App (LatestNonce None (Ok latest)) # Contract (StateEventNonce (Ok n)) # t \<and> latest \<le> of_nat n"
  using assms
proof (induction rounds arbitrary: flag h)
  case (Suc rounds)
  then show ?case
    by (auto simp: andThen_eq_Ok orReturn_def handle_eq_Ok StateLastEventNonce_def QueryLatestAttestationNonce_def
        split: option.splits if_splits)
qed simp

theorem processFunc_ends_caught_up_witness:
  "\<exists>latest n t. [App (LatestNonce None (Ok 1)), Contract (StateEventNonce (Ok 1)), Local (CtxErr None)] =
     App (LatestNonce None (Ok latest)) # Contract (StateEventNonce (Ok n)) # t \<and> latest \<le> of_nat n"
proof -
  let ?E = "ref_env\<lparr>app_latest_nonce := (\<lambda>_ _. Ok 1)\<rparr>"
  let ?R = "\<lparr>EVMClient = sample_client, RelRetrier = NewRetrier 2 5, RetryTimeout = 9, IsBackupRelayer = True, BackupRelayerWaitTime = 60\<rparr>"
  have "processFunc ref_lib ?E 2 3 ?R (Suc 0) False [] =
      (Ok (None, False), [App (LatestNonce None (Ok 1)), Contract (StateEventNonce (Ok 1)), Local (CtxErr None)])"
    by (simp add: orReturn_def handle_def StateLastEventNonce_def QueryLatestAttestationNonce_def andThen_def ref_env_def)
  from processFunc_ends_caught_up [OF this] show ?thesis .
qed

end
