(* ===== verification/FileSys.thy ===== *)
theory FileSys imports GoStd begin

text \<open>
  The file system as the store uses it: \<open>path/filepath\<close> (\<open>Clean\<close> and \<open>Join\<close>), and the system calls
  behind \<open>os\<close> and \<open>syscall.Flock\<close> over an explicit state with inodes, open descriptors and the
  locks on inodes. What the operating system may refuse for reasons that are not in this state
  (permissions, a full disk) is a parameter: a call that it refuses changes nothing.
\<close>

section \<open>path/filepath\<close>

text \<open>One component of a path against the components kept so far, innermost first.\<close>

definition clean_step :: "bool \<Rightarrow> string list \<Rightarrow> string \<Rightarrow> string list" where
  "clean_step rooted kept c =
     (if c = [] \<or> c = ''.'' then kept
      else if c = ''..'' then
        (case kept of
           [] \<Rightarrow> if rooted then [] else [''..'']
         | k # ks \<Rightarrow> if k = ''..'' then ''..'' # k # ks else ks)
      else c # kept)"

definition clean_parts :: "bool \<Rightarrow> string list \<Rightarrow> string list" where
  "clean_parts rooted parts = rev (foldl (clean_step rooted) [] parts)"

definition IsAbs :: "string \<Rightarrow> bool" where
  "IsAbs path \<longleftrightarrow> HasPrefix path ''/''"

definition Clean :: "string \<Rightarrow> string" where
  "Clean path =
     (let rooted = IsAbs path; parts = clean_parts rooted (Split (CHR ''/'') path)
      in if rooted then CHR ''/'' # join (CHR ''/'') parts
         else if parts = [] then ''.'' else join (CHR ''/'') parts)"

text \<open>\<open>filepath.Join(base, elem)\<close> of two elements.\<close>

definition Join :: "string \<Rightarrow> string \<Rightarrow> string" where
  "Join base elem =
     (if base = [] then (if elem = [] then [] else Clean elem)
      else if elem = [] then Clean base
      else Clean (base @ CHR ''/'' # elem))"

section \<open>Files\<close>

text \<open>A path is a directory or names an inode; a descriptor is open on an inode; an inode is locked through a descriptor.\<close>

datatype node = DirNode | FileNode nat

record fs =
  Nodes :: "string \<Rightarrow> node option"
  Fds :: "nat \<Rightarrow> nat option"
  Locks :: "nat \<Rightarrow> nat option"
  NextInode :: nat
  NextFd :: nat

definition empty_fs :: fs where
  "empty_fs = \<lparr>Nodes = (\<lambda>_. None), Fds = (\<lambda>_. None), Locks = (\<lambda>_. None), NextInode = 0, NextFd = 0\<rparr>"

datatype syscall =
    SysStat string | SysMkdirAll string | SysOpen string | SysWrite nat | SysFlock nat | SysUnflock nat
  | SysClose nat | SysRemove string

type_synonym faults = "syscall \<Rightarrow> fs \<Rightarrow> go_error option"

type_synonym 'a sys = "fs \<Rightarrow> 'a outcome \<times> fs"

definition sysret :: "'a \<Rightarrow> 'a sys" where
  "sysret x s = (Ok x, s)"

definition sysfail :: "go_error \<Rightarrow> 'a sys" where
  "sysfail e s = (Err e, s)"

definition seq :: "'a sys \<Rightarrow> ('a \<Rightarrow> 'b sys) \<Rightarrow> 'b sys" where
  "seq m f s = (case m s of (r, s') \<Rightarrow>
     (case r of Ok x \<Rightarrow> f x s' | Err e \<Rightarrow> (Err e, s') | Panic p \<Rightarrow> (Panic p, s') | Blocked \<Rightarrow> (Blocked, s')))"

definition attempt :: "'a sys \<Rightarrow> ('a \<Rightarrow> 'b sys) \<Rightarrow> (go_error \<Rightarrow> 'b sys) \<Rightarrow> 'b sys" where
  "attempt m f g s = (case m s of (r, s') \<Rightarrow>
     (case r of Ok x \<Rightarrow> f x s' | Err e \<Rightarrow> g e s' | Panic p \<Rightarrow> (Panic p, s') | Blocked \<Rightarrow> (Blocked, s')))"

definition refused :: "faults \<Rightarrow> syscall \<Rightarrow> 'a sys \<Rightarrow> 'a sys" where
  "refused F c m s = (case F c s of Some e \<Rightarrow> (Err e, s) | None \<Rightarrow> m s)"

section \<open>System calls\<close>

definition os_Stat :: "faults \<Rightarrow> string \<Rightarrow> unit sys" where
  "os_Stat F path = refused F (SysStat path) (\<lambda>s. if Nodes s path = None then (Err OsNotExist, s) else (Ok (), s))"

text \<open>The path and its parents.\<close>

definition path_prefixes :: "string \<Rightarrow> string list" where
  "path_prefixes path = (let parts = Split (CHR ''/'') path in
     filter (\<lambda>p. p \<noteq> []) (map (\<lambda>k. join (CHR ''/'') (take k parts)) [1 ..< length parts + 1]))"

definition is_file :: "fs \<Rightarrow> string \<Rightarrow> bool" where
  "is_file s path \<longleftrightarrow> (case Nodes s path of Some (FileNode i) \<Rightarrow> True | _ \<Rightarrow> False)"

definition os_MkdirAll :: "faults \<Rightarrow> string \<Rightarrow> unit sys" where
  "os_MkdirAll F path = refused F (SysMkdirAll path) (\<lambda>s.
     if list_ex (is_file s) (path_prefixes path) then (Err (Ext ''not a directory''), s)
     else (Ok (), s\<lparr>Nodes := (\<lambda>p. if p \<in> set (path_prefixes path) then Some DirNode else Nodes s p)\<rparr>))"

text \<open>\<open>os.OpenFile\<close> with \<open>O_CREATE\<close>, and \<open>os.Create\<close>.\<close>

definition os_OpenCreate :: "faults \<Rightarrow> string \<Rightarrow> nat sys" where
  "os_OpenCreate F path = refused F (SysOpen path) (\<lambda>s. case Nodes s path of
       Some DirNode \<Rightarrow> (Err (Ext ''is a directory''), s)
     | Some (FileNode i) \<Rightarrow> (Ok (NextFd s), s\<lparr>Fds := (Fds s)(NextFd s \<mapsto> i), NextFd := Suc (NextFd s)\<rparr>)
     | None \<Rightarrow> (Ok (NextFd s),
         s\<lparr>Nodes := (Nodes s)(path \<mapsto> FileNode (NextInode s)), NextInode := Suc (NextInode s),
           Fds := (Fds s)(NextFd s \<mapsto> NextInode s), NextFd := Suc (NextFd s)\<rparr>))"

definition os_WriteString :: "faults \<Rightarrow> nat \<Rightarrow> unit sys" where
  "os_WriteString F fd = refused F (SysWrite fd) (sysret ())"

definition EAGAIN :: go_error where
  "EAGAIN = Ext ''resource temporarily unavailable''"

text \<open>\<open>flock(fd, LOCK_EX | LOCK_NB)\<close> and \<open>flock(fd, LOCK_UN | LOCK_NB)\<close>.\<close>

definition flock_ex :: "faults \<Rightarrow> nat \<Rightarrow> unit sys" where
  "flock_ex F fd = refused F (SysFlock fd) (\<lambda>s. case Fds s fd of
       None \<Rightarrow> (Err (Ext ''bad file descriptor''), s)
     | Some i \<Rightarrow> (case Locks s i of
           None \<Rightarrow> (Ok (), s\<lparr>Locks := (Locks s)(i \<mapsto> fd)\<rparr>)
         | Some fd' \<Rightarrow> if fd' = fd then (Ok (), s) else (Err EAGAIN, s)))"

definition release :: "nat \<Rightarrow> fs \<Rightarrow> fs" where
  "release fd s = s\<lparr>Locks := (\<lambda>i. if Locks s i = Some fd then None else Locks s i)\<rparr>"

definition flock_un :: "faults \<Rightarrow> nat \<Rightarrow> unit sys" where
  "flock_un F fd = refused F (SysUnflock fd) (\<lambda>s.
     if Fds s fd = None then (Err (Ext ''bad file descriptor''), s) else (Ok (), release fd s))"

text \<open>Closing a descriptor releases its lock.\<close>

definition os_Close :: "faults \<Rightarrow> nat \<Rightarrow> unit sys" where
  "os_Close F fd = refused F (SysClose fd) (\<lambda>s.
     (Ok (), (release fd s)\<lparr>Fds := (Fds s)(fd := None)\<rparr>))"

definition os_Remove :: "faults \<Rightarrow> string \<Rightarrow> unit sys" where
  "os_Remove F path = refused F (SysRemove path) (\<lambda>s.
     if Nodes s path = None then (Err OsNotExist, s) else (Ok (), s\<lparr>Nodes := (Nodes s)(path := None)\<rparr>))"

section \<open>Lemmas\<close>

definition no_faults :: faults where
  "no_faults = (\<lambda>_ _. None)"

lemma no_faults_simp [simp]: "refused no_faults c m s = m s"
  by (simp add: refused_def no_faults_def)

lemma seq_eq_Ok: "seq m f s = (Ok y, s') \<longleftrightarrow> (\<exists>x s1. m s = (Ok x, s1) \<and> f x s1 = (Ok y, s'))"
  by (auto simp: seq_def split: prod.splits outcome.splits)

lemma attempt_eq_Ok:
  "attempt m f g s = (Ok y, s') \<longleftrightarrow>
     (\<exists>s1. (\<exists>x. m s = (Ok x, s1) \<and> f x s1 = (Ok y, s')) \<or> (\<exists>e. m s = (Err e, s1) \<and> g e s1 = (Ok y, s')))"
  by (auto simp: attempt_def split: prod.splits outcome.splits)

lemma refused_eq_Ok: "refused F c m s = (Ok y, s') \<longleftrightarrow> F c s = None \<and> m s = (Ok y, s')"
  by (auto simp: refused_def split: option.splits)

lemma sysret_run [simp]: "sysret x s = (Ok x, s)"
  by (simp add: sysret_def)

lemma sysfail_run [simp]: "sysfail e s = (Err e, s)"
  by (simp add: sysfail_def)

section \<open>Cleaning twice\<close>

text \<open>What \<open>Clean\<close> keeps: no empty component, no \<open>.\<close>, and \<open>..\<close> only in front of a relative path.\<close>

fun normal :: "bool \<Rightarrow> string list \<Rightarrow> bool" where
  "normal rooted [] = True"
| "normal rooted (c # kept) =
     (c \<noteq> [] \<and> c \<noteq> ''.'' \<and> CHR ''/'' \<notin> set c \<and>
      (c = ''..'' \<longrightarrow> \<not> rooted \<and> list_all (\<lambda>k. k = ''..'') kept) \<and> normal rooted kept)"

lemma normal_append: "normal rooted (xs @ ys) \<Longrightarrow> normal rooted ys"
  by (induction xs) auto

lemma normal_step: "normal rooted kept \<Longrightarrow> CHR ''/'' \<notin> set c \<Longrightarrow> normal rooted (clean_step rooted kept c)"
  by (cases kept) (auto simp: clean_step_def)

lemma normal_foldl:
  "list_all (\<lambda>c. CHR ''/'' \<notin> set c) parts \<Longrightarrow> normal rooted kept \<Longrightarrow> normal rooted (foldl (clean_step rooted) kept parts)"
  by (induction parts arbitrary: kept) (simp_all add: normal_step)

text \<open>Folding over components that are already clean keeps them all.\<close>

lemma foldl_clean: "normal rooted (rev parts @ kept) \<Longrightarrow> foldl (clean_step rooted) kept parts = rev parts @ kept"
proof (induction parts arbitrary: kept)
  case (Cons c parts)
  have "normal rooted (c # kept)" by (rule normal_append [of rooted "rev parts"]) (use Cons.prems in simp)
  then have "clean_step rooted kept c = c # kept" by (cases kept) (auto simp: clean_step_def)
  then show ?case using Cons.IH [of "c # kept"] Cons.prems by simp
qed simp

lemma clean_parts_normal: "normal rooted (rev (clean_parts rooted (Split (CHR ''/'') path)))"
  unfolding clean_parts_def rev_rev_ident
  by (rule normal_foldl) (auto simp: list_all_iff dest: Split_fresh_parts)

lemma clean_parts_again: "normal rooted (rev parts) \<Longrightarrow> clean_parts rooted parts = parts"
  using foldl_clean [of rooted parts "[]"] by (simp add: clean_parts_def)

lemma Split_join: "ps \<noteq> [] \<Longrightarrow> list_all (\<lambda>c. s \<notin> set c) ps \<Longrightarrow> Split s (join s ps) = ps"
proof (induction ps)
  case (Cons p ps)
  then show ?case by (cases "ps = []") (simp_all add: Split_fresh join_Cons Split_append)
qed simp

lemma normal_parts: "normal rooted kept \<Longrightarrow> list_all (\<lambda>c. c \<noteq> [] \<and> c \<noteq> ''.'' \<and> CHR ''/'' \<notin> set c) kept"
  by (induction kept) auto

lemma IsAbs_join:
  assumes "normal rooted (rev parts)" and "parts \<noteq> []"
  shows "\<not> IsAbs (join (CHR ''/'') parts)"
proof -
  obtain p ps where p: "parts = p # ps" using assms(2) by (cases parts) auto
  have "p \<noteq> []" "CHR ''/'' \<notin> set p" using normal_parts [OF assms(1)] by (auto simp: p)
  then obtain x xs where "p = x # xs" "x \<noteq> CHR ''/''" by (cases p) auto
  then show ?thesis by (cases ps) (simp_all add: p IsAbs_def)
qed

lemma clean_step_dot [simp]: "clean_step rooted kept [] = kept" "clean_step rooted kept ''.'' = kept"
  by (simp_all add: clean_step_def)

lemma Clean_idem: "Clean (Clean path) = Clean path"
proof -
  define parts where "parts = clean_parts (IsAbs path) (Split (CHR ''/'') path)"
  have n: "normal (IsAbs path) (rev parts)" unfolding parts_def by (rule clean_parts_normal)
  have fresh: "list_all (\<lambda>c. CHR ''/'' \<notin> set c) parts" using normal_parts [OF n] by (simp add: list_all_iff)
  note again = clean_parts_again [OF n]
  show ?thesis
  proof (cases "IsAbs path")
    case True
    have c: "Clean path = CHR ''/'' # join (CHR ''/'') parts" using True by (simp add: Clean_def parts_def Let_def)
    have "clean_parts True ([] # Split (CHR ''/'') (join (CHR ''/'') parts)) = parts"
    proof (cases "parts = []")
      case True
      then show ?thesis by (simp add: clean_parts_def)
    next
      case False
      then show ?thesis using again True Split_join [OF False fresh] by (simp add: clean_parts_def)
    qed
    then show ?thesis unfolding c by (simp add: Clean_def IsAbs_def)
  next
    case False
    show ?thesis
    proof (cases "parts = []")
      case True
      then have "Clean path = ''.''" using False by (simp add: Clean_def parts_def Let_def)
      then show ?thesis by (simp add: Clean_def IsAbs_def clean_parts_def)
    next
      case ne: False
      then have c: "Clean path = join (CHR ''/'') parts" using False by (simp add: Clean_def parts_def Let_def)
      show ?thesis unfolding c
        using IsAbs_join [OF n ne] Split_join [OF ne fresh] again False ne by (simp add: Clean_def Let_def)
    qed
  qed
qed

end
