(* ===== verification/Fslock.thy ===== *)
theory Fslock imports FileSys begin

text \<open>
  \<open>store/fslock\<close>: the lock file that keeps two processes from using one directory. The methods are
  first functions on the file system; then they are taken apart into their system calls and run by
  several processes at once.
\<close>

section \<open>Locker\<close>

record locker =
  LockFile :: "nat option"
  LockPath :: string

definition New :: "string \<Rightarrow> locker" where
  "New path = \<lparr>LockFile = None, LockPath = path\<rparr>"

text \<open>Both give the locker back, as the method changes its field, with the error.\<close>

definition lock :: "faults \<Rightarrow> locker \<Rightarrow> (locker \<times> go_error option) sys" where
  "lock F l =
     attempt (os_OpenCreate F (LockPath l))
       (\<lambda>fd. let l' = l\<lparr>LockFile := Some fd\<rparr> in
          attempt (os_WriteString F fd)
            (\<lambda>_. attempt (flock_ex F fd)
               (\<lambda>_. sysret (l', None))
               (\<lambda>e. sysret (l', Some (if e = EAGAIN then ErrLocked else Wrap e ''fslock: flocking error''))))
            (\<lambda>e. sysret (l', Some (Wrap e ''fslock: error writing process id''))))
       (\<lambda>e. sysret (l\<lparr>LockFile := None\<rparr>, Some (Wrap e ''fslock: error opening file'')))"

definition unlock :: "faults \<Rightarrow> locker \<Rightarrow> nat \<Rightarrow> (locker \<times> go_error option) sys" where
  "unlock F l fd =
     attempt (flock_un F fd)
       (\<lambda>_. let l' = l\<lparr>LockFile := None\<rparr> in
          attempt (os_Close F fd)
            (\<lambda>_. attempt (os_Remove F (LockPath l)) (\<lambda>_. sysret (l', None)) (\<lambda>e. sysret (l', Some e)))
            (\<lambda>e. sysret (l', Some (Wrap e ''fslock: while closing file''))))
       (\<lambda>e. sysret (l, Some (Wrap e ''fslock: unflocking error'')))"

text \<open>\<open>Unlock\<close> of a nil locker or of one without a file does nothing.\<close>

definition Unlock :: "faults \<Rightarrow> locker option \<Rightarrow> (locker option \<times> go_error option) sys" where
  "Unlock F lo = (case lo of
       None \<Rightarrow> sysret (None, None)
     | Some l \<Rightarrow> (case LockFile l of
           None \<Rightarrow> sysret (Some l, None)
         | Some fd \<Rightarrow> seq (unlock F l fd) (\<lambda>(l', e). sysret (Some l', e))))"

definition Lock :: "faults \<Rightarrow> string \<Rightarrow> locker sys" where
  "Lock F path = seq (lock F (New path)) (\<lambda>(l, err). case err of None \<Rightarrow> sysret l | Some e \<Rightarrow> sysfail e)"

section \<open>One process\<close>

text \<open>Descriptors and inodes are numbered: those not yet given out are free.\<close>

definition fs_ok :: "fs \<Rightarrow> bool" where
  "fs_ok s \<longleftrightarrow> (\<forall>fd i. Fds s fd = Some i \<longrightarrow> fd < NextFd s \<and> i < NextInode s) \<and>
     (\<forall>i fd. Locks s i = Some fd \<longrightarrow> Fds s fd = Some i) \<and>
     (\<forall>p i. Nodes s p = Some (FileNode i) \<longrightarrow> i < NextInode s)"

text \<open>Somebody holds the lock on the inode that the path names.\<close>

definition locked :: "fs \<Rightarrow> string \<Rightarrow> bool" where
  "locked s path \<longleftrightarrow> (\<exists>i fd. Nodes s path = Some (FileNode i) \<and> Locks s i = Some fd)"

lemma fs_okD:
  "fs_ok s \<Longrightarrow> Fds s fd = Some i \<Longrightarrow> fd < NextFd s \<and> i < NextInode s"
  "fs_ok s \<Longrightarrow> Locks s i = Some fd \<Longrightarrow> Fds s fd = Some i"
  "fs_ok s \<Longrightarrow> Nodes s p = Some (FileNode i) \<Longrightarrow> i < NextInode s"
  by (auto simp: fs_ok_def)

lemma no_lock_at_next: "fs_ok s \<Longrightarrow> Locks s (NextInode s) = None"
  using fs_okD(1,2) by (metis less_irrefl option.exhaust)

lemma no_lock_by_next: "fs_ok s \<Longrightarrow> Locks s i \<noteq> Some (NextFd s)"
  using fs_okD(1,2) by blast

text \<open>What \<open>Lock\<close> does when the system refuses nothing.\<close>

definition lock_inode :: "fs \<Rightarrow> string \<Rightarrow> nat" where
  "lock_inode s path = (case Nodes s path of Some (FileNode i) \<Rightarrow> i | _ \<Rightarrow> NextInode s)"

definition opened :: "fs \<Rightarrow> string \<Rightarrow> fs" where
  "opened s path = snd (os_OpenCreate no_faults path s)"

lemma opened_simps:
  assumes "Nodes s path \<noteq> Some DirNode"
  shows "os_OpenCreate no_faults path s = (Ok (NextFd s), opened s path)"
    "Nodes (opened s path) = (Nodes s)(path \<mapsto> FileNode (lock_inode s path))"
    "Fds (opened s path) = (Fds s)(NextFd s \<mapsto> lock_inode s path)"
    "Locks (opened s path) = Locks s" "NextFd (opened s path) = Suc (NextFd s)"
    "NextInode (opened s path) = (if Nodes s path = None then Suc (NextInode s) else NextInode s)"
  using assms by (auto simp: opened_def os_OpenCreate_def lock_inode_def fun_eq_iff split: option.splits node.splits)

lemma opened_ok:
  assumes "fs_ok s" and "Nodes s path \<noteq> Some DirNode"
  shows "fs_ok (opened s path)"
proof -
  have n: "\<And>p i. Nodes s p = Some (FileNode i) \<Longrightarrow> i < NextInode s" using assms(1) by (auto simp: fs_ok_def)
  have i: "lock_inode s path < NextInode (opened s path)"
    using assms n [of path] by (auto simp: opened_simps lock_inode_def split: option.splits node.splits)
  have grow: "NextInode s \<le> NextInode (opened s path)" using assms by (simp add: opened_simps)
  show ?thesis
    using assms i unfolding fs_ok_def opened_simps(2-5) [OF assms(2)]
    by (auto intro: less_SucI order_less_le_trans [OF _ grow])
qed

lemma Lock_run:
  assumes "Nodes s path \<noteq> Some DirNode" and "fs_ok s"
  shows "Lock no_faults path s =
    (if Locks s (lock_inode s path) = None
     then (Ok \<lparr>LockFile = Some (NextFd s), LockPath = path\<rparr>,
           (opened s path)\<lparr>Locks := (Locks s)(lock_inode s path \<mapsto> NextFd s)\<rparr>)
     else (Err ErrLocked, opened s path))"
  using opened_simps [OF assms(1)] no_lock_by_next [OF assms(2)]
  by (auto simp: Lock_def lock_def New_def seq_def attempt_def Let_def os_WriteString_def flock_ex_def EAGAIN_def
      split: option.splits)

lemma Lock_ok:
  assumes "fs_ok s" and "Nodes s path \<noteq> Some DirNode"
  shows "fs_ok (snd (Lock no_faults path s))"
  using opened_ok [OF assms] assms fs_okD(2) [OF assms(1)]
  by (auto simp: Lock_run fs_ok_def opened_simps split: if_splits)

lemma Lock_locks:
  assumes "fs_ok s" and "Nodes s path \<noteq> Some DirNode" and "Lock no_faults path s = (Ok l, s')"
  shows "locked s' path" and "LockFile l = Some (NextFd s)" and "LockPath l = path" and "\<not> locked s path"
  using assms by (auto simp: Lock_run locked_def opened_simps lock_inode_def split: if_splits option.splits node.splits)

lemma Lock_busy:
  assumes "fs_ok s" and "locked s path"
  shows "\<exists>s'. Lock no_faults path s = (Err ErrLocked, s')"
proof -
  have "Nodes s path \<noteq> Some DirNode" using assms(2) by (auto simp: locked_def)
  then show ?thesis using assms by (auto simp: Lock_run locked_def lock_inode_def)
qed

lemma Unlock_run:
  assumes "LockFile l = Some fd" and "Fds s fd = Some i" and "Nodes s (LockPath l) \<noteq> None"
  shows "Unlock no_faults (Some l) s =
    (Ok (Some (l\<lparr>LockFile := None\<rparr>), None),
     (release fd s)\<lparr>Fds := (Fds s)(fd := None), Nodes := (Nodes s)(LockPath l := None)\<rparr>)"
  using assms
  by (simp add: Unlock_def unlock_def seq_def attempt_def Let_def flock_un_def os_Close_def os_Remove_def release_def fun_eq_iff)

lemma Unlock_ok: "fs_ok s \<Longrightarrow> fs_ok ((release fd s)\<lparr>Fds := (Fds s)(fd := None), Nodes := (Nodes s)(p := None)\<rparr>)"
  by (auto simp: fs_ok_def release_def)

section \<open>The lock as a mutex\<close>

text \<open>Different paths name different inodes. The abstract state is the set of locked paths.\<close>

definition fs_wf :: "fs \<Rightarrow> bool" where
  "fs_wf s \<longleftrightarrow> fs_ok s \<and> (\<forall>p q i. Nodes s p = Some (FileNode i) \<longrightarrow> Nodes s q = Some (FileNode i) \<longrightarrow> p = q)"

definition held_paths :: "fs \<Rightarrow> string set" where
  "held_paths s = {p. locked s p}"

lemma fs_wfD: "fs_wf s \<Longrightarrow> Nodes s p = Some (FileNode i) \<Longrightarrow> Nodes s q = Some (FileNode i) \<Longrightarrow> p = q"
  by (simp add: fs_wf_def)

lemma fresh_inode: "fs_wf s \<Longrightarrow> Nodes s p \<noteq> Some (FileNode (NextInode s))"
  using fs_okD(3) by (auto simp: fs_wf_def)

lemma opened_wf:
  assumes "fs_wf s" and "Nodes s path \<noteq> Some DirNode"
  shows "fs_wf (opened s path)"
proof -
  have "fs_ok (opened s path)" using opened_ok assms by (simp add: fs_wf_def)
  moreover have "p = q" if "Nodes (opened s path) p = Some (FileNode i)" "Nodes (opened s path) q = Some (FileNode i)" for p q i
    using that assms fresh_inode [OF assms(1)] fs_wfD [OF assms(1)]
    by (auto simp: opened_simps lock_inode_def split: if_splits option.splits node.splits)
  ultimately show ?thesis unfolding fs_wf_def by blast
qed

lemma opened_held:
  assumes "fs_wf s" and "Nodes s path \<noteq> Some DirNode"
  shows "held_paths (opened s path) = held_paths s"
  using assms no_lock_at_next [of s]
  by (auto simp: held_paths_def locked_def opened_simps lock_inode_def fs_wf_def split: if_splits option.splits node.splits)

lemma Lock_held:
  assumes "fs_wf s" and "Nodes s path \<noteq> Some DirNode"
  shows "held_paths ((opened s path)\<lparr>Locks := (Locks s)(lock_inode s path \<mapsto> NextFd s)\<rparr>) = insert path (held_paths s)"
proof -
  have "lock_inode s path \<noteq> i" if n: "Nodes s p = Some (FileNode i)" and "p \<noteq> path" for p i
  proof (cases "Nodes s path")
    case None
    then show ?thesis using n fresh_inode [OF assms(1), of p] by (auto simp: lock_inode_def)
  next
    case (Some k)
    then obtain j where j: "Nodes s path = Some (FileNode j)" using assms(2) by (cases k) auto
    then have "j \<noteq> i" using fs_wfD [OF assms(1) n, of path] that(2) by blast
    then show ?thesis using j by (simp add: lock_inode_def)
  qed
  then show ?thesis using assms(2) by (auto simp: held_paths_def locked_def opened_simps)
qed

lemma Unlock_held:
  assumes "fs_wf s" and "Nodes s path = Some (FileNode i)" and "Locks s i = Some fd"
  shows "held_paths ((release fd s)\<lparr>Fds := (Fds s)(fd := None), Nodes := (Nodes s)(path := None)\<rparr>) = held_paths s - {path}"
proof -
  have "Locks s j \<noteq> Some fd" if "Nodes s p = Some (FileNode j)" "p \<noteq> path" for p j
  proof
    assume "Locks s j = Some fd"
    then have "j = i" using assms fs_okD(2) by (metis fs_wf_def option.inject)
    then show False using fs_wfD [OF assms(1) that(1), of path] assms(2) that(2) by simp
  qed
  then show ?thesis by (auto simp: held_paths_def locked_def release_def)
qed

section \<open>Several processes\<close>

text \<open>
  Where a process is in \<open>Lock\<close> or \<open>Unlock\<close> of the path: it has opened the file and is about to lock
  it; it holds the lock; it has unlocked the file and is about to close it, then to remove the path.
\<close>

datatype phase = PIdle | POpened nat | PHolds nat | PUnlocked nat | PClosed

inductive lock_step :: "string \<Rightarrow> fs \<times> (nat \<Rightarrow> phase) \<Rightarrow> fs \<times> (nat \<Rightarrow> phase) \<Rightarrow> bool" for path where
  open_file: "ps p = PIdle \<Longrightarrow> os_OpenCreate no_faults path s = (Ok fd, s') \<Longrightarrow>
    lock_step path (s, ps) (s', ps(p := POpened fd))"
| flock_ok: "ps p = POpened fd \<Longrightarrow> flock_ex no_faults fd s = (Ok (), s') \<Longrightarrow>
    lock_step path (s, ps) (s', ps(p := PHolds fd))"
| flock_busy: "ps p = POpened fd \<Longrightarrow> flock_ex no_faults fd s = (Err EAGAIN, s') \<Longrightarrow>
    lock_step path (s, ps) (s', ps(p := PIdle))"
| unflock: "ps p = PHolds fd \<Longrightarrow> flock_un no_faults fd s = (Ok (), s') \<Longrightarrow>
    lock_step path (s, ps) (s', ps(p := PUnlocked fd))"
| close_file: "ps p = PUnlocked fd \<Longrightarrow> os_Close no_faults fd s = (Ok (), s') \<Longrightarrow>
    lock_step path (s, ps) (s', ps(p := PClosed))"
| remove_path: "ps p = PClosed \<Longrightarrow> os_Remove no_faults path s = (r, s') \<Longrightarrow>
    lock_step path (s, ps) (s', ps(p := PIdle))"

inductive lock_reachable :: "string \<Rightarrow> fs \<times> (nat \<Rightarrow> phase) \<Rightarrow> bool" for path where
  start: "lock_reachable path (empty_fs, \<lambda>_. PIdle)"
| more: "lock_reachable path c \<Longrightarrow> lock_step path c c' \<Longrightarrow> lock_reachable path c'"

inductive_cases lock_stepE: "lock_step path (s, ps) c'"

text \<open>
  What the lock does give: never two holders of one inode. The invariant says that every process's
  descriptor is its own and open, and a holder's inode is locked by it.
\<close>

fun phase_fd :: "phase \<Rightarrow> nat option" where
  "phase_fd PIdle = None"
| "phase_fd (POpened fd) = Some fd"
| "phase_fd (PHolds fd) = Some fd"
| "phase_fd (PUnlocked fd) = Some fd"
| "phase_fd PClosed = None"

definition own_fds :: "fs \<Rightarrow> (nat \<Rightarrow> phase) \<Rightarrow> bool" where
  "own_fds s ps \<longleftrightarrow> (\<forall>p fd. phase_fd (ps p) = Some fd \<longrightarrow> fd < NextFd s) \<and>
     (\<forall>p q fd. phase_fd (ps p) = Some fd \<longrightarrow> phase_fd (ps q) = Some fd \<longrightarrow> p = q) \<and>
     (\<forall>i fd. Locks s i = Some fd \<longrightarrow> fd < NextFd s)"

definition holders_lock :: "fs \<Rightarrow> (nat \<Rightarrow> phase) \<Rightarrow> bool" where
  "holders_lock s ps \<longleftrightarrow> (\<forall>p fd. ps p = PHolds fd \<longrightarrow> (\<exists>i. Fds s fd = Some i \<and> Locks s i = Some fd))"

lemma os_OpenCreate_Ok:
  assumes "os_OpenCreate no_faults path s = (Ok fd, s')"
  obtains i where "fd = NextFd s" "NextFd s' = Suc (NextFd s)" "Fds s' = (Fds s)(fd \<mapsto> i)" "Locks s' = Locks s"
proof -
  have "Nodes s path \<noteq> Some DirNode" using assms by (auto simp: os_OpenCreate_def)
  from opened_simps [OF this] assms that show thesis by simp
qed

lemma flock_ex_Ok:
  assumes "flock_ex no_faults fd s = (Ok (), s')"
  obtains i where "Fds s fd = Some i" "Locks s i = None \<or> Locks s i = Some fd" "s' = s\<lparr>Locks := (Locks s)(i \<mapsto> fd)\<rparr>"
  using assms by (auto simp: flock_ex_def fun_upd_idem split: option.splits if_splits)

lemma flock_ex_Err: "flock_ex no_faults fd s = (Err e, s') \<Longrightarrow> s' = s"
  by (auto simp: flock_ex_def split: option.splits if_splits)

lemma own_fdsD:
  assumes "own_fds s ps" and "phase_fd (ps p) = Some fd"
  shows "fd < NextFd s" and "ps q = PHolds fd \<Longrightarrow> q = p"
  using assms unfolding own_fds_def by (blast, metis phase_fd.simps(3))

lemma own_fds_step:
  assumes "lock_step path (s, ps) (s', ps')" and o: "own_fds s ps"
  shows "own_fds s' ps'"
  using assms(1)
proof cases
  case (open_file p fd)
  obtain i where "fd = NextFd s" "NextFd s' = Suc (NextFd s)" "Locks s' = Locks s"
    using os_OpenCreate_Ok [OF open_file(3)] by metis
  then show ?thesis using open_file(1) o unfolding own_fds_def
    by (auto intro: less_SucI)
next
  case (flock_ok p fd)
  obtain i where "s' = s\<lparr>Locks := (Locks s)(i \<mapsto> fd)\<rparr>" using flock_ex_Ok [OF flock_ok(3)] by metis
  moreover have "fd < NextFd s" using flock_ok(2) o unfolding own_fds_def by (metis phase_fd.simps(2))
  ultimately show ?thesis using flock_ok(1,2) o unfolding own_fds_def by (auto split: if_splits)
next
  case (flock_busy p fd)
  then show ?thesis using o flock_ex_Err [OF flock_busy(3)] unfolding own_fds_def by auto
next
  case (unflock p fd)
  moreover have "fd < NextFd s" by (rule own_fdsD(1) [OF o, of p]) (simp add: unflock(2))
  ultimately show ?thesis using o unfolding own_fds_def
    by (auto simp: flock_un_def release_def split: if_splits)
next
  case (close_file p fd)
  moreover have "fd < NextFd s" by (rule own_fdsD(1) [OF o, of p]) (simp add: close_file(2))
  ultimately show ?thesis using o unfolding own_fds_def
    by (auto simp: os_Close_def release_def split: if_splits)
next
  case (remove_path p r)
  then show ?thesis using o unfolding own_fds_def
    by (auto simp: os_Remove_def split: if_splits)
qed

lemma holders_lock_release:
  assumes "holders_lock s ps" and "\<And>q fd'. ps' q = PHolds fd' \<Longrightarrow> ps q = PHolds fd' \<and> fd' \<noteq> fd"
    and "\<And>fd'. fd' \<noteq> fd \<Longrightarrow> Fds s' fd' = Fds s fd'" and "\<And>i. Locks s i \<noteq> Some fd \<Longrightarrow> Locks s' i = Locks s i"
  shows "holders_lock s' ps'"
  unfolding holders_lock_def
proof (intro allI impI)
  fix q fd' assume "ps' q = PHolds fd'"
  then have q: "ps q = PHolds fd'" "fd' \<noteq> fd" using assms(2) by blast+
  then obtain i where "Fds s fd' = Some i" "Locks s i = Some fd'" using assms(1) unfolding holders_lock_def by blast
  then show "\<exists>i. Fds s' fd' = Some i \<and> Locks s' i = Some fd'" using assms(3,4) q(2) by auto
qed

lemma holders_lock_step:
  assumes "lock_step path (s, ps) (s', ps')" and o: "own_fds s ps" and h: "holders_lock s ps"
  shows "holders_lock s' ps'"
proof -
  have lt: "fd < NextFd s" if "ps q = PHolds fd" for q fd
    using o that unfolding own_fds_def by (metis phase_fd.simps(3))
  note own = own_fdsD(2) [OF o]
  show ?thesis
    using assms(1)
  proof cases
    case (open_file p fd)
    obtain i where "fd = NextFd s" "Fds s' = (Fds s)(fd \<mapsto> i)" "Locks s' = Locks s"
      using os_OpenCreate_Ok [OF open_file(3)] by metis
    then show ?thesis using open_file(1) h lt unfolding holders_lock_def by (auto split: if_splits)
  next
    case (flock_ok p fd)
    obtain i where i: "Fds s fd = Some i" "Locks s i = None \<or> Locks s i = Some fd" "s' = s\<lparr>Locks := (Locks s)(i \<mapsto> fd)\<rparr>"
      using flock_ex_Ok [OF flock_ok(3)] by metis
    show ?thesis unfolding holders_lock_def
    proof (intro allI impI)
      fix q fd' assume q: "ps' q = PHolds fd'"
      show "\<exists>j. Fds s' fd' = Some j \<and> Locks s' j = Some fd'"
      proof (cases "q = p")
        case True
        then show ?thesis using q flock_ok(1) i by simp
      next
        case False
        then have "ps q = PHolds fd'" using q flock_ok(1) by simp
        then obtain j where j: "Fds s fd' = Some j" "Locks s j = Some fd'" using h unfolding holders_lock_def by blast
        have "fd' \<noteq> fd" using own [of p fd q] flock_ok(2) \<open>ps q = PHolds fd'\<close> False by (metis phase_fd.simps(2))
        then have "j \<noteq> i" using j(2) i(2) by auto
        then show ?thesis using i(3) j by simp
      qed
    qed
  next
    case (flock_busy p fd)
    then show ?thesis using h flock_ex_Err [OF flock_busy(3)] unfolding holders_lock_def by auto
  next
    case (unflock p fd)
    have "ps q = PHolds fd' \<and> fd' \<noteq> fd" if "ps' q = PHolds fd'" for q fd'
      using that unflock(1,2) own [of p fd q] by (cases "q = p") auto
    moreover have "s' = release fd s" using unflock(3) by (simp add: flock_un_def split: if_splits)
    ultimately show ?thesis by (intro holders_lock_release [OF h]) (auto simp: release_def)
  next
    case (close_file p fd)
    have "ps q = PHolds fd' \<and> fd' \<noteq> fd" if "ps' q = PHolds fd'" for q fd'
      using that close_file(1,2) own [of p fd q] by (cases "q = p") auto
    moreover have "s' = (release fd s)\<lparr>Fds := (Fds s)(fd := None)\<rparr>" using close_file(3) by (simp add: os_Close_def)
    ultimately show ?thesis by (intro holders_lock_release [OF h]) (auto simp: release_def)
  next
    case (remove_path p r)
    then show ?thesis using h unfolding holders_lock_def by (auto simp: os_Remove_def split: if_splits)
  qed
qed

lemma lock_reachable_ok: "lock_reachable path c \<Longrightarrow> own_fds (fst c) (snd c) \<and> holders_lock (fst c) (snd c)"
proof (induction rule: lock_reachable.induct)
  case start
  then show ?case by (simp add: own_fds_def holders_lock_def empty_fs_def)
next
  case (more c c')
  then show ?case using own_fds_step holders_lock_step by (metis prod.collapse)
qed

text \<open>The next step of one process, and a schedule as the list of the processes that move.\<close>

fun sched_step :: "string \<Rightarrow> fs \<times> (nat \<Rightarrow> phase) \<Rightarrow> nat \<Rightarrow> fs \<times> (nat \<Rightarrow> phase)" where
  "sched_step path (s, ps) p = (case ps p of
       PIdle \<Rightarrow> (case os_OpenCreate no_faults path s of (Ok fd, s') \<Rightarrow> (s', ps(p := POpened fd)) | _ \<Rightarrow> (s, ps))
     | POpened fd \<Rightarrow> (case flock_ex no_faults fd s of (Ok u, s') \<Rightarrow> (s', ps(p := PHolds fd))
         | (Err e, s') \<Rightarrow> if e = EAGAIN then (s', ps(p := PIdle)) else (s, ps) | _ \<Rightarrow> (s, ps))
     | PHolds fd \<Rightarrow> (case flock_un no_faults fd s of (Ok u, s') \<Rightarrow> (s', ps(p := PUnlocked fd)) | _ \<Rightarrow> (s, ps))
     | PUnlocked fd \<Rightarrow> (case os_Close no_faults fd s of (Ok u, s') \<Rightarrow> (s', ps(p := PClosed)) | _ \<Rightarrow> (s, ps))
     | PClosed \<Rightarrow> (snd (os_Remove no_faults path s), ps(p := PIdle)))"

lemma sched_step_reachable: "lock_reachable path (s, ps) \<Longrightarrow> lock_reachable path (sched_step path (s, ps) p)"
  by (cases "ps p")
    (auto split: prod.split outcome.split intro: more lock_step.intros more [OF _ remove_path [OF _ prod.collapse [symmetric]]])

lemma schedule_reachable: "lock_reachable path c \<Longrightarrow> lock_reachable path (foldl (sched_step path) c sched)"
proof (induction sched arbitrary: c)
  case (Cons p sched)
  have "lock_reachable path (sched_step path c p)" using Cons.prems sched_step_reachable by (cases c) blast
  then show ?case using Cons.IH by simp
qed simp

section \<open>Properties\<close>

text \<open>
  C23: One process after the other, \<open>Lock\<close> and \<open>Unlock\<close> implement a mutex for every path: \<open>Lock\<close> succeeds
  exactly when the path is not held and then adds it to the held ones, otherwise it fails with
  \<open>ErrLocked\<close> and changes none; \<open>Unlock\<close> of the locker succeeds and takes the path out again; no
  other path is touched.
\<close>

theorem Lock_refines_mutex:
  assumes "fs_wf s" and "Nodes s path \<noteq> Some DirNode"
  shows "case Lock no_faults path s of
      (Ok l, s1) \<Rightarrow> path \<notin> held_paths s \<and> held_paths s1 = insert path (held_paths s) \<and> fs_wf s1 \<and>
        (\<exists>l' s2. Unlock no_faults (Some l) s1 = (Ok (Some l', None), s2) \<and> held_paths s2 = held_paths s \<and> fs_wf s2)
    | (Err e, s1) \<Rightarrow> e = ErrLocked \<and> path \<in> held_paths s \<and> held_paths s1 = held_paths s \<and> fs_wf s1
    | _ \<Rightarrow> False"
proof (cases "Locks s (lock_inode s path)")
  case None
  let ?l = "\<lparr>LockFile = Some (NextFd s), LockPath = path\<rparr>"
  let ?s1 = "(opened s path)\<lparr>Locks := (Locks s)(lock_inode s path \<mapsto> NextFd s)\<rparr>"
  have ok: "fs_ok s" using assms(1) by (simp add: fs_wf_def)
  have run: "Lock no_faults path s = (Ok ?l, ?s1)" using Lock_run [OF assms(2) ok] None by simp
  have not_held: "path \<notin> held_paths s" using None by (auto simp: held_paths_def locked_def lock_inode_def)
  have wf1: "fs_wf ?s1"
    using Lock_ok [OF ok assms(2)] opened_wf [OF assms] unfolding run fs_wf_def by simp
  have h1: "held_paths ?s1 = insert path (held_paths s)" by (rule Lock_held [OF assms])
  have n: "Nodes ?s1 path = Some (FileNode (lock_inode s path))" "Locks ?s1 (lock_inode s path) = Some (NextFd s)"
    "Fds ?s1 (NextFd s) = Some (lock_inode s path)" using assms(2) by (simp_all add: opened_simps)
  let ?s2 = "(release (NextFd s) ?s1)\<lparr>Fds := (Fds ?s1)(NextFd s := None), Nodes := (Nodes ?s1)(path := None)\<rparr>"
  have u: "Unlock no_faults (Some ?l) ?s1 = (Ok (Some (?l\<lparr>LockFile := None\<rparr>), None), ?s2)"
    using Unlock_run [of ?l "NextFd s" ?s1] n by simp
  have h2: "held_paths ?s2 = held_paths s" using Unlock_held [OF wf1 n(1,2)] h1 not_held by simp
  have "fs_wf ?s2"
    using Unlock_ok [of ?s1 path "NextFd s"] wf1 unfolding fs_wf_def by (auto simp: release_def)
  then show ?thesis using run not_held h1 wf1 u h2 by simp
next
  case (Some fd)
  have ok: "fs_ok s" using assms(1) by (simp add: fs_wf_def)
  have run: "Lock no_faults path s = (Err ErrLocked, opened s path)" using Lock_run [OF assms(2) ok] Some by simp
  have "Nodes s path = Some (FileNode (lock_inode s path))"
    using Some no_lock_at_next [OF ok] assms(2) by (auto simp: lock_inode_def split: option.splits node.splits)
  then have "path \<in> held_paths s" using Some by (auto simp: held_paths_def locked_def)
  then show ?thesis using run opened_wf [OF assms] opened_held [OF assms] by simp
qed

theorem Lock_refines_mutex_witness:
  "held_paths (snd (Lock no_faults ''/d/lock'' empty_fs)) = {''/d/lock''}"
proof -
  have e: "fs_wf empty_fs" "Nodes empty_fs ''/d/lock'' \<noteq> Some DirNode" "held_paths empty_fs = {}"
    by (simp_all add: fs_wf_def fs_ok_def empty_fs_def held_paths_def locked_def)
  have "Lock no_faults ''/d/lock'' empty_fs =
      (Ok \<lparr>LockFile = Some 0, LockPath = ''/d/lock''\<rparr>, snd (Lock no_faults ''/d/lock'' empty_fs))"
    using e(1,2) by (simp add: Lock_run fs_wf_def prod_eq_iff) (simp add: empty_fs_def)
  with Lock_refines_mutex [OF e(1,2)] e(3) show ?thesis by (simp split: prod.splits)
qed

text \<open>
  C24: However the system calls of many processes interleave, no two of them hold the lock of the same
  inode.
\<close>

theorem lock_holders_differ:
  assumes "lock_reachable path (s, ps)" and "ps p = PHolds fd" and "ps q = PHolds fd'" and "p \<noteq> q"
  shows "Fds s fd \<noteq> Fds s fd'"
proof
  assume eq: "Fds s fd = Fds s fd'"
  have o: "own_fds s ps" "holders_lock s ps" using lock_reachable_ok [OF assms(1)] by simp_all
  then obtain i j where "Fds s fd = Some i" "Locks s i = Some fd" "Fds s fd' = Some j" "Locks s j = Some fd'"
    using assms(2,3) unfolding holders_lock_def by metis
  then have "fd = fd'" using eq by simp
  then show False using own_fdsD(2) [OF o(1), of p fd q] assms(2-4) by simp
qed

text \<open>
  The schedule of the next theorem: 0 locks, 1 opens the file, 0 unlocks it, 1 locks it, 0 closes and
  removes the path, 2 creates it again and locks it.
\<close>

definition race :: "fs \<times> (nat \<Rightarrow> phase)" where
  "race = foldl (sched_step ''lock'') (empty_fs, \<lambda>_. PIdle) [0, 0, 1, 0, 1, 0, 0, 2, 2]"

lemma race_holders: "snd race 1 = PHolds 1 \<and> snd race 2 = PHolds 2 \<and> Fds (fst race) 1 = Some 0 \<and> Fds (fst race) 2 = Some 1"
  by (simp add: race_def empty_fs_def os_OpenCreate_def flock_ex_def flock_un_def os_Close_def os_Remove_def release_def)

lemma race_reachable: "lock_reachable ''lock'' (fst race, snd race)"
  unfolding prod.collapse race_def by (rule schedule_reachable [OF start])

theorem lock_holders_differ_witness: "Fds (fst race) 1 \<noteq> Fds (fst race) 2"
proof (rule lock_holders_differ)
  show "lock_reachable ''lock'' (fst race, snd race)" by (rule race_reachable)
qed (use race_holders in auto)

text \<open>
  C25: Yet two processes can hold the lock of the same path: \<open>unlock\<close> removes the path after it has
  released the lock, so a process that locks the old file in between and one that creates the file
  anew both succeed.
\<close>

theorem lock_of_a_path_can_be_held_twice:
  "\<exists>s ps p q fd fd'. lock_reachable ''lock'' (s, ps) \<and> p \<noteq> q \<and> ps p = PHolds fd \<and> ps q = PHolds fd'"
proof -
  have "(1 :: nat) \<noteq> 2" by simp
  then show ?thesis using race_reachable race_holders by blast
qed

end
