(* ===== verification/Store.thy ===== *)
theory Store imports Fslock begin

text \<open>
  \<open>store/init.go\<close> and \<open>store/store.go\<close>: creating the directories of the store, checking them, opening
  the store under its lock and closing it. Expanding the home directory, the badger datastores
  and the p2p keystore are third-party libraries, here parameters that act on the file system.
\<close>

section \<open>Libraries and options\<close>

record store_lib =
  ExpandHome :: "string \<Rightarrow> string outcome"
  NewDatastore :: "string \<Rightarrow> unit sys"
  CloseDatastore :: "string \<Rightarrow> unit sys"
  NewFSKeystore :: "string \<Rightarrow> unit sys"

record init_options =
  NeedDataStore :: bool
  NeedSignatureStore :: bool
  NeedEVMKeyStore :: bool
  NeedP2PKeyStore :: bool

record open_options =
  HasDataStore :: bool
  HasBadgerOptions :: bool
  HasSignatureStore :: bool
  HasEVMKeyStore :: bool
  HasP2PKeyStore :: bool

text \<open>A datastore or a keystore is the path it is opened at.\<close>

record store =
  StoreData :: "string option"
  StoreSignatures :: "string option"
  StoreEVMKeys :: "string option"
  StoreP2PKeys :: "string option"
  StorePath :: string
  StoreLock :: "locker option"

section \<open>Paths\<close>

definition storePath :: "store_lib \<Rightarrow> string \<Rightarrow> string outcome" where
  "storePath B path = ExpandHome B (Clean path)"

definition lockPath :: "string \<Rightarrow> string" where
  "lockPath base = Join base ''lock''"

definition dataPath :: "string \<Rightarrow> string" where
  "dataPath base = Join base ''data''"

definition signaturePath :: "string \<Rightarrow> string" where
  "signaturePath base = Join base ''signatures''"

definition evmKeyStorePath :: "string \<Rightarrow> string" where
  "evmKeyStorePath base = Join base ''keystore/evm''"

definition p2pKeyStorePath :: "string \<Rightarrow> string" where
  "p2pKeyStorePath base = Join base ''keystore/p2p''"

section \<open>store/init.go\<close>

definition Exists :: "faults \<Rightarrow> string \<Rightarrow> bool sys" where
  "Exists F path = attempt (os_Stat F path) (\<lambda>_. sysret True) (\<lambda>e. sysret (e \<noteq> OsNotExist))"

definition initDir :: "faults \<Rightarrow> string \<Rightarrow> unit sys" where
  "initDir F path = seq (Exists F path) (\<lambda>e. if e then sysret () else os_MkdirAll F path)"

definition initRoot :: "faults \<Rightarrow> string \<Rightarrow> unit sys" where
  "initRoot F path =
     seq (initDir F path) (\<lambda>_.
     seq (os_OpenCreate F (Join path ''.check'')) (\<lambda>fd.
     seq (os_Close F fd) (\<lambda>_. os_Remove F (Join path ''.check''))))"

definition sysif :: "bool \<Rightarrow> unit sys \<Rightarrow> unit sys" where
  "sysif b m = (if b then m else sysret ())"

text \<open>\<open>errors.Is(err, fslock.ErrLocked)\<close> becomes \<open>ErrOpened\<close>.\<close>

definition lockStore :: "faults \<Rightarrow> string \<Rightarrow> locker sys" where
  "lockStore F path = attempt (Lock F (lockPath path)) sysret
     (\<lambda>e. sysfail (if errors_Is e ErrLocked then ErrOpened else e))"

definition unlocking :: "faults \<Rightarrow> locker option \<Rightarrow> locker option sys" where
  "unlocking F l = seq (Unlock F l) (\<lambda>(l', err). case err of None \<Rightarrow> sysret l' | Some e \<Rightarrow> sysfail e)"

definition syslift :: "'a outcome \<Rightarrow> 'a sys" where
  "syslift r s = (r, s)"

text \<open>The lock is not released when a directory cannot be created.\<close>

definition Init :: "store_lib \<Rightarrow> faults \<Rightarrow> string \<Rightarrow> init_options \<Rightarrow> unit sys" where
  "Init B F path0 options =
     seq (syslift (storePath B path0)) (\<lambda>path.
     seq (initRoot F path) (\<lambda>_.
     seq (lockStore F path) (\<lambda>flock.
     seq (sysif (NeedDataStore options) (initDir F (dataPath path))) (\<lambda>_.
     seq (sysif (NeedSignatureStore options) (initDir F (signaturePath path))) (\<lambda>_.
     seq (sysif (NeedP2PKeyStore options) (initDir F (p2pKeyStorePath path))) (\<lambda>_.
     seq (sysif (NeedEVMKeyStore options) (initDir F (evmKeyStorePath path))) (\<lambda>_.
     seq (unlocking F (Some flock)) (\<lambda>_. sysret ()))))))))"

text \<open>\<open>options.Need... && !Exists(...)\<close> ends with false.\<close>

definition needs :: "faults \<Rightarrow> bool \<Rightarrow> string \<Rightarrow> bool sys \<Rightarrow> bool sys" where
  "needs F need path rest =
     (if need then seq (Exists F path) (\<lambda>e. if \<not> e then sysret False else rest) else rest)"

definition IsInit :: "store_lib \<Rightarrow> faults \<Rightarrow> string \<Rightarrow> init_options \<Rightarrow> bool sys" where
  "IsInit B F path0 options =
     attempt (syslift (storePath B path0))
       (\<lambda>path. needs F True path
          (needs F (NeedDataStore options) (dataPath path)
          (needs F (NeedSignatureStore options) (signaturePath path)
          (needs F (NeedP2PKeyStore options) (p2pKeyStorePath path)
          (needs F (NeedEVMKeyStore options) (evmKeyStorePath path)
          (sysret True))))))
       (\<lambda>_. sysret False)"

section \<open>store/store.go\<close>

definition needed :: "open_options \<Rightarrow> init_options" where
  "needed options = \<lparr>NeedDataStore = HasDataStore options, NeedSignatureStore = HasSignatureStore options,
     NeedEVMKeyStore = HasEVMKeyStore options, NeedP2PKeyStore = HasP2PKeyStore options\<rparr>"

text \<open>\<open>flock.Unlock()\<close> whose error is dropped, before an error is returned.\<close>

definition unlockAndFail :: "faults \<Rightarrow> locker option \<Rightarrow> go_error \<Rightarrow> 'a sys" where
  "unlockAndFail F l e = seq (Unlock F l) (\<lambda>_. sysfail e)"

definition takeLock :: "faults \<Rightarrow> string \<Rightarrow> open_options \<Rightarrow> locker option sys" where
  "takeLock F path options =
     (if HasDataStore options \<or> HasSignatureStore options
      then seq (lockStore F path) (\<lambda>flock.
        if \<not> HasBadgerOptions options
        then unlockAndFail F (Some flock) (Errorf ''badger store options needed to open the store'')
        else sysret (Some flock))
      else sysret None)"

definition openDatastore :: "store_lib \<Rightarrow> faults \<Rightarrow> locker option \<Rightarrow> bool \<Rightarrow> string \<Rightarrow> string \<Rightarrow> string option sys" where
  "openDatastore B F flock has path msg =
     (if has
      then attempt (NewDatastore B path) (\<lambda>_. sysret (Some path)) (\<lambda>e. unlockAndFail F flock (Wrap e msg))
      else sysret None)"

text \<open>When the p2p keystore cannot be opened, neither the lock nor the datastores are given back.\<close>

definition OpenStore :: "store_lib \<Rightarrow> faults \<Rightarrow> string \<Rightarrow> open_options \<Rightarrow> store sys" where
  "OpenStore B F path0 options =
     seq (syslift (storePath B path0)) (\<lambda>path.
     seq (IsInit B F path (needed options)) (\<lambda>ok.
     if \<not> ok then sysfail ErrNotInited
     else
       seq (takeLock F path options) (\<lambda>flock.
       seq (openDatastore B F flock (HasDataStore options) (dataPath path) ''can't open Badger Datastore'') (\<lambda>ds.
       seq (openDatastore B F flock (HasSignatureStore options) (signaturePath path) ''can't open Badger SignatureStore'') (\<lambda>sigStore.
       let evmKs = (if HasEVMKeyStore options then Some (evmKeyStorePath path) else None) in
       seq (if HasP2PKeyStore options
            then seq (NewFSKeystore B (p2pKeyStorePath path)) (\<lambda>_. sysret (Some (p2pKeyStorePath path)))
            else sysret None) (\<lambda>p2pKs.
       sysret \<lparr>StoreData = ds, StoreSignatures = sigStore, StoreEVMKeys = evmKs, StoreP2PKeys = p2pKs,
         StorePath = path, StoreLock = flock\<rparr>))))))"

text \<open>Closing a datastore that was not opened is a nil dereference.\<close>

definition closeDatastore :: "store_lib \<Rightarrow> string option \<Rightarrow> unit sys" where
  "closeDatastore B ds = (case ds of
       None \<Rightarrow> syslift (Panic ''invalid memory address or nil pointer dereference'')
     | Some p \<Rightarrow> CloseDatastore B p)"

definition Close :: "store_lib \<Rightarrow> faults \<Rightarrow> store \<Rightarrow> open_options \<Rightarrow> unit sys" where
  "Close B F st options =
     seq (sysif (HasDataStore options \<or> HasSignatureStore options)
            (seq (unlocking F (StoreLock st)) (\<lambda>_. sysret ()))) (\<lambda>_.
     seq (sysif (HasDataStore options) (closeDatastore B (StoreData st))) (\<lambda>_.
     sysif (HasSignatureStore options) (closeDatastore B (StoreSignatures st))))"

section \<open>Paths below a base\<close>

lemma Split_append_any: "Split c (p @ c # s) = Split c p @ Split c s"
  by (induction p) (auto split: list.splits)

lemma clean_parts_snoc:
  "c \<noteq> [] \<Longrightarrow> c \<noteq> ''.'' \<Longrightarrow> c \<noteq> ''..'' \<Longrightarrow> clean_parts r (parts @ [c]) = clean_parts r parts @ [c]"
  by (simp add: clean_parts_def clean_step_def)

definition leaf :: "string \<Rightarrow> bool" where
  "leaf c \<longleftrightarrow> c \<noteq> [] \<and> c \<noteq> ''.'' \<and> c \<noteq> ''..'' \<and> CHR ''/'' \<notin> set c"

lemma IsAbs_append: "base \<noteq> [] \<Longrightarrow> IsAbs (base @ s) = IsAbs base"
  by (cases base) (auto simp: IsAbs_def)

lemma Join_leaf:
  assumes "leaf c" and "base \<noteq> []"
  shows "Join base c = (if IsAbs base then [CHR ''/''] else []) @
    join (CHR ''/'') (clean_parts (IsAbs base) (Split (CHR ''/'') base) @ [c])"
  using assms
  by (simp add: Join_def Clean_def Let_def IsAbs_append Split_append_any Split_fresh clean_parts_snoc leaf_def)

lemma parts_fresh: "list_all (\<lambda>c. CHR ''/'' \<notin> set c) (clean_parts r (Split (CHR ''/'') path))"
  using normal_parts [OF clean_parts_normal [of r path]] by (simp add: list_all_iff)

lemma Join_leaf_neq:
  assumes "leaf c" and "leaf d" and "base \<noteq> []" and "c \<noteq> d"
  shows "Join base c \<noteq> Join base d"
proof
  let ?ps = "clean_parts (IsAbs base) (Split (CHR ''/'') base)"
  assume "Join base c = Join base d"
  then have "join (CHR ''/'') (?ps @ [c]) = join (CHR ''/'') (?ps @ [d])"
    using assms by (simp add: Join_leaf)
  then have "Split (CHR ''/'') (join (CHR ''/'') (?ps @ [c])) = Split (CHR ''/'') (join (CHR ''/'') (?ps @ [d]))" by simp
  moreover have "list_all (\<lambda>c. CHR ''/'' \<notin> set c) (?ps @ [e])" if "leaf e" for e
    using parts_fresh [of "IsAbs base" base] that by (simp add: leaf_def)
  ultimately have "?ps @ [c] = ?ps @ [d]" using Split_join assms(1,2) by simp
  then show False using assms(4) by simp
qed

section \<open>Where the paths of a store are\<close>

lemma join_append:
  "ps \<noteq> [] \<Longrightarrow> qs \<noteq> [] \<Longrightarrow> join s (ps @ qs) = join s ps @ s # join s qs"
proof (induction ps)
  case (Cons p ps)
  then show ?case by (cases "ps = []") (simp_all add: join_Cons)
qed simp

lemma clean_parts_leaves: "list_all leaf cs \<Longrightarrow> clean_parts r (parts @ cs) = clean_parts r parts @ cs"
proof (induction cs rule: rev_induct)
  case (snoc c cs)
  then show ?case using clean_parts_snoc [of c r "parts @ cs"] by (simp add: leaf_def)
qed simp

lemma Join_leaves:
  assumes "list_all leaf cs" and "cs \<noteq> []" and "base \<noteq> []"
  shows "Join base (join (CHR ''/'') cs) = (if IsAbs base then [CHR ''/''] else []) @
    join (CHR ''/'') (clean_parts (IsAbs base) (Split (CHR ''/'') base) @ cs)"
proof -
  have fresh: "list_all (\<lambda>c. CHR ''/'' \<notin> set c) cs" using assms(1) by (simp add: leaf_def list_all_iff)
  have "join (CHR ''/'') cs \<noteq> []"
    using assms(1,2) by (cases cs; cases "tl cs") (auto simp: join_Cons leaf_def)
  then show ?thesis using assms
    by (simp add: Join_def Clean_def Let_def IsAbs_append Split_append_any Split_join [OF assms(2) fresh] clean_parts_leaves)
qed

text \<open>All of them are one prefix followed by the name.\<close>

definition below :: "string \<Rightarrow> string" where
  "below base = (let ps = clean_parts (IsAbs base) (Split (CHR ''/'') base) in
     (if IsAbs base then [CHR ''/''] else []) @ (if ps = [] then [] else join (CHR ''/'') ps @ [CHR ''/'']))"

lemma Join_below:
  assumes "list_all leaf cs" and "cs \<noteq> []" and "base \<noteq> []"
  shows "Join base (join (CHR ''/'') cs) = below base @ join (CHR ''/'') cs"
  using Join_leaves [OF assms] by (simp add: below_def Let_def join_append assms(2))

lemma store_paths:
  assumes "base \<noteq> []"
  shows "lockPath base = below base @ ''lock''" "dataPath base = below base @ ''data''"
    "signaturePath base = below base @ ''signatures''" "evmKeyStorePath base = below base @ ''keystore/evm''"
    "p2pKeyStorePath base = below base @ ''keystore/p2p''" "Join base ''.check'' = below base @ ''.check''"
  unfolding lockPath_def dataPath_def signaturePath_def evmKeyStorePath_def p2pKeyStorePath_def
  using Join_below [OF _ _ assms, of "[''lock'']"] Join_below [OF _ _ assms, of "[''data'']"]
    Join_below [OF _ _ assms, of "[''signatures'']"] Join_below [OF _ _ assms, of "[''.check'']"]
    Join_below [OF _ _ assms, of "[''keystore'', ''evm'']"] Join_below [OF _ _ assms, of "[''keystore'', ''p2p'']"]
  by (simp_all add: leaf_def)

lemma not_itself:
  assumes "base \<noteq> []" and "leaf c"
  shows "base \<noteq> below base @ c"
proof
  let ?ps = "clean_parts (IsAbs base) (Split (CHR ''/'') base)"
  assume eq: "base = below base @ c"
  have fresh: "list_all (\<lambda>c. CHR ''/'' \<notin> set c) (?ps @ [c])"
    using parts_fresh [of "IsAbs base" base] assms(2) by (simp add: leaf_def)
  have n: "clean_parts (IsAbs base) (?ps @ [c]) = ?ps @ [c]"
    using clean_parts_leaves [of "[c]"] clean_parts_again [OF clean_parts_normal [of "IsAbs base" base]] assms(2) by simp
  have split: "Split (CHR ''/'') (join (CHR ''/'') (?ps @ [c])) = ?ps @ [c]" by (rule Split_join [OF _ fresh]) simp
  have b: "base = (if IsAbs base then [CHR ''/''] else []) @ join (CHR ''/'') (?ps @ [c])"
    using eq assms(2) by (cases "?ps = []") (simp_all add: below_def Let_def join_append)
  have "Split (CHR ''/'') base = (if IsAbs base then [[]] else []) @ ?ps @ [c]"
  proof (cases "IsAbs base")
    case True
    with b have "base = CHR ''/'' # join (CHR ''/'') (?ps @ [c])" by simp
    from arg_cong [OF this, of "Split (CHR ''/'')"] show ?thesis unfolding Split.simps(2) split using True by simp
  next
    case False
    with b have "base = join (CHR ''/'') (?ps @ [c])" by simp
    from arg_cong [OF this, of "Split (CHR ''/'')"] show ?thesis unfolding split using False by simp
  qed
  then have "?ps = clean_parts (IsAbs base) ((if IsAbs base then [[]] else []) @ ?ps @ [c])" by (rule arg_cong)
  also have "\<dots> = clean_parts (IsAbs base) (?ps @ [c])" by (simp add: clean_parts_def)
  finally show False unfolding n by simp
qed

end
