(* ===== verification/StoreSafety.thy ===== *)
theory StoreSafety imports Store begin

text \<open>
  What the store promises: after \<open>Init\<close> it is initialised, and while it is open with a datastore
  nobody else opens it with one; and where the lock is left behind.
\<close>

section \<open>What the operations keep\<close>

text \<open>Whether a path exists can always be asked.\<close>

definition stats :: "faults \<Rightarrow> bool" where
  "stats F \<longleftrightarrow> (\<forall>p s. F (SysStat p) s = None)"

definition keeps :: "fs \<Rightarrow> fs \<Rightarrow> string set \<Rightarrow> bool" where
  "keeps s s' A \<longleftrightarrow> (\<forall>q. q \<notin> A \<longrightarrow> Nodes s q \<noteq> None \<longrightarrow> Nodes s' q \<noteq> None)"

lemma keeps_refl [simp]: "keeps s s A"
  by (simp add: keeps_def)

lemma keeps_trans: "keeps s s1 A \<Longrightarrow> keeps s1 s2 B \<Longrightarrow> keeps s s2 (A \<union> B)"
  by (simp add: keeps_def)

lemma keepsD: "keeps s s' A \<Longrightarrow> Nodes s q \<noteq> None \<Longrightarrow> q \<notin> A \<Longrightarrow> Nodes s' q \<noteq> None"
  by (simp add: keeps_def)

lemma Exists_run: "stats F \<Longrightarrow> Exists F path s = (Ok (Nodes s path \<noteq> None), s)"
  by (simp add: Exists_def attempt_def os_Stat_def refused_def stats_def)

lemma path_prefixes_self: "path \<noteq> [] \<Longrightarrow> path \<in> set (path_prefixes path)"
proof -
  assume "path \<noteq> []"
  moreover have "join (CHR ''/'') (take (length (Split (CHR ''/'') path)) (Split (CHR ''/'') path)) = path"
    by (simp add: join_Split)
  moreover have "length (Split (CHR ''/'') path) \<in> set [1 ..< length (Split (CHR ''/'') path) + 1]"
    by (cases "Split (CHR ''/'') path") simp_all
  ultimately show ?thesis unfolding path_prefixes_def Let_def by (force simp: image_iff)
qed

lemma initDir_Ok:
  assumes "stats F" and "path \<noteq> []" and "initDir F path s = (Ok (), s')"
  shows "Nodes s' path \<noteq> None \<and> keeps s s' {}"
  using assms(3) path_prefixes_self [OF assms(2)]
  by (auto simp: initDir_def seq_eq_Ok Exists_run [OF assms(1)] os_MkdirAll_def refused_eq_Ok keeps_def split: if_splits)

lemma initRoot_Ok:
  assumes "stats F" and "base \<noteq> []" and "initRoot F base s = (Ok (), s')"
  shows "Nodes s' base \<noteq> None \<and> keeps s s' {Join base ''.check''}"
proof -
  obtain s1 s2 s3 fd where s: "initDir F base s = (Ok (), s1)" "os_OpenCreate F (Join base ''.check'') s1 = (Ok fd, s2)"
    "os_Close F fd s2 = (Ok (), s3)" "os_Remove F (Join base ''.check'') s3 = (Ok (), s')"
    using assms(3) by (auto simp: initRoot_def seq_eq_Ok)
  have "keeps s1 s' {Join base ''.check''}"
    using s(2-4) by (auto simp: os_OpenCreate_def os_Close_def os_Remove_def refused_eq_Ok keeps_def release_def
        split: option.splits node.splits if_splits)
  moreover note initDir_Ok [OF assms(1,2) s(1)]
  moreover have "base \<noteq> Join base ''.check''"
    using not_itself [OF assms(2), of "''.check''"] store_paths(6) [OF assms(2)] by (simp add: leaf_def)
  ultimately show ?thesis using keeps_trans [of s s1 "{}" s'] keepsD by fastforce
qed

lemma open_keeps: "os_OpenCreate F path s = (Ok fd, s') \<Longrightarrow> keeps s s' {}"
  by (auto simp: os_OpenCreate_def refused_eq_Ok keeps_def split: option.splits node.splits)

lemma write_keeps: "os_WriteString F fd s = (Ok (), s') \<Longrightarrow> s' = s"
  by (simp add: os_WriteString_def refused_eq_Ok)

lemma flock_keeps: "flock_ex F fd s = (Ok (), s') \<Longrightarrow> Nodes s' = Nodes s"
  by (auto simp: flock_ex_def refused_eq_Ok split: option.splits if_splits)

lemma Lock_Ok:
  assumes "Lock F path s = (Ok l, s')"
  shows "LockPath l = path \<and> LockFile l \<noteq> None \<and> keeps s s' {}"
proof -
  obtain fd s1 s2 where s: "os_OpenCreate F path s = (Ok fd, s1)" "os_WriteString F fd s1 = (Ok (), s2)"
    "flock_ex F fd s2 = (Ok (), s')" "l = \<lparr>LockFile = Some fd, LockPath = path\<rparr>"
    using assms by (auto simp: Lock_def seq_eq_Ok lock_def attempt_eq_Ok New_def Let_def split: option.splits)
  then show ?thesis using open_keeps [OF s(1)] write_keeps [OF s(2)] flock_keeps [OF s(3)] by (simp add: keeps_def)
qed

lemma lockStore_Ok: "lockStore F base s = (Ok l, s') \<longleftrightarrow> Lock F (lockPath base) s = (Ok l, s')"
  by (auto simp: lockStore_def attempt_eq_Ok)

lemma unlocking_Ok:
  assumes "unlocking F (Some l) s = (Ok l', s')"
  shows "keeps s s' {LockPath l}"
  using assms
  by (auto simp: unlocking_def Unlock_def unlock_def seq_eq_Ok attempt_eq_Ok refused_eq_Ok Let_def flock_un_def
      os_Close_def os_Remove_def release_def keeps_def split: option.splits if_splits)

text \<open>The directories that the options need are there.\<close>

definition ready :: "string \<Rightarrow> init_options \<Rightarrow> fs \<Rightarrow> bool" where
  "ready base options s \<longleftrightarrow> Nodes s base \<noteq> None \<and> (NeedDataStore options \<longrightarrow> Nodes s (dataPath base) \<noteq> None) \<and>
     (NeedSignatureStore options \<longrightarrow> Nodes s (signaturePath base) \<noteq> None) \<and>
     (NeedP2PKeyStore options \<longrightarrow> Nodes s (p2pKeyStorePath base) \<noteq> None) \<and>
     (NeedEVMKeyStore options \<longrightarrow> Nodes s (evmKeyStorePath base) \<noteq> None)"

lemma IsInit_run:
  assumes "stats F" and "storePath B path = Ok base"
  shows "IsInit B F path options s = (Ok (ready base options s), s)"
  by (simp add: IsInit_def attempt_def syslift_def assms(2) needs_def seq_def Exists_run [OF assms(1)] ready_def)

lemma sysif_initDir_Ok:
  assumes "stats F" and "path \<noteq> []" and "sysif b (initDir F path) s = (Ok (), s')"
  shows "(b \<longrightarrow> Nodes s' path \<noteq> None) \<and> keeps s s' {}"
  using initDir_Ok [OF assms(1,2), of s s'] assms(3) by (cases b) (simp_all add: sysif_def)

lemma Init_ready:
  assumes "stats F" and "storePath B path = Ok base" and "base \<noteq> []"
    and "Init B F path options s = (Ok (), s')"
  shows "ready base options s'"
proof -
  obtain s1 s2 s3 s4 s5 s6 l l' where
    s: "initRoot F base s = (Ok (), s1)" "lockStore F base s1 = (Ok l, s2)"
      "sysif (NeedDataStore options) (initDir F (dataPath base)) s2 = (Ok (), s3)"
      "sysif (NeedSignatureStore options) (initDir F (signaturePath base)) s3 = (Ok (), s4)"
      "sysif (NeedP2PKeyStore options) (initDir F (p2pKeyStorePath base)) s4 = (Ok (), s5)"
      "sysif (NeedEVMKeyStore options) (initDir F (evmKeyStorePath base)) s5 = (Ok (), s6)"
      "unlocking F (Some l) s6 = (Ok l', s')"
    using assms(4) by (auto simp: Init_def syslift_def assms(2) seq_eq_Ok)
  note p = store_paths [OF assms(3)] and dir = sysif_initDir_Ok [OF assms(1)]
  have l: "LockPath l = lockPath base" "keeps s1 s2 {}" using Lock_Ok s(2) unfolding lockStore_Ok by blast+
  have base: "base \<notin> {lockPath base}" using not_itself [OF assms(3), of "''lock''"] p(1) by (simp add: leaf_def)
  note fin = unlocking_Ok [OF s(7), unfolded l(1)]
  note d = dir [OF _ s(3)] dir [OF _ s(4)] dir [OF _ s(5)] dir [OF _ s(6)]
  have "ready base options s6"
    unfolding ready_def using initRoot_Ok [OF assms(1,3) s(1)] l(2) d by (simp add: p keeps_def)
  then show ?thesis
    using base keepsD [OF fin] unfolding ready_def by (simp add: p)
qed

section \<open>Properties\<close>

text \<open>
  C26: When \<open>Init\<close> ends without an error, whatever the system refused on the way, \<open>IsInit\<close> says so for
  the same options: no directory that it made is lost with the lock file.
\<close>

theorem Init_then_IsInit:
  assumes "stats F" and "storePath B path = Ok base" and "base \<noteq> []"
    and "Init B F path options s = (Ok (), s')"
  shows "fst (IsInit B F path options s') = Ok True"
  using Init_ready [OF assms] by (simp add: IsInit_run [OF assms(1,2)])

text \<open>Libraries that do nothing, and paths without a home directory in them.\<close>

definition sample_lib :: store_lib where
  "sample_lib = \<lparr>ExpandHome = Ok, NewDatastore = (\<lambda>_. sysret ()), CloseDatastore = (\<lambda>_. sysret ()),
     NewFSKeystore = (\<lambda>_. sysret ())\<rparr>"

definition sample_init :: init_options where
  "sample_init = \<lparr>NeedDataStore = True, NeedSignatureStore = False, NeedEVMKeyStore = False, NeedP2PKeyStore = True\<rparr>"

lemma stats_no_faults [simp]: "stats no_faults"
  by (simp add: stats_def no_faults_def)

lemma sample_path: "storePath sample_lib ''/d'' = Ok ''/d''"
  by (simp add: storePath_def sample_lib_def Clean_def IsAbs_def clean_parts_def clean_step_def)

lemma below_sample: "below ''/d'' = ''/d/''"
  by (simp add: below_def IsAbs_def clean_parts_def clean_step_def)

lemma sample_store_paths:
  "lockPath ''/d'' = ''/d/lock''" "dataPath ''/d'' = ''/d/data''" "signaturePath ''/d'' = ''/d/signatures''"
  "p2pKeyStorePath ''/d'' = ''/d/keystore/p2p''" "Join ''/d'' ''.check'' = ''/d/.check''"
  using store_paths [of "''/d''"] by (simp_all add: below_sample)

lemma sample_Init: "\<exists>s'. Init sample_lib no_faults ''/d'' sample_init empty_fs = (Ok (), s')"
  by (simp add: Init_def seq_def syslift_def sample_path initRoot_def initDir_def Exists_run sample_store_paths
      lockStore_def Lock_def lock_def New_def attempt_def Let_def os_OpenCreate_def os_MkdirAll_def path_prefixes_def
      is_file_def empty_fs_def os_Close_def os_Remove_def release_def os_WriteString_def flock_ex_def flock_un_def
      sysif_def sample_init_def unlocking_def Unlock_def unlock_def numeral_eq_Suc)

theorem Init_then_IsInit_witness:
  "\<exists>s'. Init sample_lib no_faults ''/d'' sample_init empty_fs = (Ok (), s') \<and>
     fst (IsInit sample_lib no_faults ''/d'' sample_init s') = Ok True"
proof -
  obtain s' where s: "Init sample_lib no_faults ''/d'' sample_init empty_fs = (Ok (), s')" using sample_Init by blast
  from Init_then_IsInit [OF stats_no_faults sample_path _ s] s show ?thesis by simp
qed

section \<open>The lock while a store is open\<close>

text \<open>
  What is relied on from the libraries: they work below the directory that they are given; outside of
  it they remove nothing, and a path that was locked stays locked.
\<close>

definition outside :: "string \<Rightarrow> string \<Rightarrow> bool" where
  "outside dir q \<longleftrightarrow> \<not> HasPrefix q (dir @ ''/'')"

definition minds :: "string \<Rightarrow> fs \<Rightarrow> fs \<Rightarrow> bool" where
  "minds dir s s' \<longleftrightarrow> fs_ok s' \<and> (\<forall>q. outside dir q \<longrightarrow>
     (Nodes s q \<noteq> None \<longrightarrow> Nodes s' q \<noteq> None) \<and> (locked s q \<longrightarrow> locked s' q) \<and>
     (Nodes s q = None \<longrightarrow> \<not> HasPrefix dir q \<longrightarrow> Nodes s' q = None))"

definition libraries_mind :: "store_lib \<Rightarrow> bool" where
  "libraries_mind B \<longleftrightarrow> (\<forall>dir s. fs_ok s \<longrightarrow> minds dir s (snd (NewDatastore B dir s)) \<and>
     minds dir s (snd (CloseDatastore B dir s)) \<and> minds dir s (snd (NewFSKeystore B dir s)))"

text \<open>The base directory of a path: expanding it again gives the same, clean path.\<close>

definition expands :: "store_lib \<Rightarrow> string \<Rightarrow> string \<Rightarrow> bool" where
  "expands B path base \<longleftrightarrow> storePath B path = Ok base \<and> storePath B base = Ok base \<and> Clean base = base \<and> base \<noteq> []"

lemma length_below: "Clean base = base \<Longrightarrow> length base \<le> Suc (length (below base))"
proof -
  assume "Clean base = base"
  moreover have "length (Clean base) \<le> Suc (length (below base))" by (simp add: Clean_def below_def Let_def)
  ultimately show ?thesis by simp
qed

lemma outside_paths:
  assumes "Clean base = base" and "base \<noteq> []" and "dir \<in> {dataPath base, signaturePath base, p2pKeyStorePath base}"
    and "q \<in> {base, lockPath base, dataPath base, signaturePath base, evmKeyStorePath base, p2pKeyStorePath base}"
  shows "outside dir q"
proof -
  have "length base \<le> Suc (length (below base))" by (rule length_below [OF assms(1)])
  moreover have "length base \<ge> length (dir @ ''/'')" if "HasPrefix base (dir @ ''/'')"
    using that by (auto simp: HasPrefix_append dest: arg_cong [where f = length])
  ultimately have "outside dir base" using assms(3) unfolding store_paths [OF assms(2)] outside_def by auto
  moreover have "outside dir q" if "q \<noteq> base"
    using assms(3,4) that unfolding store_paths [OF assms(2)] outside_def by (auto simp: HasPrefix_append)
  ultimately show ?thesis by (cases "q = base") simp_all
qed

lemma minds_keeps:
  assumes "minds dir s s'" and "Clean base = base" and "base \<noteq> []"
    and "dir \<in> {dataPath base, signaturePath base, p2pKeyStorePath base}"
  shows "fs_ok s'" and "ready base o' s \<Longrightarrow> ready base o' s'" and "locked s (lockPath base) \<Longrightarrow> locked s' (lockPath base)"
  using assms(1) outside_paths [OF assms(2-4)] unfolding minds_def ready_def by simp_all

lemma minds_no_lock:
  assumes "minds dir s s'" and "Clean base = base" and "base \<noteq> []" and "dir \<in> {dataPath base, signaturePath base}"
    and "Nodes s (lockPath base) = None"
  shows "Nodes s' (lockPath base) = None"
proof -
  have "outside dir (lockPath base)" using outside_paths [OF assms(2,3), of dir] assms(4) by blast
  moreover have "\<not> HasPrefix dir (lockPath base)"
    using assms(4) unfolding store_paths [OF assms(3)] by (auto simp: HasPrefix_append)
  ultimately show ?thesis using assms(1,5) unfolding minds_def by simp
qed

lemma Lock_not_dir: "Lock no_faults path s = (Ok l, s') \<Longrightarrow> Nodes s path \<noteq> Some DirNode"
  by (auto simp: Lock_def lock_def seq_eq_Ok attempt_eq_Ok New_def os_OpenCreate_def)

lemma Lock_ready: "Lock F path s = (Ok l, s') \<Longrightarrow> ready base o' s \<Longrightarrow> ready base o' s'"
  using Lock_Ok [of F path s l s'] by (simp add: ready_def keeps_def)

lemma openDatastore_minds:
  assumes "openDatastore B F flock has dir msg s = (Ok ds, s')" and "libraries_mind B" and "fs_ok s"
  shows "s' = s \<or> minds dir s s'"
proof -
  have "minds dir s (snd (NewDatastore B dir s))" using assms(2,3) by (simp add: libraries_mind_def)
  then show ?thesis using assms(1)
    by (auto simp: openDatastore_def attempt_eq_Ok unlockAndFail_def seq_eq_Ok split: if_splits)
qed

text \<open>A store that was opened with a datastore.\<close>

lemma OpenStore_holds:
  assumes "OpenStore B no_faults path options s = (Ok st, s')" and e: "expands B path base" and "libraries_mind B"
    and "fs_ok s" and has: "HasDataStore options \<or> HasSignatureStore options"
  shows "fs_ok s' \<and> ready base (needed options) s' \<and> locked s' (lockPath base) \<and>
    (\<exists>l. StoreLock st = Some l \<and> LockFile l \<noteq> None \<and> LockPath l = lockPath base)"
proof -
  note c = e [unfolded expands_def, THEN conjunct2, THEN conjunct2]
  have p: "storePath B path = Ok base" "storePath B base = Ok base" using e by (simp_all add: expands_def)
  obtain fl s1 ds s2 ss s3 ks where s: "ready base (needed options) s" "takeLock no_faults base options s = (Ok fl, s1)"
    "openDatastore B no_faults fl (HasDataStore options) (dataPath base) ''can't open Badger Datastore'' s1 = (Ok ds, s2)"
    "openDatastore B no_faults fl (HasSignatureStore options) (signaturePath base) ''can't open Badger SignatureStore'' s2 = (Ok ss, s3)"
    "(if HasP2PKeyStore options then seq (NewFSKeystore B (p2pKeyStorePath base)) (\<lambda>_. sysret (Some (p2pKeyStorePath base)))
      else sysret None) s3 = (Ok ks, s')" "StoreLock st = fl"
    using assms(1) by (auto simp: OpenStore_def syslift_def p seq_eq_Ok IsInit_run Let_def split: if_splits)
  obtain l where l: "fl = Some l" "Lock no_faults (lockPath base) s = (Ok l, s1)"
    using s(2) has by (auto simp: takeLock_def seq_eq_Ok lockStore_Ok unlockAndFail_def split: if_splits)
  note nd = Lock_not_dir [OF l(2)]
  have 1: "fs_ok s1" "ready base (needed options) s1" "locked s1 (lockPath base)"
    using Lock_ok [OF assms(4) nd] Lock_ready [OF l(2) s(1)] Lock_locks [OF assms(4) nd l(2)] l(2) by simp_all
  have 2: "fs_ok s2 \<and> ready base (needed options) s2 \<and> locked s2 (lockPath base)"
    using openDatastore_minds [OF s(3) assms(3) 1(1)] minds_keeps [OF _ conjunct1 [OF c] conjunct2 [OF c], of "dataPath base"] 1
    by blast
  have 3: "fs_ok s3 \<and> ready base (needed options) s3 \<and> locked s3 (lockPath base)"
    using openDatastore_minds [OF s(4) assms(3)] minds_keeps [OF _ conjunct1 [OF c] conjunct2 [OF c], of "signaturePath base"] 2
    by blast
  have "s' = s3 \<or> minds (p2pKeyStorePath base) s3 s'"
  proof -
    have "minds (p2pKeyStorePath base) s3 (snd (NewFSKeystore B (p2pKeyStorePath base) s3))"
      using assms(3) 3 by (simp add: libraries_mind_def)
    then show ?thesis using s(5) by (auto simp: seq_eq_Ok split: if_splits)
  qed
  then have "fs_ok s' \<and> ready base (needed options) s' \<and> locked s' (lockPath base)"
    using minds_keeps [OF _ conjunct1 [OF c] conjunct2 [OF c], of "p2pKeyStorePath base"] 3 by blast
  then show ?thesis using Lock_Ok [OF l(2)] l(1) s(6) by simp
qed

lemma OpenStore_busy:
  assumes "storePath B path = Ok base" and "storePath B base = Ok base" and "fs_ok s" and "locked s (lockPath base)"
    and "HasDataStore options \<or> HasSignatureStore options"
  shows "fst (OpenStore B no_faults path options s) = Err (if ready base (needed options) s then ErrOpened else ErrNotInited)"
proof -
  obtain s' where "Lock no_faults (lockPath base) s = (Err ErrLocked, s')" using Lock_busy [OF assms(3,4)] by blast
  then show ?thesis
    using assms(5) by (auto simp: OpenStore_def syslift_def assms(1,2) seq_def IsInit_run takeLock_def lockStore_def
        attempt_def)
qed

lemma unlocking_removes:
  assumes "unlocking no_faults (Some l) s = (Ok l', s')" and "LockFile l \<noteq> None" and "fs_ok s"
  shows "Nodes s' (LockPath l) = None \<and> fs_ok s'"
proof -
  obtain fd where fd: "LockFile l = Some fd" using assms(2) by blast
  have "Fds s fd \<noteq> None \<and> Nodes s (LockPath l) \<noteq> None"
    using assms(1) fd
    by (auto simp: unlocking_def Unlock_def unlock_def seq_eq_Ok attempt_eq_Ok Let_def flock_un_def
        os_Close_def os_Remove_def release_def split: option.splits if_splits)
  then obtain i where "Fds s fd = Some i" "Nodes s (LockPath l) \<noteq> None" by blast
  from assms(1) Unlock_run [OF fd this]
  have "s' = (release fd s)\<lparr>Fds := (Fds s)(fd := None), Nodes := (Nodes s)(LockPath l := None)\<rparr>"
    by (simp add: unlocking_def seq_def)
  then show ?thesis using Unlock_ok [OF assms(3), of "LockPath l" fd] by simp
qed

lemma sysif_True: "sysif True m = m"
  by (simp add: sysif_def)

lemma closeDatastore_no_lock:
  assumes "sysif b (closeDatastore B (if b then Some dir else ds)) s = (Ok (), s')" and "libraries_mind B" and "fs_ok s"
    and "Clean base = base" and "base \<noteq> []" and "dir \<in> {dataPath base, signaturePath base}" and "Nodes s (lockPath base) = None"
  shows "fs_ok s' \<and> Nodes s' (lockPath base) = None"
proof -
  have "s' = s \<or> minds dir s s'"
  proof -
    have "minds dir s (snd (CloseDatastore B dir s))" using assms(2,3) by (simp add: libraries_mind_def)
    then show ?thesis using assms(1) by (auto simp: sysif_def closeDatastore_def split: if_splits)
  qed
  then show ?thesis using minds_no_lock [OF _ assms(4-7)] minds_keeps(1) [OF _ assms(4,5), of dir] assms(3,6,7) by blast
qed

lemma OpenStore_datastores:
  assumes "OpenStore B F path options s = (Ok st, s')" and "storePath B path = Ok base"
  shows "StoreData st = (if HasDataStore options then Some (dataPath base) else None)"
    "StoreSignatures st = (if HasSignatureStore options then Some (signaturePath base) else None)"
  using assms by (auto simp: OpenStore_def syslift_def seq_eq_Ok Let_def openDatastore_def attempt_eq_Ok unlockAndFail_def
      split: if_splits)

text \<open>
  What may happen to the file system while a store is open: the path is opened again or initialised
  again, by anybody and with any options, however that ends, and the libraries work in their
  directories.
\<close>

inductive meanwhile :: "store_lib \<Rightarrow> string \<Rightarrow> string \<Rightarrow> fs \<Rightarrow> fs \<Rightarrow> bool" for B path base where
  start: "meanwhile B path base s s"
| opens: "meanwhile B path base s s1 \<Longrightarrow> meanwhile B path base s (snd (OpenStore B no_faults path o' s1))"
| inits: "meanwhile B path base s s1 \<Longrightarrow> meanwhile B path base s (snd (Init B no_faults path io s1))"
| works: "meanwhile B path base s s1 \<Longrightarrow> dir \<in> {dataPath base, signaturePath base, p2pKeyStorePath base} \<Longrightarrow>
    minds dir s1 s2 \<Longrightarrow> meanwhile B path base s s2"

definition busy :: "string \<Rightarrow> init_options \<Rightarrow> fs \<Rightarrow> bool" where
  "busy base options s \<longleftrightarrow> fs_ok s \<and> locked s (lockPath base) \<and> ready base options s"

lemma busy_minds:
  "busy base o' s \<Longrightarrow> minds dir s s' \<Longrightarrow> Clean base = base \<Longrightarrow> base \<noteq> [] \<Longrightarrow>
   dir \<in> {dataPath base, signaturePath base, p2pKeyStorePath base} \<Longrightarrow> busy base o' s'"
  using minds_keeps unfolding busy_def by blast

lemma busy_opened:
  assumes "busy base o' s"
  shows "busy base o' (opened s (lockPath base))"
proof -
  have n: "Nodes s (lockPath base) \<noteq> Some DirNode" "Nodes s (lockPath base) \<noteq> None"
    using assms by (auto simp: busy_def locked_def)
  have "Nodes (opened s (lockPath base)) = Nodes s"
    using n by (auto simp: opened_simps lock_inode_def fun_eq_iff split: option.splits node.splits)
  then show ?thesis
    using assms opened_ok [OF _ n(1)] by (simp add: busy_def locked_def ready_def opened_simps [OF n(1)])
qed

lemma lockStore_busy:
  assumes "busy base o' s"
  shows "lockStore no_faults base s = (Err ErrOpened, opened s (lockPath base))"
proof -
  have n: "Nodes s (lockPath base) \<noteq> Some DirNode" using assms by (auto simp: busy_def locked_def)
  have "Locks s (lock_inode s (lockPath base)) \<noteq> None" using assms by (auto simp: busy_def locked_def lock_inode_def)
  then show ?thesis using Lock_run [OF n] assms by (simp add: busy_def lockStore_def attempt_def)
qed

lemma busy_OpenStore:
  assumes "busy base o' s" and e: "expands B path base" and "libraries_mind B"
  shows "busy base o' (snd (OpenStore B no_faults path options s))"
proof -
  have p: "storePath B path = Ok base" "storePath B base = Ok base" and c: "Clean base = base" "base \<noteq> []"
    using e by (simp_all add: expands_def)
  let ?k = "p2pKeyStorePath base"
  have "minds ?k s (snd (NewFSKeystore B ?k s))" using assms(1,3) by (simp add: libraries_mind_def busy_def)
  then have k: "busy base o' (snd (NewFSKeystore B ?k s))" using busy_minds [OF assms(1) _ c] by blast
  show ?thesis
    using assms(1) k busy_opened [OF assms(1)]
    by (cases "NewFSKeystore B ?k s"; cases "fst (NewFSKeystore B ?k s)")
      (auto simp: OpenStore_def syslift_def p seq_def IsInit_run takeLock_def lockStore_busy [OF assms(1)] openDatastore_def Let_def)
qed

lemma busy_check:
  assumes "busy base o' s" and "base \<noteq> []"
  shows "busy base o' (snd (initRoot no_faults base s))"
proof (cases "Nodes s (Join base ''.check'') = Some DirNode")
  case True
  then show ?thesis using assms
    by (simp add: initRoot_def seq_def initDir_def Exists_run busy_def ready_def os_OpenCreate_def)
next
  case False
  let ?c = "Join base ''.check''"
  let ?s = "snd (initRoot no_faults base s)"
  have ok: "fs_ok s" using assms(1) by (simp add: busy_def)
  have other: "q \<noteq> ?c" if "q \<in> {base, lockPath base, dataPath base, signaturePath base, evmKeyStorePath base, p2pKeyStorePath base}" for q
    using that not_itself [OF assms(2), of "''.check''"] unfolding store_paths [OF assms(2)] by (auto simp: leaf_def)
  have s: "?s = (release (NextFd s) (opened s ?c))\<lparr>Fds := (Fds (opened s ?c))(NextFd s := None), Nodes := (Nodes (opened s ?c))(?c := None)\<rparr>"
    using assms(1) opened_simps [OF False]
    by (simp add: initRoot_def seq_def initDir_def Exists_run busy_def ready_def os_Close_def os_Remove_def release_def)
  have "fs_ok ?s" unfolding s by (rule Unlock_ok [OF opened_ok [OF ok False]])
  moreover have "Locks ?s = Locks s"
    unfolding s using no_lock_by_next [OF ok] by (auto simp: release_def opened_simps [OF False] fun_eq_iff)
  moreover have "Nodes ?s q = Nodes s q" if "q \<noteq> ?c" for q
    unfolding s using that by (simp add: opened_simps [OF False])
  ultimately show ?thesis using assms(1) other by (simp add: busy_def locked_def ready_def)
qed

lemma busy_Init:
  assumes "busy base o' s" and e: "expands B path base"
  shows "busy base o' (snd (Init B no_faults path options s))"
proof -
  have p: "storePath B path = Ok base" and c: "base \<noteq> []" using e by (simp_all add: expands_def)
  obtain r s1 where r: "initRoot no_faults base s = (r, s1)" by fastforce
  then have b: "busy base o' s1" using busy_check [OF assms(1) c] by simp
  show ?thesis
    using b busy_opened [OF b] by (cases r) (simp_all add: Init_def syslift_def p seq_def r lockStore_busy [OF b])
qed

lemma meanwhile_busy:
  assumes "meanwhile B path base s s'" and "busy base o' s" and e: "expands B path base" and "libraries_mind B"
  shows "busy base o' s'"
  using assms(1,2)
proof (induction rule: meanwhile.induct)
  case (works s s1 dir s2)
  then show ?case using busy_minds e by (auto simp: expands_def)
qed (use busy_OpenStore [OF _ e assms(4)] busy_Init [OF _ e] in auto)

text \<open>
  C22: As long as a store that was opened with a datastore or a signature store is open, whatever
  else opens or initialises the path meanwhile, every \<open>OpenStore\<close> of the path that wants a datastore
  or a signature store is refused: with \<open>ErrOpened\<close> if the path is initialised for its options,
  which is so for those of the first one, and with \<open>ErrNotInited\<close> otherwise. One that wants at most
  the EVM keystore still succeeds when the path is initialised for it. Once the store is closed
  without an error, the lock file is gone and the path is not locked. The system is assumed to
  refuse no call.
\<close>

theorem OpenStore_excludes:
  assumes "libraries_mind B" and "expands B path base" and "fs_ok s"
    and "HasDataStore options \<or> HasSignatureStore options"
    and "OpenStore B no_faults path options s = (Ok st, s0)" and "meanwhile B path base s0 s1"
  shows "fst (OpenStore B no_faults path options s1) = Err ErrOpened \<and>
    (\<forall>o'. HasDataStore o' \<or> HasSignatureStore o' \<longrightarrow>
       fst (OpenStore B no_faults path o' s1) =
         Err (if fst (IsInit B no_faults path (needed o') s1) = Ok True then ErrOpened else ErrNotInited)) \<and>
    (\<forall>o'. \<not> HasDataStore o' \<and> \<not> HasSignatureStore o' \<and> \<not> HasP2PKeyStore o' \<and>
       fst (IsInit B no_faults path (needed o') s1) = Ok True \<longrightarrow> is_Ok (fst (OpenStore B no_faults path o' s1))) \<and>
    (\<forall>s2. Close B no_faults st options s1 = (Ok (), s2) \<longrightarrow>
       Nodes s2 (lockPath base) = None \<and> \<not> locked s2 (lockPath base))"
proof -
  have p: "storePath B path = Ok base" "storePath B base = Ok base" and c: "Clean base = base" "base \<noteq> []"
    using assms(2) by (simp_all add: expands_def)
  note h = OpenStore_holds [OF assms(5,2,1,3,4)] and ds = OpenStore_datastores [OF assms(5) p(1)]
  obtain l where l: "StoreLock st = Some l" "LockFile l \<noteq> None" "LockPath l = lockPath base" using h by blast
  have "busy base (needed options) s0" using h by (simp add: busy_def)
  from meanwhile_busy [OF assms(6) this assms(2,1)]
  have b1: "fs_ok s1" "locked s1 (lockPath base)" "ready base (needed options) s1" by (simp_all add: busy_def)
  note busy = OpenStore_busy [OF p b1(1,2)]
  have refused: "fst (OpenStore B no_faults path o' s1) =
      Err (if fst (IsInit B no_faults path (needed o') s1) = Ok True then ErrOpened else ErrNotInited)"
    if "HasDataStore o' \<or> HasSignatureStore o'" for o'
    using busy [OF that] by (simp add: IsInit_run p(1))
  have keys: "is_Ok (fst (OpenStore B no_faults path o' s1))"
    if "\<not> HasDataStore o' \<and> \<not> HasSignatureStore o' \<and> \<not> HasP2PKeyStore o' \<and>
      fst (IsInit B no_faults path (needed o') s1) = Ok True" for o'
    using that by (simp add: IsInit_run p OpenStore_def syslift_def seq_def takeLock_def openDatastore_def Let_def)
  have "Nodes s2 (lockPath base) = None" if cl: "Close B no_faults st options s1 = (Ok (), s2)" for s2
  proof -
    obtain sa sb l' where s: "unlocking no_faults (Some l) s1 = (Ok l', sa)"
      "sysif (HasDataStore options) (closeDatastore B (StoreData st)) sa = (Ok (), sb)"
      "sysif (HasSignatureStore options) (closeDatastore B (StoreSignatures st)) sb = (Ok (), s2)"
      using cl
      by (auto simp: Close_def assms(4) sysif_True seq_eq_Ok l(1))
    have a: "Nodes sa (lockPath base) = None" "fs_ok sa" using unlocking_removes [OF s(1) l(2) b1(1)] l(3) by simp_all
    have b: "fs_ok sb \<and> Nodes sb (lockPath base) = None"
      by (rule closeDatastore_no_lock [OF s(2) [unfolded ds] assms(1) a(2) c _ a(1)]) simp
    show ?thesis using closeDatastore_no_lock [OF s(3) [unfolded ds] assms(1) _ c] b by simp
  qed
  then show ?thesis using busy [OF assms(4)] b1(3) refused keys by (auto simp: locked_def)
qed

text \<open>A store with a datastore in \<open>/d\<close>.\<close>

definition sample_open :: open_options where
  "sample_open = \<lparr>HasDataStore = True, HasBadgerOptions = True, HasSignatureStore = False, HasEVMKeyStore = False,
     HasP2PKeyStore = False\<rparr>"

definition sample_dirs :: fs where
  "sample_dirs = empty_fs\<lparr>Nodes := [''/d'' \<mapsto> DirNode, ''/d/data'' \<mapsto> DirNode, ''/d/keystore/p2p'' \<mapsto> DirNode]\<rparr>"

lemma sample_dirs_ok: "fs_ok sample_dirs"
  by (simp add: sample_dirs_def fs_ok_def empty_fs_def)

lemma sample_expands: "expands sample_lib ''/d'' ''/d''"
  by (simp add: expands_def sample_path) (simp add: Clean_def IsAbs_def clean_parts_def clean_step_def)

lemma sample_libraries_mind: "libraries_mind sample_lib"
  by (simp add: libraries_mind_def minds_def sample_lib_def)

lemma sample_OpenStore: "\<exists>st s'. OpenStore sample_lib no_faults ''/d'' sample_open sample_dirs = (Ok st, s')"
  by (simp add: OpenStore_def seq_def syslift_def sample_path IsInit_run ready_def sample_open_def needed_def
      sample_store_paths sample_dirs_def empty_fs_def takeLock_def lockStore_def Lock_def lock_def New_def attempt_def
      Let_def os_OpenCreate_def os_WriteString_def flock_ex_def openDatastore_def sample_lib_def [THEN arg_cong, of NewDatastore])

theorem OpenStore_excludes_witness:
  "\<exists>st s0. OpenStore sample_lib no_faults ''/d'' sample_open sample_dirs = (Ok st, s0) \<and>
     fst (OpenStore sample_lib no_faults ''/d'' sample_open
       (snd (Init sample_lib no_faults ''/d'' sample_init (snd (OpenStore sample_lib no_faults ''/d'' sample_open s0))))) =
     Err ErrOpened"
proof -
  obtain st s0 where s: "OpenStore sample_lib no_faults ''/d'' sample_open sample_dirs = (Ok st, s0)"
    using sample_OpenStore by blast
  have "HasDataStore sample_open \<or> HasSignatureStore sample_open" by (simp add: sample_open_def)
  from OpenStore_excludes [OF sample_libraries_mind sample_expands sample_dirs_ok this s
      meanwhile.inits [OF meanwhile.opens [OF meanwhile.start]]]
  show ?thesis using s by blast
qed

text \<open>
  When everything but the p2p keystore opens, \<open>OpenStore\<close> returns the error of the keystore and
  leaves the lock behind: the path stays locked although no store was given back.
\<close>

theorem OpenStore_can_leave_the_lock:
  assumes "libraries_mind B" and "expands B path base" and "fs_ok s"
    and "HasDataStore options" and "\<not> HasSignatureStore options" and "HasP2PKeyStore options"
    and "fst (OpenStore B no_faults path (options\<lparr>HasP2PKeyStore := False\<rparr>) s) = Ok st"
    and "Nodes s (p2pKeyStorePath base) \<noteq> None"
    and "\<And>s. fst (NewFSKeystore B (p2pKeyStorePath base) s) = Err e"
  shows "\<exists>s1. OpenStore B no_faults path options s = (Err e, s1) \<and> locked s1 (lockPath base)"
proof -
  let ?o = "options\<lparr>HasP2PKeyStore := False\<rparr>" and ?ks = "NewFSKeystore B (p2pKeyStorePath base)"
  obtain s0 where s0: "OpenStore B no_faults path ?o s = (Ok st, s0)" using assms(7) by (cases "OpenStore B no_faults path ?o s") auto
  have p: "storePath B path = Ok base" "storePath B base = Ok base" and c: "Clean base = base" "base \<noteq> []"
    using assms(2) by (simp_all add: expands_def)
  have h: "fs_ok s0 \<and> locked s0 (lockPath base)" using OpenStore_holds [OF s0 assms(2,1,3)] assms(4) by simp
  have t: "takeLock no_faults base ?o = takeLock no_faults base options" by (simp add: takeLock_def)
  obtain fl sa ds where o: "takeLock no_faults base options s = (Ok fl, sa)" "ready base (needed ?o) s"
    "openDatastore B no_faults fl True (dataPath base) ''can't open Badger Datastore'' sa = (Ok ds, s0)"
    using s0 assms(4,5)
    by (auto simp: OpenStore_def syslift_def p seq_eq_Ok IsInit_run Let_def t openDatastore_def [of _ _ _ False]
        split: if_splits)
  obtain s1 where s1: "?ks s0 = (Err e, s1)" using assms(9) [of s0] by (cases "?ks s0") auto
  have "minds (p2pKeyStorePath base) s0 (snd (?ks s0))" using assms(1) h by (simp add: libraries_mind_def)
  then have "locked s1 (lockPath base)" using minds_keeps(3) [OF _ c, of "p2pKeyStorePath base" s0 s1] h s1 by simp
  moreover have "ready base (needed options) s" using o(2) assms(8) by (simp add: ready_def needed_def)
  then have "OpenStore B no_faults path options s = (Err e, s1)"
    using o(1,3) s1 assms(4-6)
    by (simp add: OpenStore_def syslift_def p seq_def IsInit_run openDatastore_def [of _ _ _ False] Let_def)
  ultimately show ?thesis by blast
qed

text \<open>A keystore that cannot be opened.\<close>

definition broken_lib :: store_lib where
  "broken_lib = sample_lib\<lparr>NewFSKeystore := (\<lambda>_. sysfail (Ext ''keystore''))\<rparr>"

lemma broken_lib_ok: "libraries_mind broken_lib" "expands broken_lib ''/d'' ''/d''"
proof -
  show "libraries_mind broken_lib" by (simp add: libraries_mind_def minds_def sample_lib_def broken_lib_def)
  have "storePath broken_lib = storePath sample_lib" by (simp add: fun_eq_iff storePath_def broken_lib_def)
  then show "expands broken_lib ''/d'' ''/d''" using sample_expands by (simp add: expands_def)
qed

lemma broken_OpenStore: "OpenStore broken_lib no_faults path sample_open s = OpenStore sample_lib no_faults path sample_open s"
proof -
  have "storePath broken_lib = storePath sample_lib" by (simp add: fun_eq_iff storePath_def broken_lib_def)
  moreover have "openDatastore broken_lib = openDatastore sample_lib"
    by (simp add: fun_eq_iff openDatastore_def broken_lib_def)
  moreover from calculation(1) have "IsInit broken_lib = IsInit sample_lib" by (simp add: fun_eq_iff IsInit_def)
  moreover have "HasP2PKeyStore sample_open = False" by (simp add: sample_open_def)
  ultimately show ?thesis unfolding OpenStore_def by (simp only: if_False)
qed

theorem OpenStore_can_leave_the_lock_witness:
  "\<exists>s1. OpenStore broken_lib no_faults ''/d'' (sample_open\<lparr>HasP2PKeyStore := True\<rparr>) sample_dirs = (Err (Ext ''keystore''), s1) \<and>
     locked s1 (lockPath ''/d'')"
proof -
  obtain st s1 where s: "OpenStore sample_lib no_faults ''/d'' sample_open sample_dirs = (Ok st, s1)"
    using sample_OpenStore by blast
  have o: "sample_open\<lparr>HasP2PKeyStore := True\<rparr>\<lparr>HasP2PKeyStore := False\<rparr> = sample_open" by (simp add: sample_open_def)
  show ?thesis
    by (rule OpenStore_can_leave_the_lock [OF broken_lib_ok sample_dirs_ok, where st = st])
      (simp_all add: s broken_OpenStore o, simp_all add: sample_open_def sample_dirs_def sample_store_paths broken_lib_def)
qed

end
