(* ===== verification/Deploy.thy ===== *)
theory Deploy imports Rpc Evm begin

text \<open>
  \<open>cmd/blobstream/deploy/cmd.go\<close>: which valset and which nonce the bridge contract is initialised
  with, and the deployment itself. The store, the key store and the application's connection enter
  the command as the results of opening them.
\<close>

section \<open>Where the contract starts\<close>

definition getStartingValset :: "lib \<Rightarrow> env \<Rightarrow> string \<Rightarrow> valset option prog" where
  "getStartingValset L E startingNonce =
     (if startingNonce = ''latest'' then
        handle (QueryLatestValset L E) ret
          (\<lambda>_. andThen (QueryHeight E) (\<lambda>currentHeight. QueryRecursiveLatestValset L E currentHeight))
      else if startingNonce = ''earliest'' then
        andThen
          (handle (QueryAttestationByNonce L E 1) ret (\<lambda>_. QueryHistoricalAttestationByNonce L E 1 1))
          (\<lambda>att. case att of
              Some (AttValset vs) \<Rightarrow> ret (Some vs)
            | _ \<Rightarrow> throw ErrUnmarshallValset)
      else
        andThen (lift (ParseUint 10 startingNonce)) (\<lambda>nonce.
        andThen (QueryHeight E) (\<lambda>currentHeight.
        andThen (QueryRecursiveHistoricalAttestationByNonce L E nonce currentHeight) (\<lambda>attestation.
        case attestation of
          None \<Rightarrow> throw ErrNilAttestation
        | Some (AttValset vs) \<Rightarrow> ret (Some vs)
        | Some (AttDataCommitment dc) \<Rightarrow>
            andThen (QueryRecursiveHistoricalLastValsetBeforeNonce L E nonce (EndBlock dc)) (\<lambda>vs. ret (Some vs))
        | Some (AttOther n) \<Rightarrow> throw ErrNotFound))))"

definition parseStartingNonce :: "env \<Rightarrow> string \<Rightarrow> u64 prog" where
  "parseStartingNonce E startingNonce =
     (if startingNonce = ''latest'' then QueryLatestAttestationNonce E
      else if startingNonce = ''earliest'' then ret 1
      else lift (ParseUint 10 startingNonce))"

section \<open>The command\<close>

text \<open>
  What the command gets from elsewhere: whether the home is initialised, whether the connection to
  the application and the store open, and the account that the key store unlocks.
\<close>

record deploy_setup =
  HomeIsInit :: bool
  AppConnected :: "unit outcome"
  StoreOpened :: "unit outcome"
  Account :: "address outcome"

text \<open>The result of waiting for the transaction is only logged; \<open>*vs\<close> of a nil valset is a panic.\<close>

definition deployContract :: "lib \<Rightarrow> env \<Rightarrow> evm_client \<Rightarrow> valset option \<Rightarrow> u64 \<Rightarrow> unit prog" where
  "deployContract L E ec vs startingNonce =
     andThen (NewTransactionOpts E ec) (\<lambda>txOpts.
     andThen (NewEthClient E) (\<lambda>_.
     case vs of
       None \<Rightarrow> panic ''invalid memory address or nil pointer dereference''
     | Some vs \<Rightarrow>
         andThen (DeployBlobstreamContract L E ec txOpts vs startingNonce False) (\<lambda>(_, _, _, tx).
         ignoreErr (WaitForTransaction E tx))))"

definition deploy_after :: "lib \<Rightarrow> env \<Rightarrow> deploy_setup \<Rightarrow> u64 \<Rightarrow> string \<Rightarrow> valset option \<Rightarrow> unit prog" where
  "deploy_after L E D evmGasLimit startingNonce vs =
     andThen (parseStartingNonce E startingNonce) (\<lambda>nonce.
     andThen (lift (StoreOpened D)) (\<lambda>_.
     andThen (lift (Account D)) (\<lambda>acc.
     deployContract L E \<lparr>Wrapper = None, Acc = acc, EvmGasLimit = evmGasLimit\<rparr> vs nonce)))"

definition deploy_body :: "lib \<Rightarrow> env \<Rightarrow> deploy_setup \<Rightarrow> u64 \<Rightarrow> string \<Rightarrow> unit prog" where
  "deploy_body L E D evmGasLimit startingNonce =
     andThen
       (handle (getStartingValset L E startingNonce) ret
         (\<lambda>e. throw (Wrap e ''cannot initialize the Blobstream contract without having a valset request: %s'')))
       (deploy_after L E D evmGasLimit startingNonce)"

definition deploy_RunE :: "lib \<Rightarrow> env \<Rightarrow> deploy_setup \<Rightarrow> u64 \<Rightarrow> string \<Rightarrow> unit prog" where
  "deploy_RunE L E D evmGasLimit startingNonce =
     (if \<not> HomeIsInit D then throw ErrNotInited
      else
        andThen (lift (AppConnected D)) (\<lambda>_.
        andThen (tmConnect E) (\<lambda>_.
        deferred (deploy_body L E D evmGasLimit startingNonce) (tmStop E))))"

section \<open>Which valset it is\<close>

text \<open>Some query was answered with this valset, for the nonce or, without one, for any.\<close>

definition answered_valset :: "history \<Rightarrow> valset \<Rightarrow> bool" where
  "answered_valset h vs \<longleftrightarrow> (\<exists>hg n. App (ValsetBefore hg n (Ok (Some vs))) \<in> set h)"

lemma QueryAttestation_answered:
  "QueryAttestationByNonce L E n h = (Ok a, h') \<Longrightarrow> a \<noteq> None \<Longrightarrow> answered L h' n a"
  "QueryHistoricalAttestationByNonce L E n k h = (Ok a, h') \<Longrightarrow> a \<noteq> None \<Longrightarrow> answered L h' n a"
  by (auto simp: QueryAttestationByNonce_def QueryHistoricalAttestationByNonce_def queryAttestation_run andThen_eq_Ok
      answered_def unmarshallAttestation_def split: if_splits, blast+)

lemma valset_of_attestation_Ok:
  "valset_of_attestation a h = (Ok vs, h') \<longleftrightarrow> a = Some (AttValset vs) \<and> h' = h"
  by (auto simp: valset_of_attestation_def split: option.splits attestation.splits)

lemma QueryValset_answered:
  "QueryValsetByNonce L E n h = (Ok vs, h') \<Longrightarrow> answered L h' n (Some (AttValset vs))"
  "QueryHistoricalValsetByNonce L E n k h = (Ok vs, h') \<Longrightarrow> answered L h' n (Some (AttValset vs))"
  unfolding QueryValsetByNonce_def QueryHistoricalValsetByNonce_def
  by (auto simp: andThen_eq_Ok valset_of_attestation_Ok dest: QueryAttestation_answered)

text \<open>
  \<open>vs\<close> is the valset in force at nonce \<open>n\<close>: the attestation at some nonce up to \<open>n\<close>, where queries
  answered with something else at every nonce in between.
\<close>

definition in_force :: "lib \<Rightarrow> history \<Rightarrow> u64 \<Rightarrow> valset \<Rightarrow> bool" where
  "in_force L h n vs \<longleftrightarrow> (\<exists>m \<le> n. answered L h m (Some (AttValset vs)) \<and>
     (\<forall>k. m < k \<and> k \<le> n \<longrightarrow> (\<exists>a. answered L h k a \<and> \<not> is_valset a)))"

lemma le_cases_pred: "k \<le> (n :: u64) \<Longrightarrow> k = n \<or> k \<le> n - 1"
proof -
  assume le: "k \<le> n"
  show ?thesis
  proof (cases "k = n")
    case False
    then have "unat k < unat n" using le by (metis order_le_less word_less_nat_alt)
    moreover from this have "n \<noteq> 0" by auto
    then have "unat (n - 1) = unat n - 1" by (simp add: unat_minus_one)
    ultimately show ?thesis unfolding word_le_nat_alt by linarith
  qed simp
qed

lemma numbered_Ok:
  assumes "startingNonce \<noteq> ''latest''" and "startingNonce \<noteq> ''earliest''"
    and "getStartingValset L E startingNonce h = (Ok vso, h')"
  shows "\<exists>n vs. ParseUint 10 startingNonce = Ok n \<and> vso = Some vs \<and> (n \<noteq> 0 \<longrightarrow> in_force L h' n vs)"
proof -
  obtain n ch att h1 h2 where q: "ParseUint 10 startingNonce = Ok n" "QueryHeight E h = (Ok ch, h1)"
    "QueryRecursiveHistoricalAttestationByNonce L E n ch h1 = (Ok att, h2)"
    and rest: "(case att of None \<Rightarrow> throw ErrNilAttestation | Some (AttValset vs) \<Rightarrow> ret (Some vs)
        | Some (AttDataCommitment dc) \<Rightarrow>
            andThen (QueryRecursiveHistoricalLastValsetBeforeNonce L E n (EndBlock dc)) (\<lambda>vs. ret (Some vs))
        | Some (AttOther n) \<Rightarrow> throw ErrNotFound) h2 = (Ok vso, h')"
    using assms by (auto simp: getStartingValset_def andThen_eq_Ok)
  have a: "answered L h2 n att" using recursive_answered [OF q(3)] by blast
  show ?thesis
  proof (cases "is_valset att")
    case True
    then obtain vs where vs: "att = Some (AttValset vs)" by (auto simp: is_valset_def)
    then have "vso = Some vs" "h' = h2" using rest by auto
    then show ?thesis using q(1) a vs by (auto simp: in_force_def)
  next
    case False
    then obtain dc where dc: "att = Some (AttDataCommitment dc)"
      using rest by (auto simp: is_valset_def split: option.splits attestation.splits)
    then obtain vs where vs: "vso = Some vs"
      and l: "QueryRecursiveHistoricalLastValsetBeforeNonce L E n (EndBlock dc) h2 = (Ok vs, h')"
      using rest by (auto simp: andThen_eq_Ok)
    from lastValsetBefore_Ok [OF l [unfolded QueryRecursiveHistoricalLastValsetBeforeNonce_def]]
    obtain m where m: "set h2 \<subseteq> set h'" "m \<le> n - 1" "0 < m" "answered L h' m (Some (AttValset vs))"
      "\<forall>k. m < k \<and> k \<le> n - 1 \<longrightarrow> (\<exists>a. answered L h' k a \<and> \<not> is_valset a)" by blast
    have "in_force L h' n vs" if n0: "n \<noteq> 0"
    proof -
      have "unat (n - 1) \<le> unat n" using n0 by (simp add: unat_minus_one)
      then have "m \<le> n" using m(2) unfolding word_le_nat_alt by linarith
      moreover have "\<exists>a. answered L h' k a \<and> \<not> is_valset a" if k: "m < k \<and> k \<le> n" for k
        using le_cases_pred [of k n] k m(5) answered_mono [OF a m(1)] False by blast
      ultimately show ?thesis using m(4) unfolding in_force_def by blast
    qed
    then show ?thesis using q(1) vs by blast
  qed
qed

lemma in_force_at_start:
  assumes "startingNonce \<noteq> ''latest''" and "parseStartingNonce E startingNonce h2 = (Ok n, h1)" and "n \<noteq> 0"
    and "getStartingValset L E startingNonce h = (Ok vso, h')"
  shows "\<exists>vs. vso = Some vs \<and> in_force L h' n vs"
proof (cases "startingNonce = ''earliest''")
  case True
  obtain att h3 where q: "handle (QueryAttestationByNonce L E 1) ret (\<lambda>_. QueryHistoricalAttestationByNonce L E 1 1) h = (Ok att, h3)"
    and rest: "(case att of Some (AttValset vs) \<Rightarrow> ret (Some vs) | _ \<Rightarrow> throw ErrUnmarshallValset) h3 = (Ok vso, h')"
    using assms(4) True by (auto simp: getStartingValset_def andThen_eq_Ok)
  obtain vs where vs: "att = Some (AttValset vs)" "vso = Some vs" "h' = h3"
    using rest by (auto split: option.splits attestation.splits)
  have "answered L h' 1 att"
    using q vs QueryAttestation_answered [of L E 1] by (auto simp: handle_def split: prod.splits outcome.splits)
  moreover have "n = 1" using assms(2) True by (simp add: parseStartingNonce_def)
  ultimately show ?thesis using vs by (auto simp: in_force_def)
next
  case False
  then have "ParseUint 10 startingNonce = Ok n" using assms(1,2) by (simp add: parseStartingNonce_def)
  then show ?thesis using numbered_Ok [OF assms(1) False assms(4)] assms(3) by auto
qed

lemma emits_QueryHistoricalAttestationByNonce [emits_intros]: "emits read_only (QueryHistoricalAttestationByNonce L E n k)"
  unfolding QueryHistoricalAttestationByNonce_def by (intro emits_intros)

lemma emits_valset_of_attestation [emits_intros]: "emits P (valset_of_attestation a)"
  by (cases a; cases "the a") (simp_all add: valset_of_attestation_def)

lemma emits_valset_queries [emits_intros]:
  "emits read_only (QueryValsetByNonce L E n)" "emits read_only (QueryHistoricalValsetByNonce L E n k)"
  "emits read_only (QueryLatestValset L E)"
  unfolding QueryValsetByNonce_def QueryHistoricalValsetByNonce_def QueryLatestValset_def by (intro emits_intros)+

text \<open>
  For the latest start: a valset that was answered for a nonce that had been answered as the latest
  one; it is the one before that nonce when the nonce is not one of a valset.
\<close>

definition found_latest :: "lib \<Rightarrow> history \<Rightarrow> valset \<Rightarrow> bool" where
  "found_latest L t vs \<longleftrightarrow> (\<exists>hg m. App (LatestNonce hg (Ok m)) \<in> set t \<and>
     (answered L t m (Some (AttValset vs)) \<or> App (ValsetBefore hg m (Ok (Some vs))) \<in> set t))"

lemma QueryValset_extends:
  "QueryValsetByNonce L E n h = (r, h') \<Longrightarrow> set h \<subseteq> set h'"
  "QueryHistoricalValsetByNonce L E n k h = (r, h') \<Longrightarrow> set h \<subseteq> set h'"
  by (rule emits_extends, rule emits_valset_queries, assumption)+

lemma valset_or_before_found:
  assumes q: "handle m (\<lambda>vs. ret (Some vs)) (\<lambda>_. handle (call f (\<lambda>r. App (ValsetBefore hg n r))) ret k) h1 = (Ok (Some vs), h')"
    and latest: "App (LatestNonce hg (Ok n)) \<in> set h1"
    and m: "\<And>r h2. m h1 = (r, h2) \<Longrightarrow> set h1 \<subseteq> set h2" "\<And>v h2. m h1 = (Ok v, h2) \<Longrightarrow> answered L h2 n (Some (AttValset v))"
    and k: "\<And>e h2. k e h2 = (Ok (Some vs), h') \<Longrightarrow> found_latest L h' vs"
  shows "found_latest L h' vs"
proof -
  obtain r h2 where r: "m h1 = (r, h2)" by fastforce
  with m(1) latest have l: "App (LatestNonce hg (Ok n)) \<in> set h2" by blast
  show ?thesis
  proof (cases r)
    case (Ok v)
    then have "v = vs" "h' = h2" using q r by (simp_all add: handle_def)
    then show ?thesis using m(2) r Ok l unfolding found_latest_def by blast
  next
    case (Err e)
    then have *: "handle (call f (\<lambda>r. App (ValsetBefore hg n r))) ret k h2 = (Ok (Some vs), h')"
      using q r by (simp add: handle_def)
    show ?thesis
    proof (cases "f h2")
      case (Ok v)
      then have "App (ValsetBefore hg n (Ok (Some vs))) \<in> set h' \<and> App (LatestNonce hg (Ok n)) \<in> set h'"
        using * l by (auto simp: handle_def)
      then show ?thesis unfolding found_latest_def by blast
    qed (use * k in \<open>auto simp: handle_def\<close>)
  qed (use q r in \<open>auto simp: handle_def\<close>)
qed

lemma QueryLatestValset_found:
  assumes "QueryLatestValset L E h = (Ok (Some vs), h')"
  shows "found_latest L h' vs"
proof -
  obtain n h1 where l: "QueryLatestAttestationNonce E h = (Ok n, h1)" and q: "handle (QueryValsetByNonce L E n)
      (\<lambda>vs. ret (Some vs)) (\<lambda>_. QueryLastValsetBeforeNonce E n) h1 = (Ok (Some vs), h')"
    using assms unfolding QueryLatestValset_def by (rule andThen_OkE)
  have l: "App (LatestNonce None (Ok n)) \<in> set h1" using l by (auto simp: QueryLatestAttestationNonce_def)
  have "QueryLastValsetBeforeNonce E n =
      handle (call (app_valset_before E None n) (\<lambda>r. App (ValsetBefore None n r))) ret throw"
    by (rule ext) (simp add: QueryLastValsetBeforeNonce_def handle_def split: outcome.splits)
  note q = q [unfolded this]
  show ?thesis
    by (rule valset_or_before_found [OF q l QueryValset_extends(1) QueryValset_answered(1)]) simp_all
qed

lemma recursiveLatestValset_found:
  "recursiveLatestValset L E k height h = (Ok (Some vs), h') \<Longrightarrow> found_latest L h' vs"
proof (induction k arbitrary: height h)
  case (Suc k)
  let ?rest = "if height \<le> BlocksIn20DaysPeriod L then throw ErrNotFound
               else recursiveLatestValset L E k (height - BlocksIn20DaysPeriod L)"
  let ?query = "andThen (QueryHistoricalLatestAttestationNonce E height) (\<lambda>m.
    handle (QueryHistoricalValsetByNonce L E m height) (\<lambda>vs. ret (Some vs))
        (\<lambda>_. handle (QueryHistoricalLastValsetBeforeNonce E m height) ret (\<lambda>_. ?rest)))"
  have "\<not> height < 1" using Suc.prems by auto
  then have "andThen (ctxErr E) (\<lambda>c. case c of Some e \<Rightarrow> throw e | None \<Rightarrow> ?query) h = (Ok (Some vs), h')"
    using Suc.prems by (simp only: recursiveLatestValset.simps if_False)
  then obtain c h0 where c: "(case c of Some e \<Rightarrow> throw e | None \<Rightarrow> ?query) h0 = (Ok (Some vs), h')"
    by (rule andThen_OkE)
  then have "?query h0 = (Ok (Some vs), h')" by (cases c) simp_all
  then obtain m h1 where l: "QueryHistoricalLatestAttestationNonce E height h0 = (Ok m, h1)" and
    q: "handle (QueryHistoricalValsetByNonce L E m height) (\<lambda>vs. ret (Some vs))
        (\<lambda>_. handle (QueryHistoricalLastValsetBeforeNonce E m height) ret (\<lambda>_. ?rest)) h1 = (Ok (Some vs), h')"
    by (rule andThen_OkE)
  have m: "App (LatestNonce (Some height) (Ok m)) \<in> set h1"
    using l by (auto simp: QueryHistoricalLatestAttestationNonce_def)
  show ?case
    by (rule valset_or_before_found [OF q [unfolded QueryHistoricalLastValsetBeforeNonce_def] m
          QueryValset_extends(2) QueryValset_answered(2)])
      (use Suc.IH in \<open>auto split: if_splits\<close>)
qed simp

lemma getStartingValset_found:
  assumes "getStartingValset L E ''latest'' h = (Ok (Some vs), h')"
  shows "found_latest L h' vs"
proof -
  have "handle (QueryLatestValset L E) ret
      (\<lambda>_. andThen (QueryHeight E) (\<lambda>height. QueryRecursiveLatestValset L E height)) h = (Ok (Some vs), h')"
    using assms by (simp only: getStartingValset_def simp_thms if_True)
  then obtain h1 where "QueryLatestValset L E h = (Ok (Some vs), h') \<or>
      andThen (QueryHeight E) (\<lambda>height. QueryRecursiveLatestValset L E height) h1 = (Ok (Some vs), h')"
    unfolding handle_eq_Ok ret_run by blast
  then show ?thesis
  proof
    assume "andThen (QueryHeight E) (\<lambda>height. QueryRecursiveLatestValset L E height) h1 = (Ok (Some vs), h')"
    then obtain height h2 where "QueryRecursiveLatestValset L E height h2 = (Ok (Some vs), h')" by (rule andThen_OkE)
    then show ?thesis unfolding QueryRecursiveLatestValset_def by (rule recursiveLatestValset_found)
  qed (rule QueryLatestValset_found)
qed

section \<open>What is read and what is sent\<close>

lemma emits_recursiveLatestValset [emits_intros]: "emits read_only (recursiveLatestValset L E k height)"
  by (induction k arbitrary: height)
    (simp_all only: recursiveLatestValset.simps, (intro emits_intros read_only.simps | assumption | simp)+)

lemma emits_attestation_case:
  "(\<And>vs. emits P (f vs)) \<Longrightarrow> (\<And>dc. emits P (g dc)) \<Longrightarrow> (\<And>n. emits P (k n)) \<Longrightarrow>
   emits P (case a of AttValset vs \<Rightarrow> f vs | AttDataCommitment dc \<Rightarrow> g dc | AttOther n \<Rightarrow> k n)"
  by (cases a) simp_all

lemma emits_recursiveQuery [emits_intros]: "emits read_only (QueryRecursiveHistoricalAttestationByNonce L E n k)"
  unfolding QueryRecursiveHistoricalAttestationByNonce_def by (intro emits_intros)

lemma emits_lastValsetBefore_events [emits_intros]: "emits read_only (lastValsetBefore L E k n height)"
  by (induction k arbitrary: n)
    (simp_all only: lastValsetBefore.simps, (intro emits_intros emits_attestation_case read_only.simps | assumption | simp)+)

lemma emits_getStartingValset [emits_intros]: "emits read_only (getStartingValset L E s)"
  unfolding getStartingValset_def QueryRecursiveLatestValset_def QueryRecursiveHistoricalLastValsetBeforeNonce_def
  by (intro emits_intros emits_attestation_case)

lemma emits_parseStartingNonce [emits_intros]: "emits read_only (parseStartingNonce E s)"
  unfolding parseStartingNonce_def by (intro emits_intros)

fun not_proxy :: "event \<Rightarrow> bool" where
  "not_proxy (Contract (DeployProxy opts a data r)) = False"
| "not_proxy e = True"

lemma read_only_not_proxy: "read_only e \<Longrightarrow> not_proxy e"
  by (cases e rule: read_only.cases) simp_all

lemmas reads_no_proxy = emits_mono [where P = read_only and Q = not_proxy, OF _ read_only_not_proxy]

lemma emits_client:
  "emits not_proxy (NewTransactionOpts E ec)" "emits not_proxy (NewEthClient E)" "emits not_proxy (DeployImplementation E opts)"
  unfolding NewTransactionOpts_def transactOptsBuilder_def NewEthClient_def DeployImplementation_def
  by (intro emits_intros; simp)+

lemma deployed_proxy:
  assumes "Contract (DeployProxy opts a data r) \<in> set (snd (DeployBlobstreamContract L E ec o' vs n ib h))"
    and "Contract (DeployProxy opts a data r) \<notin> set h"
  shows "\<exists>cp. ValsetSignBytes L vs = Ok cp \<and> PackInitialize L (int64 n) (int64 (TwoThirdsThreshold L vs)) cp = Ok data"
  using assms
  by (auto simp: DeployBlobstreamContract_def DeployImplementation_def DeployERC1867Proxy_def andThen_def Let_def
      split: prod.splits outcome.splits)

lemma deployed_by_contract:
  assumes "Contract (DeployProxy opts a data r) \<in> set (snd (deployContract L E ec vso n h))"
    and "Contract (DeployProxy opts a data r) \<notin> set h"
  shows "\<exists>vs cp. vso = Some vs \<and> ValsetSignBytes L vs = Ok cp \<and>
    PackInitialize L (int64 n) (int64 (TwoThirdsThreshold L vs)) cp = Ok data"
proof -
  let ?e = "Contract (DeployProxy opts a data r)"
  have np: "\<not> not_proxy ?e" by simp
  note new_event = new_event_andThen [where P = not_proxy and e = ?e, OF _ np]
  obtain txOpts h1 where h1: "?e \<notin> set h1" and a: "?e \<in> set (snd (andThen (NewEthClient E) (\<lambda>_. case vso of
       None \<Rightarrow> panic ''invalid memory address or nil pointer dereference''
     | Some vs \<Rightarrow> andThen (DeployBlobstreamContract L E ec txOpts vs n False) (\<lambda>(_, _, _, tx).
         ignoreErr (WaitForTransaction E tx))) h1))"
    using new_event [OF emits_client(1) assms(1) [unfolded deployContract_def] assms(2)] by blast
  obtain h2 where h2: "?e \<notin> set h2" and b: "?e \<in> set (snd ((case vso of
       None \<Rightarrow> panic ''invalid memory address or nil pointer dereference''
     | Some vs \<Rightarrow> andThen (DeployBlobstreamContract L E ec txOpts vs n False) (\<lambda>(_, _, _, tx).
         ignoreErr (WaitForTransaction E tx))) h2))"
    using new_event [OF emits_client(2) a h1] by blast
  then obtain vs where vs: "vso = Some vs" by (cases vso) auto
  have "?e \<in> set (snd (DeployBlobstreamContract L E ec txOpts vs n False h2))"
    using b vs by (auto simp: andThen_def ignoreErr_run WaitForTransaction_def split: outcome.splits prod.splits)
  then show ?thesis using deployed_proxy h2 vs by blast
qed

lemma emits_tm: "emits not_proxy (tmConnect E)" "emits not_proxy (tmStop E)"
  unfolding tmConnect_def tmStop_def by (intro emits_intros; simp)+

lemma deferred_event:
  assumes "emits P cleanup" and "\<not> P e" and "e \<in> set (snd (deferred body cleanup h))"
  shows "e \<in> set (snd (body h))"
proof -
  obtain r h1 where b: "body h = (r, h1)" by fastforce
  obtain t where "snd (cleanup h1) = t @ h1" "\<forall>e \<in> set t. P e" using assms(1) by (metis emits_def)
  then show ?thesis using assms(2,3) b by (cases r) (auto simp: deferred_def)
qed

lemma emits_wrapped: "emits not_proxy (handle (getStartingValset L E s) ret (\<lambda>e. throw (Wrap e m)))"
  by (intro emits_intros reads_no_proxy)

lemma emits_deployContract: "emits (\<lambda>_. True) (deployContract L E ec vso n)"
  unfolding deployContract_def DeployBlobstreamContract_def NewTransactionOpts_def transactOptsBuilder_def NewEthClient_def
    DeployImplementation_def DeployERC1867Proxy_def WaitForTransaction_def Let_def
  by (intro emits_intros; simp)

text \<open>The run of the command once the valset, the nonce, the store and the account are there.\<close>

lemma deploy_RunE_run:
  assumes "HomeIsInit D" "AppConnected D = Ok ()" "tmConnect E h = (Ok (), h1)"
    and "getStartingValset L E s h1 = (Ok vso, h2)" "parseStartingNonce E s h2 = (Ok n, h3)"
    and "StoreOpened D = Ok ()" "Account D = Ok acc"
  shows "\<exists>t. snd (deploy_RunE L E D gasLim s h) =
    t @ snd (deployContract L E \<lparr>Wrapper = None, Acc = acc, EvmGasLimit = gasLim\<rparr> vso n h3)"
proof -
  obtain r h4 where d: "deployContract L E \<lparr>Wrapper = None, Acc = acc, EvmGasLimit = gasLim\<rparr> vso n h3 = (r, h4)" by fastforce
  then have "deploy_body L E D gasLim s h1 = (r, h4)"
    using assms by (simp add: deploy_body_def deploy_after_def handle_def andThen_def)
  then show ?thesis using assms d
    by (cases r) (simp_all add: deploy_RunE_def andThen_def deferred_def tmStop_def)
qed

section \<open>Properties\<close>

text \<open>
  For a numbered start the contract is initialised with the valset in force at that nonce: the
  attestation of the nonce itself or, when that is a data commitment, of the last valset before it.
  For the earliest start it is the valset of nonce 1.
\<close>

theorem getStartingValset_in_force:
  assumes "startingNonce \<noteq> ''latest''" and "parseStartingNonce E startingNonce h = (Ok n, h1)" and "n \<noteq> 0"
    and "getStartingValset L E startingNonce h = (Ok vso, h')"
  shows "\<exists>vs. vso = Some vs \<and> in_force L h' n vs"
  by (rule in_force_at_start [OF assms])

text \<open>An application that knows the first attestation.\<close>

definition start_env :: env where
  "start_env = archive_env\<lparr>tm_connect := (\<lambda>_. Ok ()), app_latest_nonce := (\<lambda>_ h. Ok (if h = [] then 1 else 3)),
     deploy_wrappers := (\<lambda>o' _. Ok ([1], sample_tx)), deploy_proxy := (\<lambda>_ _ _ _. Err (Ext ''gas''))\<rparr>"

lemma deploy_earliest:
  "getStartingValset archive_lib start_env ''earliest'' h =
     (Ok (Some (sample_valset\<lparr>Nonce := 1\<rparr>)), App (Attestation None 1 (Ok (Some ''v''))) # h)"
  by (simp add: getStartingValset_def QueryAttestationByNonce_def queryAttestation_def unmarshallAttestation_def handle_def
      andThen_def start_env_def archive_env_def archive_unpack)

theorem getStartingValset_in_force_witness:
  "in_force archive_lib [App (Attestation None 1 (Ok (Some ''v'')))] 1 (sample_valset\<lparr>Nonce := 1\<rparr>)"
proof -
  have "parseStartingNonce start_env ''earliest'' [] = (Ok 1, [])" by (simp add: parseStartingNonce_def)
  from getStartingValset_in_force [OF _ this _ deploy_earliest] show ?thesis by simp
qed

text \<open>
  C15: When a run of the command sends the proxy, it had connected, then found a valset, then read a
  nonce, in this order, and the initialisation data it sends afterwards pack this nonce and the
  threshold and the checkpoint of this valset; the store had been opened and the account
  unlocked. For a start other than the latest, the valset is the one in force at the nonce (if that
  is not zero, which no attestation has). For the latest start, the default, it is only the valset
  found for a nonce that was the latest when it was asked for: the nonce is asked for again, and
  need not be the same (see \<open>deploy_latest_can_mismatch\<close>).
\<close>

theorem deploy_initialises:
  assumes "Contract (DeployProxy opts a data r) \<in> set (snd (deploy_RunE L E D gasLim s h))"
    and "Contract (DeployProxy opts a data r) \<notin> set h"
  shows "\<exists>vs n cp h2 h3 t. getStartingValset L E s (Tm (Connect (Ok ())) # h) = (Ok (Some vs), h2) \<and>
    parseStartingNonce E s h2 = (Ok n, h3) \<and>
    snd (deploy_RunE L E D gasLim s h) = t @ h3 \<and> Contract (DeployProxy opts a data r) \<in> set t \<and>
    ValsetSignBytes L vs = Ok cp \<and> PackInitialize L (int64 n) (int64 (TwoThirdsThreshold L vs)) cp = Ok data \<and>
    (if s = ''latest'' then found_latest L h2 vs else n = 0 \<or> in_force L h2 n vs) \<and>
    StoreOpened D = Ok () \<and> is_Ok (Account D)"
proof -
  let ?e = "Contract (DeployProxy opts a data r)"
  have np: "\<not> not_proxy ?e" by simp
  note new_event = new_event_andThen [where P = not_proxy and e = ?e, OF _ np]
  have init: "HomeIsInit D" and p: "?e \<in> set (snd (andThen (lift (AppConnected D)) (\<lambda>_. andThen (tmConnect E) (\<lambda>_.
      deferred (deploy_body L E D gasLim s) (tmStop E))) h))"
    using assms by (auto simp: deploy_RunE_def deploy_body_def split: if_splits)
  obtain u h0 where app: "lift (AppConnected D) h = (Ok u, h0)"
    and p0: "?e \<in> set (snd (andThen (tmConnect E) (\<lambda>_. deferred (deploy_body L E D gasLim s) (tmStop E)) h0))"
    using new_event [OF emits_lift p assms(2)] by blast
  have app: "AppConnected D = Ok ()" "h0 = h" using app by (cases "AppConnected D"; simp)+
  obtain c h1 where c: "tmConnect E h = (Ok c, h1)"
    and p1: "?e \<in> set (snd (deferred (deploy_body L E D gasLim s) (tmStop E) h1))" and h1: "?e \<notin> set h1"
    using new_event [OF emits_tm(1) p0 [unfolded app(2)] assms(2)] by blast
  have b: "?e \<in> set (snd (deploy_body L E D gasLim s h1))" by (rule deferred_event [OF emits_tm(2) np p1])
  have connected: "h1 = Tm (Connect (Ok ())) # h" using c by (auto simp: tmConnect_def)
  obtain vso h2 where v: "getStartingValset L E s h1 = (Ok vso, h2)" and h2: "?e \<notin> set h2"
    and b2: "?e \<in> set (snd (deploy_after L E D gasLim s vso h2))"
    using new_event [OF emits_wrapped b [unfolded deploy_body_def] h1] by (auto simp: handle_def split: prod.splits outcome.splits)
  obtain n h3 where n: "parseStartingNonce E s h2 = (Ok n, h3)" and h3: "?e \<notin> set h3"
    and b3: "?e \<in> set (snd (andThen (lift (StoreOpened D)) (\<lambda>_. andThen (lift (Account D)) (\<lambda>acc.
      deployContract L E \<lparr>Wrapper = None, Acc = acc, EvmGasLimit = gasLim\<rparr> vso n)) h3))"
    using new_event [OF reads_no_proxy [OF emits_parseStartingNonce] b2 [unfolded deploy_after_def] h2] by blast
  obtain acc where acc: "StoreOpened D = Ok ()" "Account D = Ok acc"
    and b4: "?e \<in> set (snd (deployContract L E \<lparr>Wrapper = None, Acc = acc, EvmGasLimit = gasLim\<rparr> vso n h3))"
    using b3 h3 by (auto simp: andThen_def split: outcome.splits)
  obtain u where u: "snd (deployContract L E \<lparr>Wrapper = None, Acc = acc, EvmGasLimit = gasLim\<rparr> vso n h3) = u @ h3"
    using emits_deployContract unfolding emits_def by blast
  obtain t where t: "snd (deploy_RunE L E D gasLim s h) = t @ u @ h3"
    using deploy_RunE_run [OF init app(1) c [unfolded unit_eq [of c]] v n acc, of gasLim] unfolding u by blast
  have sent: "?e \<in> set (t @ u)" using b4 h3 u by auto
  obtain vs cp where vs: "vso = Some vs" "ValsetSignBytes L vs = Ok cp"
    "PackInitialize L (int64 n) (int64 (TwoThirdsThreshold L vs)) cp = Ok data"
    using deployed_by_contract [OF b4 h3] by blast
  moreover have "if s = ''latest'' then found_latest L h2 vs else n = 0 \<or> in_force L h2 n vs"
  proof (cases "s = ''latest''")
    case True
    then show ?thesis using getStartingValset_found v vs(1) by simp
  next
    case False
    then show ?thesis using in_force_at_start [OF False n _ v] vs(1) by (cases "n = 0") simp_all
  qed
  ultimately show ?thesis using v n acc t sent connected
    by (intro exI [of _ vs] exI [of _ n] exI [of _ cp] exI [of _ h2] exI [of _ h3] exI [of _ "t @ u"]) simp
qed

definition start_lib :: lib where
  "start_lib = archive_lib\<lparr>ValsetSignBytes := (\<lambda>_. Ok [7]), PackInitialize := (\<lambda>_ _ _. Ok [8])\<rparr>"

definition sample_setup :: deploy_setup where
  "sample_setup = \<lparr>HomeIsInit = True, AppConnected = Ok (), StoreOpened = Ok (), Account = Ok [2]\<rparr>"

lemma start_earliest:
  "getStartingValset start_lib start_env ''earliest'' h =
     (Ok (Some (sample_valset\<lparr>Nonce := 1\<rparr>)), App (Attestation None 1 (Ok (Some ''v''))) # h)"
proof -
  have "unmarshallAttestation start_lib = unmarshallAttestation archive_lib"
    by (simp add: fun_eq_iff unmarshallAttestation_def start_lib_def)
  then show ?thesis
    by (simp add: getStartingValset_def QueryAttestationByNonce_def queryAttestation_def handle_def
        andThen_def start_env_def archive_env_def archive_unpack unmarshallAttestation_def)
qed

lemma start_env_simps:
  "tm_connect start_env h = Ok ()" "evm_dial start_env h = Ok ()" "evm_pending_nonce start_env acc h = Ok 0"
  "evm_chain_id start_env h = Ok 1" "deploy_wrappers start_env o' h = Ok ([1], sample_tx)"
  "evm_transactor start_env acc h = Ok \<lparr>From = acc, OptsNonce = None, OptsValue = 0, GasLimit = 0\<rparr>"
  "deploy_proxy start_env o' a d h = Err (Ext ''gas'')"
  "ValsetSignBytes start_lib vs = Ok [7]" "PackInitialize start_lib n t c = Ok [8]"
  by (simp_all add: start_env_def archive_env_def ref_env_def start_lib_def)

lemma start_deployContract:
  "\<exists>opts a data r h'. deployContract start_lib start_env \<lparr>Wrapper = None, Acc = acc, EvmGasLimit = g\<rparr> (Some vs) n h =
      (Err (Ext ''gas''), Contract (DeployProxy opts a data r) # h')"
  by (simp add: deployContract_def NewTransactionOpts_def transactOptsBuilder_def NewEthClient_def andThen_def handle_def
      DeployBlobstreamContract_def DeployImplementation_def DeployERC1867Proxy_def Let_def start_env_simps)

lemma start_deploys:
  "\<exists>opts a data r. Contract (DeployProxy opts a data r) \<in>
     set (snd (deploy_RunE start_lib start_env sample_setup 21000 ''earliest'' []))"
proof -
  let ?h1 = "[App (Attestation None 1 (Ok (Some ''v''))), Tm (Connect (Ok ()))]"
  obtain opts a data r h' where d: "deployContract start_lib start_env \<lparr>Wrapper = None, Acc = [2], EvmGasLimit = 21000\<rparr>
      (Some (sample_valset\<lparr>Nonce := 1\<rparr>)) 1 ?h1 = (Err (Ext ''gas''), Contract (DeployProxy opts a data r) # h')"
    using start_deployContract by blast
  have "snd (deploy_RunE start_lib start_env sample_setup 21000 ''earliest'' []) =
      Tm (Stop (tm_stop start_env (Contract (DeployProxy opts a data r) # h'))) # Contract (DeployProxy opts a data r) # h'"
    using d by (simp add: deploy_RunE_def sample_setup_def tmConnect_def andThen_def deferred_def deploy_body_def handle_def
        start_earliest deploy_after_def parseStartingNonce_def tmStop_def start_env_simps)
  then show ?thesis by auto
qed

theorem deploy_initialises_witness:
  "\<exists>vs n h2 h3 t. getStartingValset start_lib start_env ''earliest'' [Tm (Connect (Ok ()))] = (Ok (Some vs), h2) \<and>
     parseStartingNonce start_env ''earliest'' h2 = (Ok n, h3) \<and>
     snd (deploy_RunE start_lib start_env sample_setup 21000 ''earliest'' []) = t @ h3 \<and> (n = 0 \<or> in_force start_lib h2 n vs)"
proof -
  obtain opts a data r where d: "Contract (DeployProxy opts a data r) \<in>
     set (snd (deploy_RunE start_lib start_env sample_setup 21000 ''earliest'' []))" using start_deploys by blast
  have "Contract (DeployProxy opts a data r) \<notin> set []" by simp
  moreover have "''earliest'' \<noteq> ''latest''" by simp
  ultimately show ?thesis using deploy_initialises [OF d] by (simp only: if_False) blast
qed

text \<open>
  With the latest start the valset and the nonce are asked for one after the other: when an
  attestation with a new valset is created in between, the contract is initialised at the new nonce
  with the valset that is no longer in force there.
\<close>

theorem deploy_latest_can_mismatch:
  "\<exists>L E vs vs' n h1 h2 h3. getStartingValset L E ''latest'' [] = (Ok (Some vs), h1) \<and>
     parseStartingNonce E ''latest'' h1 = (Ok n, h2) \<and>
     QueryValsetByNonce L E n h2 = (Ok vs', h3) \<and> Nonce vs < Nonce vs'"
proof -
  let ?v = "\<lambda>n. sample_valset\<lparr>Nonce := n\<rparr>"
  define L where "L = ref_lib\<lparr>UnpackAny := (\<lambda>a. Ok (Some (AttValset (?v (if a = Some ''v'' then 1 else 3)))))\<rparr>"
  define E where "E = ref_env\<lparr>app_latest_nonce := (\<lambda>_ h. Ok (if h = [] then 1 else 3)),
    app_attestation := (\<lambda>_ n _. Ok (Some (if n = 1 then ''v'' else ''w'')))\<rparr>"
  have v: "\<exists>h'. QueryValsetByNonce L E n h = (Ok (?v (if n = 1 then 1 else 3)), h') \<and> h' \<noteq> []" for n h
    by (simp add: QueryValsetByNonce_def QueryAttestationByNonce_def queryAttestation_def unmarshallAttestation_def
        andThen_def valset_of_attestation_def L_def E_def)
  have l: "QueryLatestAttestationNonce E h = (Ok (if h = [] then 1 else 3), App (LatestNonce None (Ok (if h = [] then 1 else 3))) # h)" for h
    by (simp add: QueryLatestAttestationNonce_def E_def)
  obtain h1 where h1: "QueryValsetByNonce L E 1 [App (LatestNonce None (Ok 1))] = (Ok (?v 1), h1)" "h1 \<noteq> []" using v [of 1] by auto
  have "getStartingValset L E ''latest'' [] = (Ok (Some (?v 1)), h1)"
    by (simp add: getStartingValset_def QueryLatestValset_def l handle_def andThen_def h1)
  moreover have "parseStartingNonce E ''latest'' h1 = (Ok 3, App (LatestNonce None (Ok 3)) # h1)"
    using h1(2) by (simp add: parseStartingNonce_def l)
  moreover obtain h3 where "QueryValsetByNonce L E 3 (App (LatestNonce None (Ok 3)) # h1) = (Ok (?v 3), h3)" using v [of 3] by auto
  moreover have "Nonce (?v 1) < Nonce (?v 3)" by simp
  ultimately show ?thesis by blast
qed

end
