(* ===== verification/QueryCmd.thy ===== *)
theory QueryCmd imports Querier Rpc begin

text \<open>
  \<open>cmd/blobstream/query/cmd.go\<close>: the commands that show who has signed an attestation, or how many of
  a range of attestations. What they log or write to a file is their result here (see \<open>QueryFile\<close>); the
  set-up of the queriers is in \<open>Startup\<close>. The monikers come from the staking module, so
  they are a function of the operator address.
\<close>

section \<open>Data\<close>

record signature =
  SigEvmAddress :: string
  SigMoniker :: string
  Signature :: string
  Signed :: bool
  SigValopAddress :: string

record validatorInfo =
  InfoEvmAddress :: string
  InfoMoniker :: string
  InfoValopAddress :: string

record queryOutput =
  Signatures :: "signature list"
  OutNonce :: u64
  MajorityThreshold :: u64
  CurrentThreshold :: u64
  CanRelay :: bool

definition no_info :: validatorInfo where
  "no_info = \<lparr>InfoEvmAddress = [], InfoMoniker = [], InfoValopAddress = []\<rparr>"

section \<open>Arguments\<close>

definition validateRange :: "u64 \<Rightarrow> u64 \<Rightarrow> unit outcome" where
  "validateRange start end' =
     (if start = 0 then Err (Errorf ''start cannot be 0. attestations start at 1'')
      else if end' = 0 then Err (Errorf ''end cannot be 0. attestations start at 1'')
      else if start = end' then Err (Errorf ''start cannot be equal to end'')
      else if start > end' then Err (Errorf ''start cannot be higher than end'')
      else Ok ())"

definition parseNonce :: "env \<Rightarrow> string \<Rightarrow> u64 prog" where
  "parseNonce E nonce = (if nonce = ''latest'' then QueryLatestAttestationNonce E else lift (ParseUint 10 nonce))"

section \<open>The signatures of one attestation\<close>

fun infos_loop :: "env \<Rightarrow> (string \<Rightarrow> string) \<Rightarrow> string list \<Rightarrow> (string \<Rightarrow> validatorInfo option) \<Rightarrow>
    (string \<Rightarrow> validatorInfo option) prog" where
  "infos_loop E moniker [] m = ret m"
| "infos_loop E moniker (val # rest) m =
     andThen (QueryEVMAddress E val) (\<lambda>evmAddr.
     infos_loop E moniker rest
       (if evmAddr \<noteq> []
        then m(evmAddr \<mapsto> \<lparr>InfoEvmAddress = evmAddr, InfoMoniker = moniker val, InfoValopAddress = val\<rparr>)
        else m))"

definition toValidatorsInfo :: "env \<Rightarrow> (string \<Rightarrow> string) \<Rightarrow> string list \<Rightarrow> (string \<Rightarrow> validatorInfo option) prog" where
  "toValidatorsInfo E moniker validatorSet = infos_loop E moniker validatorSet Map.empty"

definition toValsetConfirmsMap :: "ValsetConfirm list \<Rightarrow> string \<Rightarrow> string option" where
  "toValsetConfirmsMap confirms = foldl (\<lambda>m c. m(VcEthAddress c \<mapsto> VcSignature c)) Map.empty confirms"

definition toDataCommitmentConfirmsMap :: "DataCommitmentConfirm list \<Rightarrow> string \<Rightarrow> string option" where
  "toDataCommitmentConfirmsMap confirms = foldl (\<lambda>m c. m(DccEthAddress c \<mapsto> DccSignature c)) Map.empty confirms"

text \<open>A member without an entry in the map of validators has the zero value's moniker and address.\<close>

definition toSignature :: "(string \<Rightarrow> string option) \<Rightarrow> (string \<Rightarrow> validatorInfo option) \<Rightarrow> bridge_validator \<Rightarrow> signature" where
  "toSignature confirmsMap validatorsInfo val =
     (let info = (case validatorsInfo (EvmAddress val) of None \<Rightarrow> no_info | Some i \<Rightarrow> i) in
      \<lparr>SigEvmAddress = EvmAddress val, SigMoniker = InfoMoniker info,
       Signature = (case confirmsMap (EvmAddress val) of None \<Rightarrow> [] | Some sig \<Rightarrow> sig),
       Signed = (confirmsMap (EvmAddress val) \<noteq> None), SigValopAddress = InfoValopAddress info\<rparr>)"

definition toQueryOutput :: "lib \<Rightarrow> (string \<Rightarrow> string option) \<Rightarrow> (string \<Rightarrow> validatorInfo option) \<Rightarrow> u64 \<Rightarrow> valset \<Rightarrow> queryOutput" where
  "toQueryOutput L confirmsMap validatorsInfo nonce lastValset =
     (let currThreshold = foldl (\<lambda>t val. if confirmsMap (EvmAddress val) \<noteq> None then t + Power val else t) 0 (Members lastValset)
      in \<lparr>Signatures = map (toSignature confirmsMap validatorsInfo) (Members lastValset), OutNonce = nonce,
          MajorityThreshold = TwoThirdsThreshold L lastValset, CurrentThreshold = currThreshold,
          CanRelay = (TwoThirdsThreshold L lastValset \<le> currThreshold)\<rparr>)"

text \<open>A nil valset is dereferenced when the confirms are queried.\<close>

definition deref :: "'a option \<Rightarrow> 'a prog" where
  "deref x = (case x of None \<Rightarrow> panic ''invalid memory address or nil pointer dereference'' | Some v \<Rightarrow> ret v)"

definition getSignatures :: "lib \<Rightarrow> env \<Rightarrow> (string \<Rightarrow> string) \<Rightarrow> u64 \<Rightarrow> queryOutput prog" where
  "getSignatures L E moniker nonce =
     andThen (QueryLastValsetBeforeNonce E nonce) (\<lambda>lastValset.
     andThen (QueryStakingValidatorSet E) (\<lambda>validatorSet.
     andThen (toValidatorsInfo E moniker validatorSet) (\<lambda>validatorsInfo.
     andThen (QueryAttestationByNonce L E nonce) (\<lambda>att. case att of
         None \<Rightarrow> throw ErrAttestationNotFound
       | Some (AttValset castedAtt) \<Rightarrow>
           andThen (lift (ValsetSignBytes L castedAtt)) (\<lambda>signBytes.
           andThen (deref lastValset) (\<lambda>vs.
           andThen (QueryValsetConfirms E nonce vs (HashHex L signBytes)) (\<lambda>confirms.
           ret (toQueryOutput L (toValsetConfirmsMap confirms) validatorsInfo nonce vs))))
       | Some (AttDataCommitment castedAtt) \<Rightarrow>
           andThen (QueryCommitment E (BeginBlock castedAtt) (EndBlock castedAtt)) (\<lambda>commitment.
           andThen (lift (DataCommitmentTupleRootSignBytes L (int64 (DcNonce castedAtt)) commitment)) (\<lambda>dataRootHash.
           andThen (deref lastValset) (\<lambda>vs.
           andThen (QueryDataCommitmentConfirms E vs nonce (HashHex L dataRootHash)) (\<lambda>confirms.
           ret (toQueryOutput L (toDataCommitmentConfirmsMap confirms) validatorsInfo nonce vs)))))
       | Some (AttOther _) \<Rightarrow> throw (Wrap ErrUnknownAttestationType (FormatUint 10 (unat nonce)))))))"

section \<open>The commands\<close>

definition SignersNonce_RunE :: "lib \<Rightarrow> env \<Rightarrow> (string \<Rightarrow> string) \<Rightarrow> string \<Rightarrow> queryOutput prog" where
  "SignersNonce_RunE L E moniker arg =
     andThen (parseNonce E arg) (\<lambda>nonce.
     if nonce = 1 then throw (Errorf ''nonce 1 doesn't need to be signed. signatures start from nonce 2'')
     else getSignatures L E moniker nonce)"

text \<open>The loop over the range: \<open>left\<close> nonces from \<open>nonce\<close> on.\<close>

fun rangeOutputs :: "lib \<Rightarrow> env \<Rightarrow> (string \<Rightarrow> string) \<Rightarrow> u64 \<Rightarrow> nat \<Rightarrow> queryOutput list prog" where
  "rangeOutputs L E moniker nonce 0 = ret []"
| "rangeOutputs L E moniker nonce (Suc left) =
     andThen (getSignatures L E moniker nonce) (\<lambda>qOutput.
     andThen (rangeOutputs L E moniker (nonce + 1) left) (\<lambda>qOutputs. ret (qOutput # qOutputs)))"

definition sigInfo :: "signature \<Rightarrow> validatorInfo" where
  "sigInfo sig = \<lparr>InfoEvmAddress = SigEvmAddress sig, InfoMoniker = SigMoniker sig, InfoValopAddress = SigValopAddress sig\<rparr>"

definition countSignature :: "(validatorInfo \<Rightarrow> u64 option) \<Rightarrow> signature \<Rightarrow> (validatorInfo \<Rightarrow> u64 option)" where
  "countSignature m sig =
     (let val = (case m (sigInfo sig) of None \<Rightarrow> 0 | Some n \<Rightarrow> n)
      in m(sigInfo sig \<mapsto> (if Signed sig then val + 1 else val)))"

definition signersMap :: "queryOutput list \<Rightarrow> validatorInfo \<Rightarrow> u64 option" where
  "signersMap qOutputs = foldl (\<lambda>m qOutput. foldl countSignature m (Signatures qOutput)) Map.empty qOutputs"

definition SignersRange_RunE :: "lib \<Rightarrow> env \<Rightarrow> (string \<Rightarrow> string) \<Rightarrow> string \<Rightarrow> string \<Rightarrow> (validatorInfo \<Rightarrow> u64 option) prog" where
  "SignersRange_RunE L E moniker arg0 arg1 =
     (if arg0 = ''latest'' then throw (Errorf ''start nonce can't be the `latest` nonce'')
      else
        andThen (parseNonce E arg0) (\<lambda>startNonce.
        andThen (parseNonce E arg1) (\<lambda>endNonce.
        andThen (lift (validateRange startNonce endNonce)) (\<lambda>_.
        andThen (rangeOutputs L E moniker startNonce (unat (endNonce - startNonce))) (\<lambda>qOutputs.
        ret (signersMap qOutputs))))))"

text \<open>The result is the signature that is logged, if one was found.\<close>

definition getSignatureAndPrintIt :: "lib \<Rightarrow> env \<Rightarrow> string \<Rightarrow> u64 \<Rightarrow> string option prog" where
  "getSignatureAndPrintIt L E evmAddress nonce =
     andThen (QueryAttestationByNonce L E nonce) (\<lambda>att. case att of
         None \<Rightarrow> throw ErrAttestationNotFound
       | Some (AttValset castedAtt) \<Rightarrow>
           andThen (lift (ValsetSignBytes L castedAtt)) (\<lambda>signBytes.
           andThen (QueryValsetConfirmByEVMAddress E nonce evmAddress (HashHex L signBytes)) (\<lambda>confirm.
           ret (map_option VcSignature confirm)))
       | Some (AttDataCommitment castedAtt) \<Rightarrow>
           andThen (QueryCommitment E (BeginBlock castedAtt) (EndBlock castedAtt)) (\<lambda>commitment.
           andThen (lift (DataCommitmentTupleRootSignBytes L (int64 (DcNonce castedAtt)) commitment)) (\<lambda>dataRootHash.
           andThen (QueryDataCommitmentConfirmByEVMAddress E nonce evmAddress (HashHex L dataRootHash)) (\<lambda>confirm.
           ret (map_option DccSignature confirm))))
       | Some (AttOther _) \<Rightarrow> throw (Wrap ErrUnknownAttestationType (FormatUint 10 (unat nonce))))"

definition Signature_RunE :: "lib \<Rightarrow> env \<Rightarrow> string \<Rightarrow> string \<Rightarrow> string option prog" where
  "Signature_RunE L E arg0 arg1 =
     andThen (parseNonce E arg0) (\<lambda>nonce.
     if nonce = 1 then throw (Errorf ''nonce 1 doesn't need to be signed. signatures start from nonce 2'')
     else if \<not> IsHexAddress L arg1 then throw (Errorf ''invalid EVM address provided'')
     else getSignatureAndPrintIt L E arg1 nonce)"

section \<open>Counting power\<close>

lemma foldl_signed: "foldl (\<lambda>t val. if P val then t + Power val else t) (a :: u64) ms = a + sum_list (map Power (filter P ms))"
  by (induction ms arbitrary: a) (simp_all add: add.assoc)

lemma confirms_map_dom:
  "foldl (\<lambda>m c. m(addr c \<mapsto> sig c)) f cs a \<noteq> None \<longleftrightarrow> f a \<noteq> None \<or> a \<in> addr ` set cs"
  by (induction cs arbitrary: f) auto

lemma vals_foldl: "foldl (\<lambda>f v. f(EvmAddress v \<mapsto> v)) f ms = f ++ map_of (rev (map (\<lambda>v. (EvmAddress v, v)) ms))"
  by (induction ms arbitrary: f) (simp_all add: map_add_def fun_eq_iff split: option.splits)

lemma vals_distinct:
  assumes "distinct (map EvmAddress (Members vs))"
  shows "vals vs a = Some v \<longleftrightarrow> v \<in> set (Members vs) \<and> EvmAddress v = a"
proof -
  have d: "distinct (map fst (map (\<lambda>v. (EvmAddress v, v)) (Members vs)))" using assms by (simp add: comp_def)
  have "vals vs = map_of (map (\<lambda>v. (EvmAddress v, v)) (Members vs))"
    unfolding vals_def vals_foldl using map_of_rev_distinct [OF d] by simp
  moreover have "map_of (map (\<lambda>v. (EvmAddress v, v)) (Members vs)) a = Some v \<longleftrightarrow>
      (a, v) \<in> set (map (\<lambda>v. (EvmAddress v, v)) (Members vs))"
    by (rule map_of_eq_Some_iff [OF d])
  ultimately show ?thesis by auto
qed

lemma signed_power_sum: "signed_power f a addrs = a + sum_list (map (\<lambda>x. case f x of None \<Rightarrow> 0 | Some v \<Rightarrow> Power v) addrs)"
  by (induction addrs arbitrary: a) (auto simp: add.assoc split: option.splits)

lemma signed_power_members:
  assumes "distinct (map EvmAddress (Members vs))" and "distinct addrs"
  shows "signed_power (vals vs) 0 addrs = sum_list (map Power (filter (\<lambda>v. EvmAddress v \<in> set addrs) (Members vs)))"
proof -
  let ?p = "\<lambda>x. case vals vs x of None \<Rightarrow> 0 | Some v \<Rightarrow> Power v" and ?M = "filter (\<lambda>v. EvmAddress v \<in> set addrs) (Members vs)"
  have inj: "inj_on EvmAddress (set (Members vs))" "distinct (Members vs)" using assms(1) by (simp_all add: distinct_map)
  have "signed_power (vals vs) 0 addrs = sum ?p (set addrs)"
    using assms(2) by (simp add: signed_power_sum sum_list_distinct_conv_sum_set)
  also have "\<dots> = sum ?p (EvmAddress ` set ?M)"
  proof (rule sum.mono_neutral_right)
    show "\<forall>x \<in> set addrs - EvmAddress ` set ?M. ?p x = 0"
    proof
      fix x assume x: "x \<in> set addrs - EvmAddress ` set ?M"
      show "?p x = 0"
      proof (cases "vals vs x")
        case (Some v)
        then show ?thesis using vals_distinct [OF assms(1), of x v] x by auto
      qed simp
    qed
  qed auto
  also have "\<dots> = sum (?p \<circ> EvmAddress) (set ?M)"
    by (rule sum.reindex) (rule inj_on_subset [OF inj(1)], auto)
  also have "\<dots> = sum Power (set ?M)"
  proof (rule sum.cong)
    fix v assume "v \<in> set ?M"
    then have "vals vs (EvmAddress v) = Some v" using vals_distinct [OF assms(1)] by simp
    then show "(?p \<circ> EvmAddress) v = Power v" by simp
  qed simp
  also have "\<dots> = sum_list (map Power ?M)" using inj(2) by (simp add: sum_list_distinct_conv_sum_set)
  finally show ?thesis .
qed

lemma toQueryOutput_power:
  "CurrentThreshold (toQueryOutput L (foldl (\<lambda>m c. m(addr c \<mapsto> sig c)) Map.empty cs) infos nonce vs) =
     sum_list (map Power (filter (\<lambda>v. EvmAddress v \<in> addr ` set cs) (Members vs)))"
  using confirms_map_dom [of addr sig Map.empty cs] by (simp add: toQueryOutput_def Let_def foldl_signed)

section \<open>Counting signatures\<close>

definition signedBy :: "validatorInfo \<Rightarrow> signature list \<Rightarrow> nat" where
  "signedBy k sigs = length (filter (\<lambda>s. sigInfo s = k \<and> Signed s) sigs)"

lemma foldl_countSignature:
  "foldl countSignature m sigs k =
     (if m k = None \<and> k \<notin> sigInfo ` set sigs then None
      else Some ((case m k of None \<Rightarrow> 0 | Some n \<Rightarrow> n) + of_nat (signedBy k sigs)))"
proof (induction sigs arbitrary: m)
  case Nil
  then show ?case by (auto simp: signedBy_def split: option.split)
next
  case (Cons s sigs)
  show ?case unfolding foldl.simps Cons.IH
    by (auto simp: countSignature_def signedBy_def Let_def split: option.splits)
qed

lemma foldl_concat: "foldl (\<lambda>m o'. foldl f m (g o')) m os = foldl f m (concat (map g os))"
  by (induction os arbitrary: m) simp_all

lemma signersMap_count:
  "signersMap outs k =
     (if k \<in> sigInfo ` set (concat (map Signatures outs))
      then Some (of_nat (signedBy k (concat (map Signatures outs)))) else None)"
  unfolding signersMap_def foldl_concat foldl_countSignature by simp

text \<open>The outputs come from consecutive queries, each of which goes on where the one before it ended.\<close>

lemma rangeOutputs_Ok:
  "rangeOutputs L E moniker nonce k h = (Ok outs, h') \<Longrightarrow> length outs = k \<and>
   (\<exists>hs. hs ! 0 = h \<and> hs ! k = h' \<and>
     (\<forall>i < k. getSignatures L E moniker (nonce + of_nat i) (hs ! i) = (Ok (outs ! i), hs ! Suc i)))"
proof (induction k arbitrary: nonce h outs)
  case 0
  then show ?case by (auto intro: exI [of _ "[h]"])
next
  case (Suc k)
  then obtain o' os h1 where o: "getSignatures L E moniker nonce h = (Ok o', h1)"
    "rangeOutputs L E moniker (nonce + 1) k h1 = (Ok os, h')" "outs = o' # os" by (auto simp: andThen_eq_Ok)
  obtain hs where hs: "length os = k" "hs ! 0 = h1" "hs ! k = h'"
    "\<forall>i < k. getSignatures L E moniker (nonce + 1 + of_nat i) (hs ! i) = (Ok (os ! i), hs ! Suc i)"
    using Suc.IH [OF o(2)] by blast
  have "getSignatures L E moniker (nonce + of_nat i) ((h # hs) ! i) = (Ok (outs ! i), (h # hs) ! Suc i)" if "i < Suc k" for i
    using hs o that by (cases i) (auto simp: algebra_simps)
  then show ?case using hs o(3) by (intro conjI exI [of _ "h # hs"]) auto
qed

text \<open>The nonces of a range, whose end is not in it.\<close>

lemma range_nonces:
  assumes "start < (end' :: u64)" and "length ns = unat (end' - start)" and "\<And>i. i < length ns \<Longrightarrow> ns ! i = start + of_nat i"
  shows "map unat ns = [unat start ..< unat end']"
proof (rule nth_equalityI)
  have len: "unat (end' - start) = unat end' - unat start"
    using assms(1) by (simp add: unat_sub word_less_nat_alt word_le_nat_alt)
  show "length (map unat ns) = length [unat start ..< unat end']" using assms(2) len by simp
  fix i assume "i < length (map unat ns)"
  then have i: "i < length ns" by simp
  then have "unat start + i < unat end'" using assms(2) len by simp
  then have less: "unat start + i < 18446744073709551616" by (rule order_less_trans [OF _ unat_u64_less])
  have "unat (start + of_nat i) = (unat start + i) mod 18446744073709551616"
    by (simp add: unat_word_ariths unat_of_nat mod_add_right_eq)
  then have "unat (start + of_nat i) = unat start + i" using less by simp
  then show "map unat ns ! i = [unat start ..< unat end'] ! i" using assms(3) [OF i] i \<open>unat start + i < unat end'\<close> by simp
qed

lemma validateRange_Ok: "validateRange start end' = Ok () \<longleftrightarrow> 0 < start \<and> start < end'"
  by (auto simp: validateRange_def not_less word_gt_0)

lemma getSignatures_nonce: "getSignatures L E moniker nonce h = (Ok out, h') \<Longrightarrow> OutNonce out = nonce"
  unfolding getSignatures_def
  by (elim andThen_OkE) (auto simp: andThen_eq_Ok toQueryOutput_def Let_def split: option.splits attestation.splits)

section \<open>Properties\<close>

text \<open>
  C20: \<open>can_relay\<close> in the output of the query agrees with the poller of the relayer: for members and
  confirms with different addresses, a round of the poller that finds these confirms returns them
  exactly when the command, shown the same confirms, says that the attestation can be relayed.
\<close>

theorem can_relay_agrees_with_the_relayer:
  assumes "distinct (map EvmAddress (Members vs))" and "distinct (map VcEthAddress confirms)"
    and "query h = (Ok confirms, h')"
  shows "queryFunc L vs VcEthAddress query h =
    (Ok (if CanRelay (toQueryOutput L (toValsetConfirmsMap confirms) infos nonce vs) then confirms else []), h')"
proof -
  let ?o = "toQueryOutput L (toValsetConfirmsMap confirms) infos nonce vs"
  have "CurrentThreshold ?o = signed_power (vals vs) 0 (map VcEthAddress confirms)"
    unfolding toValsetConfirmsMap_def toQueryOutput_power signed_power_members [OF assms(1,2)] by simp
  moreover have "CanRelay ?o \<longleftrightarrow> TwoThirdsThreshold L vs \<le> CurrentThreshold ?o" by (simp add: toQueryOutput_def Let_def)
  ultimately show ?thesis using assms(3) by (simp add: queryFunc_def andThen_Ok)
qed

theorem can_relay_agrees_with_the_relayer_witness:
  "CanRelay (toQueryOutput ref_lib (toValsetConfirmsMap [one_vc]) Map.empty 5 one_member)"
proof -
  have "distinct (map EvmAddress (Members one_member))" "distinct (map VcEthAddress [one_vc])"
    by (simp_all add: one_member_def)
  from can_relay_agrees_with_the_relayer [OF this, where query = "ret [one_vc]" and L = ref_lib and h = "[]" and infos = Map.empty and nonce = 5]
  have "queryFunc ref_lib one_member VcEthAddress (ret [one_vc]) [] =
      (Ok (if CanRelay (toQueryOutput ref_lib (toValsetConfirmsMap [one_vc]) Map.empty 5 one_member) then [one_vc] else []), [])"
    by simp
  moreover have "queryFunc ref_lib one_member VcEthAddress (ret [one_vc]) [] = (Ok [one_vc], [])"
    using one_power by (simp add: queryFunc_def one_vc_def)
  ultimately show ?thesis by (cases "CanRelay (toQueryOutput ref_lib (toValsetConfirmsMap [one_vc]) Map.empty 5 one_member)") simp_all
qed

text \<open>
  C30: When the range command succeeds, the first argument was a number, not zero, and the second a larger
  number or \<open>latest\<close>, for which the application gave a larger one; the outputs are those of the nonces
  from the first to the one before the last, in order, each queried once, one after the other; and
  every validator that is a member of the valset of one of these nonces is counted with the number
  of nonces it has signed, and nobody else is in the map.
\<close>

theorem SignersRange_counts:
  assumes "SignersRange_RunE L E moniker arg0 arg1 h = (Ok m, h')"
  shows "\<exists>start end' outs hs. arg0 \<noteq> ''latest'' \<and> ParseUint 10 arg0 = Ok start \<and>
    (if arg1 = ''latest'' then hs ! 0 = App (LatestNonce None (Ok end')) # h \<and> app_latest_nonce E None h = Ok end'
     else hs ! 0 = h \<and> ParseUint 10 arg1 = Ok end') \<and>
    0 < start \<and> start < end' \<and> map (unat \<circ> OutNonce) outs = [unat start ..< unat end'] \<and> hs ! length outs = h' \<and>
    (\<forall>i < length outs. getSignatures L E moniker (OutNonce (outs ! i)) (hs ! i) = (Ok (outs ! i), hs ! Suc i)) \<and>
    (\<forall>k. m k = (if \<exists>out \<in> set outs. k \<in> sigInfo ` set (Signatures out)
       then Some (of_nat (sum_list (map (\<lambda>out. signedBy k (Signatures out)) outs))) else None))"
proof -
  obtain start end' outs h1 where r: "arg0 \<noteq> ''latest''" "ParseUint 10 arg0 = Ok start" "parseNonce E arg1 h = (Ok end', h1)"
    "validateRange start end' = Ok ()"
    "rangeOutputs L E moniker start (unat (end' - start)) h1 = (Ok outs, h')" "m = signersMap outs"
    using assms by (auto simp: SignersRange_RunE_def parseNonce_def [of E arg0] andThen_eq_Ok split: if_splits)
  have e: "if arg1 = ''latest'' then h1 = App (LatestNonce None (Ok end')) # h \<and> app_latest_nonce E None h = Ok end'
     else h1 = h \<and> ParseUint 10 arg1 = Ok end'"
    using r(3) by (auto simp: parseNonce_def QueryLatestAttestationNonce_def)
  have sum: "signedBy k (concat (map Signatures outs)) = sum_list (map (\<lambda>out. signedBy k (Signatures out)) outs)" for k
    by (induction outs) (simp_all add: signedBy_def)
  have m: "m k = (if \<exists>out \<in> set outs. k \<in> sigInfo ` set (Signatures out)
       then Some (of_nat (sum_list (map (\<lambda>out. signedBy k (Signatures out)) outs))) else None)" for k
    unfolding r(6) signersMap_count sum by auto
  have v: "0 < start" "start < end'" using r(4) by (simp_all add: validateRange_Ok)
  obtain hs where hs: "length outs = unat (end' - start)" "hs ! 0 = h1" "hs ! length outs = h'"
    "\<forall>i < length outs. getSignatures L E moniker (start + of_nat i) (hs ! i) = (Ok (outs ! i), hs ! Suc i)"
    using rangeOutputs_Ok [OF r(5)] by auto
  then have n: "OutNonce (outs ! i) = start + of_nat i" if "i < length outs" for i
    using that getSignatures_nonce by blast
  have "map unat (map OutNonce outs) = [unat start ..< unat end']"
    by (rule range_nonces [OF v(2)]) (simp_all add: hs(1) n)
  then have "map (unat \<circ> OutNonce) outs = [unat start ..< unat end']" by simp
  then show ?thesis using r(1,2) e v hs(2-4) n m
    by (intro exI [of _ start] exI [of _ end'] exI [of _ outs] exI [of _ hs]) auto
qed

text \<open>A chain whose attestations are valsets, with one member that has signed none.\<close>

definition cmd_lib :: lib where
  "cmd_lib = ref_lib\<lparr>UnpackAny := (\<lambda>_. Ok (Some (AttValset one_member))), ValsetSignBytes := (\<lambda>_. Ok [])\<rparr>"

definition cmd_env :: env where
  "cmd_env = ref_env\<lparr>app_valset_before := (\<lambda>_ _ _. Ok (Some one_member)), app_validators := (\<lambda>_. Ok []),
     app_attestation := (\<lambda>_ _ _. Ok (Some []))\<rparr>"

lemma cmd_env_simps:
  "app_valset_before cmd_env hg n h = Ok (Some one_member)" "app_validators cmd_env h = Ok []"
  "app_attestation cmd_env hg n h = Ok (Some [])" "dht_get cmd_env k h = Err RoutingNotFound"
  "UnpackAny cmd_lib a = Ok (Some (AttValset one_member))" "ValsetSignBytes cmd_lib vs = Ok []"
  by (simp_all add: cmd_env_def cmd_lib_def ref_env_def)

lemma cmd_getSignatures: "\<exists>out h'. getSignatures cmd_lib cmd_env moniker n h = (Ok out, h')"
  by (simp add: getSignatures_def QueryLastValsetBeforeNonce_def andThen_def cmd_env_simps QueryStakingValidatorSet_def
      toValidatorsInfo_def QueryAttestationByNonce_def queryAttestation_def unmarshallAttestation_def deref_def
      QueryValsetConfirms_def one_member_def handle_def GetValsetConfirm_run)

lemma cmd_range: "\<exists>m h'. SignersRange_RunE cmd_lib cmd_env moniker ''2'' ''3'' h = (Ok m, h')"
proof -
  have p: "ParseUint 10 ''2'' = Ok 2" "ParseUint 10 ''3'' = Ok 3"
    by (simp_all add: ParseUint_def digit_val_def)
  obtain out h1 where g: "getSignatures cmd_lib cmd_env moniker 2 h = (Ok out, h1)" using cmd_getSignatures by blast
  have "rangeOutputs cmd_lib cmd_env moniker 2 (Suc 0) h = (Ok [out], h1)" by (simp add: andThen_Ok g)
  moreover have "unat (3 - 2 :: u64) = Suc 0" by simp
  ultimately show ?thesis
    by (simp add: SignersRange_RunE_def parseNonce_def p validateRange_def andThen_Ok andThen_def)
qed

theorem SignersRange_counts_witness:
  "\<exists>m h' (outs :: queryOutput list). SignersRange_RunE cmd_lib cmd_env (\<lambda>_. []) ''2'' ''3'' [] = (Ok m, h') \<and>
     map (unat \<circ> OutNonce) outs = [2] \<and> dom m = \<Union> ((\<lambda>out. sigInfo ` set (Signatures out)) ` set outs)"
proof -
  have p: "ParseUint 10 ''2'' = Ok 2" "ParseUint 10 ''3'' = Ok 3" by (simp_all add: ParseUint_def digit_val_def)
  obtain m h' where run: "SignersRange_RunE cmd_lib cmd_env (\<lambda>_. []) ''2'' ''3'' [] = (Ok m, h')" using cmd_range by blast
  from SignersRange_counts [OF this] show ?thesis
  proof (elim exE conjE)
    fix start end' and outs :: "queryOutput list" and hs :: "history list"
    assume "ParseUint 10 ''2'' = Ok start" and n: "map (unat \<circ> OutNonce) outs = [unat start ..< unat end']"
      and e: "if ''3'' = ''latest'' then hs ! 0 = App (LatestNonce None (Ok end')) # [] \<and> app_latest_nonce cmd_env None [] = Ok end'
        else hs ! 0 = [] \<and> ParseUint 10 ''3'' = Ok end'"
      and m: "\<forall>k. m k = (if \<exists>out \<in> set outs. k \<in> sigInfo ` set (Signatures out)
        then Some (of_nat (sum_list (map (\<lambda>out. signedBy k (Signatures out)) outs))) else None)"
    have "dom m = \<Union> ((\<lambda>out. sigInfo ` set (Signatures out)) ` set outs)" using m by (auto simp: dom_def split: if_splits)
    moreover have "start = 2" "end' = 3" using p e \<open>ParseUint 10 ''2'' = Ok start\<close> by auto
    then have "map (unat \<circ> OutNonce) outs = [2]" using n by (simp add: upt_rec)
    ultimately show ?thesis using run by (intro exI [of _ m] exI [of _ h'] exI [of _ outs] conjI)
  qed
qed

end
