(* ===== verification/Flags.thy ===== *)
theory Flags imports Evm begin

text \<open>
  \<open>cmd/blobstream/base/config.go\<close>: the flags of the commands. \<open>pflag\<close> is a library: a command's flags
  are first a list of declarations, where declaring a name twice panics, and then, after the command
  line was parsed, a record of functions that say whether a flag was set and what its value is.
\<close>

section \<open>Flags\<close>

datatype flag_value = FString string | FBool bool | FUint64 u64

type_synonym flag_decls = "(string \<times> flag_value) list"

record flag_set =
  Changed :: "string \<Rightarrow> bool"
  GetString :: "string \<Rightarrow> string outcome"
  GetBool :: "string \<Rightarrow> bool outcome"
  GetUint64 :: "string \<Rightarrow> u64 outcome"

definition addFlag :: "string \<Rightarrow> flag_value \<Rightarrow> flag_decls \<Rightarrow> flag_decls outcome" where
  "addFlag name value ds =
     (if name \<in> set (map fst ds) then Panic ''flag redefined'' else Ok (ds @ [(name, value)]))"

text \<open>Every getter reads whether the flag was changed and its value, and returns both unless reading fails.\<close>

definition getFlag :: "flag_set \<Rightarrow> (flag_set \<Rightarrow> string \<Rightarrow> 'a outcome) \<Rightarrow> string \<Rightarrow> ('a \<times> bool) outcome" where
  "getFlag F get name = obind (get F name) (\<lambda>val. Ok (val, Changed F name))"

section \<open>Names\<close>

text \<open>The name of the home flag is a constant of tendermint.\<close>

record command =
  FlagHome :: string

definition FlagEVMPassphrase :: string where
  "FlagEVMPassphrase = ''evm.passphrase''"

definition FlagBootstrappers :: string where
  "FlagBootstrappers = ''p2p.bootstrappers''"

definition FlagP2PListenAddress :: string where
  "FlagP2PListenAddress = ''p2p.listen-addr''"

definition FlagP2PNickname :: string where
  "FlagP2PNickname = ''p2p.nickname''"

definition FlagGRPCInsecure :: string where
  "FlagGRPCInsecure = ''grpc.insecure''"

definition FlagEVMAccAddress :: string where
  "FlagEVMAccAddress = ''evm.account''"

definition FlagEVMChainID :: string where
  "FlagEVMChainID = ''evm.chain-id''"

definition FlagEVMRPC :: string where
  "FlagEVMRPC = ''evm.rpc''"

definition FlagEVMGasLimit :: string where
  "FlagEVMGasLimit = ''evm.gas-limit''"

definition FlagEVMContractAddress :: string where
  "FlagEVMContractAddress = ''evm.contract-address''"

definition FlagEVMRetryTimeout :: string where
  "FlagEVMRetryTimeout = ''evm.retry-timeout''"

definition FlagCoreGRPC :: string where
  "FlagCoreGRPC = ''core.grpc''"

definition FlagCoreRPC :: string where
  "FlagCoreRPC = ''core.rpc''"

definition FlagStartingNonce :: string where
  "FlagStartingNonce = ''starting-nonce''"

definition FlagLogLevel :: string where
  "FlagLogLevel = ''log.level''"

definition FlagLogFormat :: string where
  "FlagLogFormat = ''log.format''"

definition FlagBackupRelayer :: string where
  "FlagBackupRelayer = ''relayer.backup''"

definition FlagBackupRelayerWaitTime :: string where
  "FlagBackupRelayerWaitTime = ''relayer.wait-time''"

definition FlagMetrics :: string where
  "FlagMetrics = ''metrics''"

definition FlagMetricsEndpoint :: string where
  "FlagMetricsEndpoint = ''metrics.endpoint''"

definition FlagMetricsTLS :: string where
  "FlagMetricsTLS = ''metrics.tls''"

definition FlagMetricsP2PEndpoint :: string where
  "FlagMetricsP2PEndpoint = ''metrics.p2p''"

section \<open>Declarations\<close>

definition AddEVMPassphraseFlag :: "flag_decls \<Rightarrow> flag_decls outcome" where
  "AddEVMPassphraseFlag = addFlag FlagEVMPassphrase (FString '''')"

definition AddLogLevelFlag :: "flag_decls \<Rightarrow> flag_decls outcome" where
  "AddLogLevelFlag = addFlag FlagLogLevel (FString ''info'')"

definition AddLogFormatFlag :: "flag_decls \<Rightarrow> flag_decls outcome" where
  "AddLogFormatFlag = addFlag FlagLogFormat (FString ''plain'')"

definition AddStartingNonceFlag :: "flag_decls \<Rightarrow> flag_decls outcome" where
  "AddStartingNonceFlag = addFlag FlagStartingNonce (FString ''latest'')"

definition AddP2PNicknameFlag :: "flag_decls \<Rightarrow> flag_decls outcome" where
  "AddP2PNicknameFlag = addFlag FlagP2PNickname (FString '''')"

definition AddP2PListenAddressFlag :: "flag_decls \<Rightarrow> flag_decls outcome" where
  "AddP2PListenAddressFlag = addFlag FlagP2PListenAddress (FString ''/ip4/0.0.0.0/tcp/30000'')"

definition AddBootstrappersFlag :: "flag_decls \<Rightarrow> flag_decls outcome" where
  "AddBootstrappersFlag = addFlag FlagBootstrappers (FString '''')"

definition AddGRPCInsecureFlag :: "flag_decls \<Rightarrow> flag_decls outcome" where
  "AddGRPCInsecureFlag = addFlag FlagGRPCInsecure (FBool False)"

definition AddCoreGRPCFlag :: "flag_decls \<Rightarrow> flag_decls outcome" where
  "AddCoreGRPCFlag = addFlag FlagCoreGRPC (FString ''localhost:9090'')"

definition AddEVMChainIDFlag :: "flag_decls \<Rightarrow> flag_decls outcome" where
  "AddEVMChainIDFlag = addFlag FlagEVMChainID (FUint64 5)"

definition AddCoreRPCFlag :: "flag_decls \<Rightarrow> flag_decls outcome" where
  "AddCoreRPCFlag = addFlag FlagCoreRPC (FString ''tcp://localhost:26657'')"

definition AddEVMRPCFlag :: "flag_decls \<Rightarrow> flag_decls outcome" where
  "AddEVMRPCFlag = addFlag FlagEVMRPC (FString ''http://localhost:8545'')"

definition AddEVMContractAddressFlag :: "flag_decls \<Rightarrow> flag_decls outcome" where
  "AddEVMContractAddressFlag = addFlag FlagEVMContractAddress (FString '''')"

definition AddEVMGasLimitFlag :: "flag_decls \<Rightarrow> flag_decls outcome" where
  "AddEVMGasLimitFlag = addFlag FlagEVMGasLimit (FUint64 DefaultEVMGasLimit)"

definition AddBackupRelayerFlag :: "flag_decls \<Rightarrow> flag_decls outcome" where
  "AddBackupRelayerFlag = addFlag FlagBackupRelayer (FBool False)"

definition AddBackupRelayerWaitTimeFlag :: "flag_decls \<Rightarrow> flag_decls outcome" where
  "AddBackupRelayerWaitTimeFlag = addFlag FlagBackupRelayerWaitTime (FUint64 15)"

definition AddEVMAccAddressFlag :: "flag_decls \<Rightarrow> flag_decls outcome" where
  "AddEVMAccAddressFlag = addFlag FlagEVMAccAddress (FString '''')"

definition AddEVMRetryTimeoutFlag :: "flag_decls \<Rightarrow> flag_decls outcome" where
  "AddEVMRetryTimeoutFlag = addFlag FlagEVMRetryTimeout (FUint64 15)"

definition AddMetricsFlag :: "flag_decls \<Rightarrow> flag_decls outcome" where
  "AddMetricsFlag = addFlag FlagMetrics (FBool False)"

definition AddMetricsEndpointFlag :: "flag_decls \<Rightarrow> flag_decls outcome" where
  "AddMetricsEndpointFlag = addFlag FlagMetricsEndpoint (FString ''localhost:4318'')"

definition AddMetricsTLSFlag :: "flag_decls \<Rightarrow> flag_decls outcome" where
  "AddMetricsTLSFlag = addFlag FlagMetricsTLS (FBool False)"

definition AddP2PMetricsEndpoint :: "flag_decls \<Rightarrow> flag_decls outcome" where
  "AddP2PMetricsEndpoint = addFlag FlagMetricsP2PEndpoint (FString ''localhost:30001'')"

definition AddHomeFlag :: "command \<Rightarrow> string \<Rightarrow> flag_decls \<Rightarrow> flag_decls outcome" where
  "AddHomeFlag C defaultHomeDir = addFlag (FlagHome C) (FString defaultHomeDir)"

section \<open>Values\<close>

definition GetEVMPassphraseFlag :: "flag_set \<Rightarrow> (string \<times> bool) outcome" where
  "GetEVMPassphraseFlag F = getFlag F GetString FlagEVMPassphrase"

definition GetLogFormatFlag :: "flag_set \<Rightarrow> (string \<times> bool) outcome" where
  "GetLogFormatFlag F = getFlag F GetString FlagLogFormat"

definition GetLogLevelFlag :: "flag_set \<Rightarrow> (string \<times> bool) outcome" where
  "GetLogLevelFlag F = getFlag F GetString FlagLogLevel"

definition GetStartingNonceFlag :: "flag_set \<Rightarrow> (string \<times> bool) outcome" where
  "GetStartingNonceFlag F = getFlag F GetString FlagStartingNonce"

definition GetP2PNicknameFlag :: "flag_set \<Rightarrow> (string \<times> bool) outcome" where
  "GetP2PNicknameFlag F = getFlag F GetString FlagP2PNickname"

definition GetP2PListenAddressFlag :: "flag_set \<Rightarrow> (string \<times> bool) outcome" where
  "GetP2PListenAddressFlag F = getFlag F GetString FlagP2PListenAddress"

definition GetBootstrappersFlag :: "flag_set \<Rightarrow> (string \<times> bool) outcome" where
  "GetBootstrappersFlag F = getFlag F GetString FlagBootstrappers"

definition GetGRPCInsecureFlag :: "flag_set \<Rightarrow> (bool \<times> bool) outcome" where
  "GetGRPCInsecureFlag F = getFlag F GetBool FlagGRPCInsecure"

definition GetCoreGRPCFlag :: "flag_set \<Rightarrow> (string \<times> bool) outcome" where
  "GetCoreGRPCFlag F = getFlag F GetString FlagCoreGRPC"

definition GetEVMChainIDFlag :: "flag_set \<Rightarrow> (u64 \<times> bool) outcome" where
  "GetEVMChainIDFlag F = getFlag F GetUint64 FlagEVMChainID"

definition GetCoreRPCFlag :: "flag_set \<Rightarrow> (string \<times> bool) outcome" where
  "GetCoreRPCFlag F = getFlag F GetString FlagCoreRPC"

definition GetEVMRPCFlag :: "flag_set \<Rightarrow> (string \<times> bool) outcome" where
  "GetEVMRPCFlag F = getFlag F GetString FlagEVMRPC"

definition GetEVMContractAddressFlag :: "flag_set \<Rightarrow> (string \<times> bool) outcome" where
  "GetEVMContractAddressFlag F = getFlag F GetString FlagEVMContractAddress"

definition GetEVMGasLimitFlag :: "flag_set \<Rightarrow> (u64 \<times> bool) outcome" where
  "GetEVMGasLimitFlag F = getFlag F GetUint64 FlagEVMGasLimit"

definition GetBackupRelayerFlag :: "flag_set \<Rightarrow> (bool \<times> bool) outcome" where
  "GetBackupRelayerFlag F = getFlag F GetBool FlagBackupRelayer"

definition GetBackupRelayerWaitTimeFlag :: "flag_set \<Rightarrow> (u64 \<times> bool) outcome" where
  "GetBackupRelayerWaitTimeFlag F = getFlag F GetUint64 FlagBackupRelayerWaitTime"

definition GetHomeFlag :: "command \<Rightarrow> flag_set \<Rightarrow> (string \<times> bool) outcome" where
  "GetHomeFlag C F = getFlag F GetString (FlagHome C)"

definition GetEVMAccAddressFlag :: "flag_set \<Rightarrow> (string \<times> bool) outcome" where
  "GetEVMAccAddressFlag F = getFlag F GetString FlagEVMAccAddress"

definition GetEVMRetryTimeoutFlag :: "flag_set \<Rightarrow> (u64 \<times> bool) outcome" where
  "GetEVMRetryTimeoutFlag F = getFlag F GetUint64 FlagEVMRetryTimeout"

definition GetMetricsFlag :: "flag_set \<Rightarrow> (bool \<times> bool) outcome" where
  "GetMetricsFlag F = getFlag F GetBool FlagMetrics"

definition GetMetricsEndpointFlag :: "flag_set \<Rightarrow> (string \<times> bool) outcome" where
  "GetMetricsEndpointFlag F = getFlag F GetString FlagMetricsEndpoint"

definition GetMetricsTLSFlag :: "flag_set \<Rightarrow> (bool \<times> bool) outcome" where
  "GetMetricsTLSFlag F = getFlag F GetBool FlagMetricsTLS"

definition GetP2PMetricsEndpointFlag :: "flag_set \<Rightarrow> (string \<times> bool) outcome" where
  "GetP2PMetricsEndpointFlag F = getFlag F GetString FlagMetricsP2PEndpoint"

section \<open>Homes and addresses\<close>

record os_env =
  Getenv :: "string \<Rightarrow> string"
  UserHomeDir :: "string outcome"

definition upper_char :: "char \<Rightarrow> char" where
  "upper_char c = (let n = of_char c :: nat in if 97 \<le> n \<and> n \<le> 122 then char_of (n - 32) else c)"

definition ToUpper :: "string \<Rightarrow> string" where
  "ToUpper s = map upper_char s"

definition DefaultServicePath :: "os_env \<Rightarrow> string \<Rightarrow> string outcome" where
  "DefaultServicePath Os serviceName =
     (let home = Getenv Os (ToUpper serviceName @ ''_HOME'') in
      obind (if home = [] then mapErr (\<lambda>e. Wrap e ''error getting user home directory'') (UserHomeDir Os) else Ok home)
        (\<lambda>home. Ok (home @ ''/.'' @ ToLower serviceName)))"

definition GetHomeDirectory :: "command \<Rightarrow> os_env \<Rightarrow> flag_set \<Rightarrow> string \<Rightarrow> string outcome" where
  "GetHomeDirectory C Os F service =
     obind (GetHomeFlag C F) (\<lambda>(homeDir, changed).
     if changed \<and> homeDir \<noteq> [] then Ok homeDir else DefaultServicePath Os service)"

definition ValidateEVMAddress :: "(string \<Rightarrow> bool) \<Rightarrow> string \<Rightarrow> unit outcome" where
  "ValidateEVMAddress isHexAddress addr =
     (if addr = [] then Err (Errorf ''the EVM address cannot be empty'')
      else if \<not> isHexAddress addr then Err (Errorf ''valid EVM address is required'')
      else Ok ())"

section \<open>Adding and reading flags\<close>

text \<open>Declaring flags, or reading them into a configuration, one after the other.\<close>

fun in_turn :: "('c \<Rightarrow> 'c outcome) list \<Rightarrow> 'c \<Rightarrow> 'c outcome" where
  "in_turn [] c = Ok c"
| "in_turn (f # fs) c = obind (f c) (in_turn fs)"

text \<open>A flag that is taken over only if it was set, and one that is always taken over.\<close>

definition setting :: "('a \<times> bool) outcome \<Rightarrow> ('a \<Rightarrow> 'c \<Rightarrow> 'c) \<Rightarrow> 'c \<Rightarrow> 'c outcome" where
  "setting get update c = obind get (\<lambda>(val, changed). Ok (if changed then update val c else c))"

definition always :: "('a \<times> bool) outcome \<Rightarrow> ('a \<Rightarrow> 'c \<Rightarrow> 'c) \<Rightarrow> 'c \<Rightarrow> 'c outcome" where
  "always get update c = obind get (\<lambda>(val, _). Ok (update val c))"

definition with_tcp :: "string \<Rightarrow> string" where
  "with_tcp coreRPC = (if HasPrefix coreRPC ''tcp://'' then coreRPC else ''tcp://'' @ coreRPC)"

text \<open>The default home is needed to declare the home flag; without one the command panics.\<close>

definition with_home :: "string outcome \<Rightarrow> (string \<Rightarrow> 'a outcome) \<Rightarrow> 'a outcome" where
  "with_home path f = (case path of Ok homeDir \<Rightarrow> f homeDir | Err e \<Rightarrow> Panic ''home'' | Panic p \<Rightarrow> Panic p | Blocked \<Rightarrow> Blocked)"

lemma addFlag_run [simp]:
  "addFlag n v ds = (if n \<in> set (map fst ds) then Panic ''flag redefined'' else Ok (ds @ [(n, v)]))"
  by (simp add: addFlag_def)

text \<open>
  What is relied on from \<open>pflag\<close>: a declared flag can be read with the type it was declared with, and
  has the declared value unless it was set on the command line.
\<close>

fun reads :: "flag_set \<Rightarrow> string \<times> flag_value \<Rightarrow> bool" where
  "reads F (n, FString d) = (\<exists>v. GetString F n = Ok v \<and> (Changed F n \<or> v = d))"
| "reads F (n, FBool d) = (\<exists>v. GetBool F n = Ok v \<and> (Changed F n \<or> v = d))"
| "reads F (n, FUint64 d) = (\<exists>v. GetUint64 F n = Ok v \<and> (Changed F n \<or> v = d))"

definition parsed_from :: "flag_decls \<Rightarrow> flag_set \<Rightarrow> bool" where
  "parsed_from ds F \<longleftrightarrow> list_all (reads F) ds"

lemmas flag_names =
  FlagEVMPassphrase_def FlagBootstrappers_def FlagP2PListenAddress_def FlagP2PNickname_def FlagGRPCInsecure_def
  FlagEVMAccAddress_def FlagEVMChainID_def FlagEVMRPC_def FlagEVMGasLimit_def FlagEVMContractAddress_def
  FlagEVMRetryTimeout_def FlagCoreGRPC_def FlagCoreRPC_def FlagStartingNonce_def FlagLogLevel_def
  FlagLogFormat_def FlagBackupRelayer_def FlagBackupRelayerWaitTime_def FlagMetrics_def FlagMetricsEndpoint_def
  FlagMetricsTLS_def FlagMetricsP2PEndpoint_def

lemmas flag_adders =
  AddEVMPassphraseFlag_def AddLogLevelFlag_def AddLogFormatFlag_def AddStartingNonceFlag_def
  AddP2PNicknameFlag_def AddP2PListenAddressFlag_def AddBootstrappersFlag_def AddGRPCInsecureFlag_def
  AddCoreGRPCFlag_def AddEVMChainIDFlag_def AddCoreRPCFlag_def AddEVMRPCFlag_def
  AddEVMContractAddressFlag_def AddEVMGasLimitFlag_def AddBackupRelayerFlag_def AddBackupRelayerWaitTimeFlag_def
  AddEVMAccAddressFlag_def AddEVMRetryTimeoutFlag_def AddMetricsFlag_def AddMetricsEndpointFlag_def
  AddMetricsTLSFlag_def AddP2PMetricsEndpoint_def AddHomeFlag_def

lemmas flag_getters =
  GetEVMPassphraseFlag_def GetLogFormatFlag_def GetLogLevelFlag_def GetStartingNonceFlag_def
  GetP2PNicknameFlag_def GetP2PListenAddressFlag_def GetBootstrappersFlag_def GetGRPCInsecureFlag_def
  GetCoreGRPCFlag_def GetEVMChainIDFlag_def GetCoreRPCFlag_def GetEVMRPCFlag_def
  GetEVMContractAddressFlag_def GetEVMGasLimitFlag_def GetBackupRelayerFlag_def GetBackupRelayerWaitTimeFlag_def
  GetHomeFlag_def GetEVMAccAddressFlag_def GetEVMRetryTimeoutFlag_def GetMetricsFlag_def
  GetMetricsEndpointFlag_def GetMetricsTLSFlag_def GetP2PMetricsEndpointFlag_def getFlag_def

end
