(* ===== verification/RelayerConfig.thy ===== *)
theory RelayerConfig imports Flags begin

text \<open>
  \<open>cmd/blobstream/relayer/config.go\<close>: the flags of the relayer's start command, its configuration and
  how the flags go over the configuration that was read from the file. The file
  itself is in \<open>ConfigFile\<close>.
\<close>

section \<open>Configuration\<close>

text \<open>\<open>telemetry.Config\<close>.\<close>

record telemetry_config =
  Metrics :: bool
  Endpoint :: string
  TLS :: bool
  P2PEndpoint :: string

definition ServiceNameRelayer :: string where
  "ServiceNameRelayer = ''relayer''"

record StartConfig =
  Home :: string
  EVMPassphrase :: string
  EvmChainID :: u64
  EvmRPC :: string
  CoreGRPC :: string
  CoreRPC :: string
  evmAccAddress :: string
  ContractAddr :: string
  EvmGasLimit :: u64
  Bootstrappers :: string
  P2PListenAddr :: string
  p2pNickname :: string
  GrpcInsecure :: bool
  LogLevel :: string
  LogFormat :: string
  EVMRetryTimeout :: u64
  isBackupRelayer :: bool
  backupRelayerWaitTime :: u64
  MetricsConfig :: telemetry_config

definition DefaultStartConfig :: StartConfig where
  "DefaultStartConfig = \<lparr>Home = [], EVMPassphrase = [], EvmChainID = 5, EvmRPC = ''http://localhost:8545'',
     CoreGRPC = ''localhost:9090'', CoreRPC = ''tcp://localhost:26657'', evmAccAddress = [], ContractAddr = [],
     EvmGasLimit = 2500000, Bootstrappers = [], P2PListenAddr = ''/ip4/0.0.0.0/tcp/30000'', p2pNickname = [],
     GrpcInsecure = True, LogLevel = [], LogFormat = [], EVMRetryTimeout = 15, isBackupRelayer = False,
     backupRelayerWaitTime = 0,
     MetricsConfig = \<lparr>Metrics = False, Endpoint = ''localhost:4318'', TLS = False, P2PEndpoint = ''localhost:30001''\<rparr>\<rparr>"

definition ValidateBasics :: "(string \<Rightarrow> bool) \<Rightarrow> StartConfig \<Rightarrow> unit outcome" where
  "ValidateBasics isHexAddress cfg =
     obind (mapErr (\<lambda>e. Wrap e FlagEVMAccAddress) (ValidateEVMAddress isHexAddress (evmAccAddress cfg))) (\<lambda>_.
     obind (mapErr (\<lambda>e. Wrap e FlagEVMContractAddress) (ValidateEVMAddress isHexAddress (ContractAddr cfg))) (\<lambda>_.
     if isBackupRelayer cfg \<and> backupRelayerWaitTime cfg = 0
     then Err (Errorf ''backup relayer wait time cannot be 0 if backup relayer flag is set'')
     else Ok ()))"

section \<open>Flags\<close>

definition addRelayerStartFlags :: "command \<Rightarrow> os_env \<Rightarrow> flag_decls outcome" where
  "addRelayerStartFlags C Os = with_home (DefaultServicePath Os ServiceNameRelayer) (\<lambda>homeDir. in_turn
     [AddHomeFlag C homeDir, AddEVMAccAddressFlag, AddEVMChainIDFlag, AddCoreGRPCFlag, AddCoreRPCFlag, AddEVMRPCFlag,
     AddEVMContractAddressFlag, AddEVMGasLimitFlag, AddEVMPassphraseFlag, AddP2PNicknameFlag, AddP2PListenAddressFlag,
     AddBootstrappersFlag, AddGRPCInsecureFlag, AddLogLevelFlag, AddLogFormatFlag, AddEVMRetryTimeoutFlag,
     AddBackupRelayerFlag, AddBackupRelayerWaitTimeFlag, AddMetricsFlag, AddMetricsEndpointFlag, AddMetricsTLSFlag,
     AddP2PMetricsEndpoint] [])"

definition parseRelayerStartFlags :: "command \<Rightarrow> flag_set \<Rightarrow> StartConfig \<Rightarrow> StartConfig outcome" where
  "parseRelayerStartFlags C F fileConfig = in_turn
     [always (GetEVMAccAddressFlag F) (\<lambda>v c. c\<lparr>evmAccAddress := v\<rparr>),
      setting (GetEVMChainIDFlag F) (\<lambda>v c. c\<lparr>EvmChainID := v\<rparr>),
      setting (GetCoreRPCFlag F) (\<lambda>v c. c\<lparr>CoreRPC := with_tcp v\<rparr>),
      setting (GetCoreGRPCFlag F) (\<lambda>v c. c\<lparr>CoreGRPC := v\<rparr>),
      setting (GetEVMContractAddressFlag F) (\<lambda>v c. c\<lparr>ContractAddr := v\<rparr>),
      setting (GetEVMRPCFlag F) (\<lambda>v c. c\<lparr>EvmRPC := v\<rparr>),
      setting (GetEVMGasLimitFlag F) (\<lambda>v c. c\<lparr>EvmGasLimit := v\<rparr>),
      setting (GetBootstrappersFlag F) (\<lambda>v c. c\<lparr>Bootstrappers := v\<rparr>),
      setting (GetP2PListenAddressFlag F) (\<lambda>v c. c\<lparr>P2PListenAddr := v\<rparr>),
      always (GetP2PNicknameFlag F) (\<lambda>v c. c\<lparr>p2pNickname := v\<rparr>),
      always (GetHomeFlag C F) (\<lambda>v c. c\<lparr>Home := v\<rparr>),
      always (GetEVMPassphraseFlag F) (\<lambda>v c. c\<lparr>EVMPassphrase := v\<rparr>),
      setting (GetGRPCInsecureFlag F) (\<lambda>v c. c\<lparr>GrpcInsecure := v\<rparr>),
      always (GetLogLevelFlag F) (\<lambda>v c. c\<lparr>LogLevel := v\<rparr>),
      always (GetLogFormatFlag F) (\<lambda>v c. c\<lparr>LogFormat := v\<rparr>),
      setting (GetEVMRetryTimeoutFlag F) (\<lambda>v c. c\<lparr>EVMRetryTimeout := v\<rparr>),
      always (GetBackupRelayerFlag F) (\<lambda>v c. c\<lparr>isBackupRelayer := v\<rparr>),
      always (GetBackupRelayerWaitTimeFlag F) (\<lambda>v c. c\<lparr>backupRelayerWaitTime := v\<rparr>),
      setting (GetMetricsFlag F) (\<lambda>v c. c\<lparr>MetricsConfig := (MetricsConfig c)\<lparr>Metrics := v\<rparr>\<rparr>),
      setting (GetMetricsEndpointFlag F) (\<lambda>v c. c\<lparr>MetricsConfig := (MetricsConfig c)\<lparr>Endpoint := v\<rparr>\<rparr>),
      setting (GetMetricsTLSFlag F) (\<lambda>v c. c\<lparr>MetricsConfig := (MetricsConfig c)\<lparr>TLS := v\<rparr>\<rparr>),
      setting (GetP2PMetricsEndpointFlag F) (\<lambda>v c. c\<lparr>MetricsConfig := (MetricsConfig c)\<lparr>P2PEndpoint := v\<rparr>\<rparr>)]
     fileConfig"

section \<open>The init command\<close>

definition addInitFlags :: "command \<Rightarrow> os_env \<Rightarrow> flag_decls outcome" where
  "addInitFlags C Os = with_home (DefaultServicePath Os ServiceNameRelayer) (\<lambda>homeDir. in_turn
     [AddHomeFlag C homeDir, AddLogLevelFlag, AddLogFormatFlag] [])"

record InitConfig =
  home :: string
  logLevel :: string
  logFormat :: string

definition parseInitFlags :: "command \<Rightarrow> os_env \<Rightarrow> flag_set \<Rightarrow> InitConfig outcome" where
  "parseInitFlags C Os F =
     obind (GetString F (FlagHome C)) (\<lambda>homeDir.
     obind (if homeDir = [] then DefaultServicePath Os ServiceNameRelayer else Ok homeDir) (\<lambda>homeDir.
     obind (GetLogLevelFlag F) (\<lambda>(level, _).
     obind (GetLogFormatFlag F) (\<lambda>(format, _).
     Ok \<lparr>home = homeDir, logLevel = level, logFormat = format\<rparr>))))"

end
