(* ===== verification/OrchConfig.thy ===== *)
theory OrchConfig imports RelayerConfig begin

text \<open>
  \<open>cmd/blobstream/orchestrator/config.go\<close>: the same for the orchestrator.
\<close>

section \<open>Configuration\<close>

definition ServiceNameOrchestrator :: string where
  "ServiceNameOrchestrator = ''orchestrator''"

record OrchStartConfig =
  OHome :: string
  OEVMPassphrase :: string
  OCoreGRPC :: string
  OCoreRPC :: string
  EvmAccAddress :: string
  OBootstrappers :: string
  OP2PListenAddr :: string
  P2pNickname :: string
  GRPCInsecure :: bool
  OLogLevel :: string
  OLogFormat :: string
  OMetricsConfig :: telemetry_config

definition OrchDefaultStartConfig :: OrchStartConfig where
  "OrchDefaultStartConfig = \<lparr>OHome = [], OEVMPassphrase = [], OCoreGRPC = ''localhost:9090'', OCoreRPC = ''tcp://localhost:26657'',
     EvmAccAddress = [], OBootstrappers = [], OP2PListenAddr = ''/ip4/0.0.0.0/tcp/30000'', P2pNickname = [],
     GRPCInsecure = True, OLogLevel = [], OLogFormat = [],
     OMetricsConfig = \<lparr>Metrics = False, Endpoint = ''localhost:4318'', TLS = False, P2PEndpoint = ''localhost:30001''\<rparr>\<rparr>"

definition OrchValidateBasics :: "(string \<Rightarrow> bool) \<Rightarrow> OrchStartConfig \<Rightarrow> unit outcome" where
  "OrchValidateBasics isHexAddress cfg =
     mapErr (\<lambda>e. Wrap e FlagEVMAccAddress) (ValidateEVMAddress isHexAddress (EvmAccAddress cfg))"

section \<open>Flags\<close>

definition addOrchestratorFlags :: "command \<Rightarrow> os_env \<Rightarrow> flag_decls outcome" where
  "addOrchestratorFlags C Os = with_home (DefaultServicePath Os ServiceNameOrchestrator) (\<lambda>homeDir. in_turn
     [AddCoreRPCFlag, AddCoreGRPCFlag, AddEVMAccAddressFlag, AddEVMPassphraseFlag, AddHomeFlag C homeDir,
     AddP2PNicknameFlag, AddP2PListenAddressFlag, AddBootstrappersFlag, AddGRPCInsecureFlag, AddLogLevelFlag,
     AddLogFormatFlag, AddMetricsFlag, AddMetricsEndpointFlag, AddMetricsTLSFlag, AddP2PMetricsEndpoint] [])"

definition parseOrchestratorFlags :: "command \<Rightarrow> flag_set \<Rightarrow> OrchStartConfig \<Rightarrow> OrchStartConfig outcome" where
  "parseOrchestratorFlags C F startConf = in_turn
     [always (GetEVMAccAddressFlag F) (\<lambda>v c. c\<lparr>EvmAccAddress := v\<rparr>),
      setting (GetCoreRPCFlag F) (\<lambda>v c. c\<lparr>OCoreRPC := with_tcp v\<rparr>),
      setting (GetCoreGRPCFlag F) (\<lambda>v c. c\<lparr>OCoreGRPC := v\<rparr>),
      setting (GetBootstrappersFlag F) (\<lambda>v c. c\<lparr>OBootstrappers := v\<rparr>),
      setting (GetP2PListenAddressFlag F) (\<lambda>v c. c\<lparr>OP2PListenAddr := v\<rparr>),
      setting (GetP2PNicknameFlag F) (\<lambda>v c. c\<lparr>P2pNickname := v\<rparr>),
      always (GetHomeFlag C F) (\<lambda>v c. c\<lparr>OHome := v\<rparr>),
      always (GetEVMPassphraseFlag F) (\<lambda>v c. c\<lparr>OEVMPassphrase := v\<rparr>),
      setting (GetGRPCInsecureFlag F) (\<lambda>v c. c\<lparr>GRPCInsecure := v\<rparr>),
      setting (GetMetricsFlag F) (\<lambda>v c. c\<lparr>OMetricsConfig := (OMetricsConfig c)\<lparr>Metrics := v\<rparr>\<rparr>),
      setting (GetMetricsEndpointFlag F) (\<lambda>v c. c\<lparr>OMetricsConfig := (OMetricsConfig c)\<lparr>Endpoint := v\<rparr>\<rparr>),
      setting (GetMetricsTLSFlag F) (\<lambda>v c. c\<lparr>OMetricsConfig := (OMetricsConfig c)\<lparr>TLS := v\<rparr>\<rparr>),
      setting (GetP2PMetricsEndpointFlag F) (\<lambda>v c. c\<lparr>OMetricsConfig := (OMetricsConfig c)\<lparr>P2PEndpoint := v\<rparr>\<rparr>),
      always (GetLogLevelFlag F) (\<lambda>v c. c\<lparr>OLogLevel := v\<rparr>),
      always (GetLogFormatFlag F) (\<lambda>v c. c\<lparr>OLogFormat := v\<rparr>)]
     startConf"

end
