(* ===== verification/Configs.thy ===== *)
theory Configs imports OrchConfig begin

text \<open>
  The flags and configurations of the other commands (\<open>deploy\<close>, \<open>query\<close>, \<open>bootstrapper\<close> and the key
  managers), and what holds of all of them: a command declares every flag that it reads, with the
  type it reads it with, and no flag twice.
\<close>

section \<open>cmd/blobstream/deploy/config.go\<close>

definition ServiceNameDeployer :: string where
  "ServiceNameDeployer = ''deployer''"

definition addDeployFlags :: "command \<Rightarrow> os_env \<Rightarrow> flag_decls outcome" where
  "addDeployFlags C Os = with_home (DefaultServicePath Os ServiceNameDeployer) (\<lambda>homeDir. in_turn
     [AddEVMAccAddressFlag, AddEVMChainIDFlag, AddCoreGRPCFlag, AddCoreRPCFlag, AddEVMRPCFlag, AddStartingNonceFlag,
     AddEVMGasLimitFlag, AddEVMPassphraseFlag, AddHomeFlag C homeDir, AddGRPCInsecureFlag, AddLogLevelFlag,
     AddLogFormatFlag] [])"

record deployConfig =
  DepHome :: string
  DepEVMPassphrase :: string
  evmRPC :: string
  depCoreRPC :: string
  depCoreGRPC :: string
  evmChainID :: u64
  depEvmAccAddress :: string
  startingNonce :: string
  evmGasLimit :: u64
  depGrpcInsecure :: bool
  depLogLevel :: string
  depLogFormat :: string

definition parseDeployFlags :: "command \<Rightarrow> flag_set \<Rightarrow> deployConfig outcome" where
  "parseDeployFlags C F =
     obind (GetEVMAccAddressFlag F) (\<lambda>(evmAccAddr, _).
     if evmAccAddr = [] then Err (Errorf ''the evm account address should be specified'')
     else
     obind (GetEVMChainIDFlag F) (\<lambda>(chainID, _).
     obind (GetCoreRPCFlag F) (\<lambda>(coreRPC, _).
     obind (GetCoreGRPCFlag F) (\<lambda>(coreGRPC, _).
     obind (GetEVMRPCFlag F) (\<lambda>(rpc, _).
     obind (GetStartingNonceFlag F) (\<lambda>(nonce, _).
     obind (GetEVMGasLimitFlag F) (\<lambda>(gasLimit, _).
     obind (GetHomeFlag C F) (\<lambda>(homeDir, _).
     obind (GetEVMPassphraseFlag F) (\<lambda>(passphrase, _).
     obind (GetGRPCInsecureFlag F) (\<lambda>(insecure, _).
     obind (GetLogLevelFlag F) (\<lambda>(level, _).
     obind (GetLogFormatFlag F) (\<lambda>(format, _).
     Ok \<lparr>DepHome = homeDir, DepEVMPassphrase = passphrase, evmRPC = rpc, depCoreRPC = with_tcp coreRPC,
         depCoreGRPC = coreGRPC, evmChainID = chainID, depEvmAccAddress = evmAccAddr, startingNonce = nonce,
         evmGasLimit = gasLimit, depGrpcInsecure = insecure, depLogLevel = level, depLogFormat = format\<rparr>))))))))))))"

section \<open>cmd/blobstream/query/config.go\<close>

definition FlagP2PNode :: string where
  "FlagP2PNode = ''p2p-node''"

definition FlagOutputFile :: string where
  "FlagOutputFile = ''output-file''"

definition addQueryFlags :: "command \<Rightarrow> flag_decls outcome" where
  "addQueryFlags C = in_turn
     [AddCoreGRPCFlag, AddCoreRPCFlag, addFlag FlagP2PNode (FString []), addFlag FlagOutputFile (FString []),
     AddGRPCInsecureFlag, addFlag (FlagHome C) (FString [])] []"

record QueryConfig =
  qCoreGRPC :: string
  qCoreRPC :: string
  targetNode :: string
  outputFile :: string
  grpcInsecure :: bool

definition NewPartialConfig :: "string \<Rightarrow> string \<Rightarrow> string \<Rightarrow> bool \<Rightarrow> QueryConfig" where
  "NewPartialConfig coreGRPC coreRPC node insecure =
     \<lparr>qCoreGRPC = coreGRPC, qCoreRPC = coreRPC, targetNode = node, outputFile = [], grpcInsecure = insecure\<rparr>"

definition QueryDefaultConfig :: QueryConfig where
  "QueryDefaultConfig = \<lparr>qCoreGRPC = ''localhost:9090'', qCoreRPC = ''tcp://localhost:26657'', targetNode = [],
     outputFile = [], grpcInsecure = True\<rparr>"

definition getP2PNodeFlag :: "flag_set \<Rightarrow> (string \<times> bool) outcome" where
  "getP2PNodeFlag F = getFlag F GetString FlagP2PNode"

definition parseQueryFlags :: "flag_set \<Rightarrow> QueryConfig \<Rightarrow> QueryConfig outcome" where
  "parseQueryFlags F startConf = in_turn
     [setting (GetCoreRPCFlag F) (\<lambda>v c. c\<lparr>qCoreRPC := with_tcp v\<rparr>),
      setting (GetCoreGRPCFlag F) (\<lambda>v c. c\<lparr>qCoreGRPC := v\<rparr>),
      setting (getP2PNodeFlag F) (\<lambda>v c. c\<lparr>targetNode := v\<rparr>),
      always (getFlag F GetString FlagOutputFile) (\<lambda>v c. c\<lparr>outputFile := v\<rparr>),
      setting (GetGRPCInsecureFlag F) (\<lambda>v c. c\<lparr>grpcInsecure := v\<rparr>)]
     startConf"

text \<open>
  \<open>tryToGetExistingConfig\<close> of \<open>query/cmd.go\<close>, over the results of reading the configuration of an
  orchestrator or of a relayer from a directory. The bootstrappers of either become the target node.
\<close>

definition fromOrchestrator :: "OrchStartConfig \<Rightarrow> QueryConfig" where
  "fromOrchestrator orchConf =
     NewPartialConfig (OCoreGRPC orchConf) (OCoreRPC orchConf) (OBootstrappers orchConf) (GRPCInsecure orchConf)"

definition fromRelayer :: "StartConfig \<Rightarrow> QueryConfig" where
  "fromRelayer relConf =
     NewPartialConfig (CoreGRPC relConf) (CoreRPC relConf) (Bootstrappers relConf) (GrpcInsecure relConf)"

definition tryToGetExistingConfig :: "command \<Rightarrow> os_env \<Rightarrow> flag_set \<Rightarrow> (string \<Rightarrow> OrchStartConfig outcome) \<Rightarrow>
    (string \<Rightarrow> StartConfig outcome) \<Rightarrow> QueryConfig outcome" where
  "tryToGetExistingConfig C Os F orchConfig relConfig =
     obind (GetHomeFlag C F) (\<lambda>(homeDir, changed).
     if changed \<and> homeDir \<noteq> [] then
       (case orchConfig homeDir of
          Ok orchConf \<Rightarrow> Ok (fromOrchestrator orchConf)
        | Err _ \<Rightarrow> (case relConfig homeDir of
              Ok relConf \<Rightarrow> Ok (fromRelayer relConf)
            | Err _ \<Rightarrow> Err (Errorf ''the provided home directory is neither an orchestrator nor a relayer home directory'')
            | Panic p \<Rightarrow> Panic p | Blocked \<Rightarrow> Blocked)
        | Panic p \<Rightarrow> Panic p | Blocked \<Rightarrow> Blocked)
     else
       obind (GetHomeDirectory C Os F ServiceNameOrchestrator) (\<lambda>orchHome.
       case orchConfig orchHome of
         Ok orchConf \<Rightarrow> Ok (fromOrchestrator orchConf)
       | Err _ \<Rightarrow>
           obind (GetHomeDirectory C Os F ServiceNameRelayer) (\<lambda>relHome.
           case relConfig relHome of
             Ok relConf \<Rightarrow> Ok (fromRelayer relConf)
           | Err _ \<Rightarrow> Ok QueryDefaultConfig
           | Panic p \<Rightarrow> Panic p | Blocked \<Rightarrow> Blocked)
       | Panic p \<Rightarrow> Panic p | Blocked \<Rightarrow> Blocked))"

section \<open>cmd/blobstream/keys and bootstrapper\<close>

definition addEvmKeysFlags :: "command \<Rightarrow> os_env \<Rightarrow> string \<Rightarrow> flag_decls outcome" where
  "addEvmKeysFlags C Os service = with_home (DefaultServicePath Os service) (\<lambda>homeDir. in_turn
     [addFlag (FlagHome C) (FString homeDir), addFlag FlagEVMPassphrase (FString []), AddLogLevelFlag, AddLogFormatFlag] [])"

record KeysConfig =
  KHome :: string
  KEVMPassphrase :: string
  KLogLevel :: string
  KLogFormat :: string

definition homeOrDefault :: "command \<Rightarrow> os_env \<Rightarrow> string \<Rightarrow> flag_set \<Rightarrow> string outcome" where
  "homeOrDefault C Os service F =
     obind (GetString F (FlagHome C)) (\<lambda>homeDir. if homeDir = [] then DefaultServicePath Os service else Ok homeDir)"

definition parseEvmKeysConfigFlags :: "command \<Rightarrow> os_env \<Rightarrow> flag_set \<Rightarrow> string \<Rightarrow> KeysConfig outcome" where
  "parseEvmKeysConfigFlags C Os F serviceName =
     obind (homeOrDefault C Os serviceName F) (\<lambda>homeDir.
     obind (GetString F FlagEVMPassphrase) (\<lambda>passphrase.
     obind (GetLogLevelFlag F) (\<lambda>(level, _).
     obind (GetLogFormatFlag F) (\<lambda>(format, _).
     Ok \<lparr>KHome = homeDir, KEVMPassphrase = passphrase, KLogLevel = level, KLogFormat = format\<rparr>))))"

definition FlagNewEVMPassphrase :: string where
  "FlagNewEVMPassphrase = ''evm.new-passphrase''"

definition addNewPassphraseFlags :: "command \<Rightarrow> os_env \<Rightarrow> string \<Rightarrow> flag_decls outcome" where
  "addNewPassphraseFlags C Os service = with_home (DefaultServicePath Os service) (\<lambda>homeDir. in_turn
     [addFlag (FlagHome C) (FString homeDir), addFlag FlagEVMPassphrase (FString []),
      addFlag FlagNewEVMPassphrase (FString []), AddLogLevelFlag, AddLogFormatFlag] [])"

record KeysNewPassphraseConfig = KeysConfig +
  newPassphrase :: string

definition parseKeysNewPassphraseConfigFlags ::
  "command \<Rightarrow> os_env \<Rightarrow> flag_set \<Rightarrow> string \<Rightarrow> KeysNewPassphraseConfig outcome" where
  "parseKeysNewPassphraseConfigFlags C Os F serviceName =
     obind (homeOrDefault C Os serviceName F) (\<lambda>homeDir.
     obind (GetString F FlagEVMPassphrase) (\<lambda>passphrase.
     obind (GetString F FlagNewEVMPassphrase) (\<lambda>newpass.
     obind (GetLogLevelFlag F) (\<lambda>(level, _).
     obind (GetLogFormatFlag F) (\<lambda>(format, _).
     Ok \<lparr>KHome = homeDir, KEVMPassphrase = passphrase, KLogLevel = level, KLogFormat = format, newPassphrase = newpass\<rparr>)))))"

definition addP2PKeysFlags :: "command \<Rightarrow> os_env \<Rightarrow> string \<Rightarrow> flag_decls outcome" where
  "addP2PKeysFlags C Os service = with_home (DefaultServicePath Os service) (\<lambda>homeDir. in_turn
     [addFlag (FlagHome C) (FString homeDir), AddLogLevelFlag, AddLogFormatFlag] [])"

definition parseP2PKeysConfigFlags :: "command \<Rightarrow> os_env \<Rightarrow> flag_set \<Rightarrow> string \<Rightarrow> InitConfig outcome" where
  "parseP2PKeysConfigFlags C Os F serviceName =
     obind (homeOrDefault C Os serviceName F) (\<lambda>homeDir.
     obind (GetLogLevelFlag F) (\<lambda>(level, _).
     obind (GetLogFormatFlag F) (\<lambda>(format, _).
     Ok \<lparr>home = homeDir, logLevel = level, logFormat = format\<rparr>)))"

definition ServiceNameBootstrapper :: string where
  "ServiceNameBootstrapper = ''bootstrapper''"

definition addBootstrapperFlags :: "command \<Rightarrow> os_env \<Rightarrow> flag_decls outcome" where
  "addBootstrapperFlags C Os = with_home (DefaultServicePath Os ServiceNameBootstrapper) (\<lambda>homeDir. in_turn
     [addFlag (FlagHome C) (FString homeDir), AddP2PNicknameFlag, AddP2PListenAddressFlag, AddBootstrappersFlag,
     AddLogLevelFlag, AddLogFormatFlag] [])"

record BootstrapperConfig =
  BHome :: string
  p2pListenAddr :: string
  BP2PNickname :: string
  bootstrappers :: string
  BLogLevel :: string
  BLogFormat :: string

definition parseBootstrapperFlags :: "command \<Rightarrow> os_env \<Rightarrow> flag_set \<Rightarrow> BootstrapperConfig outcome" where
  "parseBootstrapperFlags C Os F =
     obind (GetString F FlagP2PListenAddress) (\<lambda>listen.
     obind (GetString F FlagP2PNickname) (\<lambda>nickname.
     obind (homeOrDefault C Os ServiceNameBootstrapper F) (\<lambda>homeDir.
     obind (GetString F FlagBootstrappers) (\<lambda>boot.
     obind (GetLogLevelFlag F) (\<lambda>(level, _).
     obind (GetLogFormatFlag F) (\<lambda>(format, _).
     Ok \<lparr>BHome = homeDir, p2pListenAddr = listen, BP2PNickname = nickname, bootstrappers = boot,
         BLogLevel = level, BLogFormat = format\<rparr>))))))"

definition addOrchInitFlags :: "command \<Rightarrow> os_env \<Rightarrow> flag_decls outcome" where
  "addOrchInitFlags C Os = with_home (DefaultServicePath Os ServiceNameOrchestrator) (\<lambda>homeDir. in_turn
     [AddHomeFlag C homeDir, AddLogLevelFlag, AddLogFormatFlag] [])"

definition parseOrchInitFlags :: "command \<Rightarrow> os_env \<Rightarrow> flag_set \<Rightarrow> InitConfig outcome" where
  "parseOrchInitFlags C Os F = parseP2PKeysConfigFlags C Os F ServiceNameOrchestrator"

definition addBootstrapperInitFlags :: "command \<Rightarrow> os_env \<Rightarrow> flag_decls outcome" where
  "addBootstrapperInitFlags C Os = with_home (DefaultServicePath Os ServiceNameBootstrapper) (\<lambda>homeDir. in_turn
     [addFlag (FlagHome C) (FString homeDir), AddLogLevelFlag, AddLogFormatFlag] [])"

definition parseBootstrapperInitFlags :: "command \<Rightarrow> os_env \<Rightarrow> flag_set \<Rightarrow> InitConfig outcome" where
  "parseBootstrapperInitFlags C Os F = parseP2PKeysConfigFlags C Os F ServiceNameBootstrapper"

section \<open>Declared and read\<close>

lemma setting_Ok: "get = Ok (v, b) \<Longrightarrow> setting get u c = Ok (if b then u v c else c)"
  by (simp add: setting_def)

lemma always_Ok: "get = Ok (v, b) \<Longrightarrow> always get u c = Ok (u v c)"
  by (simp add: always_def)

lemma parsed_from_simps [simp]: "parsed_from [] F" "parsed_from (d # ds) F \<longleftrightarrow> reads F d \<and> parsed_from ds F"
  by (simp_all add: parsed_from_def)

definition flag_name_list :: "string list" where
  "flag_name_list = [FlagEVMPassphrase, FlagBootstrappers, FlagP2PListenAddress, FlagP2PNickname, FlagGRPCInsecure,
     FlagEVMAccAddress, FlagEVMChainID, FlagEVMRPC, FlagEVMGasLimit, FlagEVMContractAddress, FlagEVMRetryTimeout,
     FlagCoreGRPC, FlagCoreRPC, FlagStartingNonce, FlagLogLevel, FlagLogFormat, FlagBackupRelayer,
     FlagBackupRelayerWaitTime, FlagMetrics, FlagMetricsEndpoint, FlagMetricsTLS, FlagMetricsP2PEndpoint,
     FlagP2PNode, FlagOutputFile, FlagNewEVMPassphrase]"

lemmas all_flag_names = flag_names FlagP2PNode_def FlagOutputFile_def FlagNewEVMPassphrase_def

lemma distinct_flag_names: "distinct flag_name_list"
  by (simp add: flag_name_list_def all_flag_names)

text \<open>What a command declares and reads fit together.\<close>

definition fits :: "flag_decls outcome \<Rightarrow> (flag_set \<Rightarrow> 'a outcome) \<Rightarrow> bool" where
  "fits decls reader \<longleftrightarrow> (\<exists>ds. decls = Ok ds \<and> distinct (map fst ds) \<and> (\<forall>F. parsed_from ds F \<longrightarrow> is_Ok (reader F)))"

lemma in_turn_adders:
  "distinct (map fst (ds @ fs)) \<Longrightarrow> in_turn (map (\<lambda>(n, v). addFlag n v) fs) ds = Ok (ds @ fs)"
proof (induction fs arbitrary: ds)
  case (Cons f fs)
  then show ?case using Cons.IH [of "ds @ [f]"] by (cases f) auto
qed simp

lemma fitsI:
  assumes "decls = in_turn (map (\<lambda>(n, v). addFlag n v) ds) []" and "distinct (map fst ds)"
    and "\<And>F. parsed_from ds F \<Longrightarrow> is_Ok (reader F)"
  shows "fits decls reader"
  using assms in_turn_adders [of "[]" ds] by (auto simp: fits_def)

definition relayer_flags :: "command \<Rightarrow> string \<Rightarrow> flag_decls" where
  "relayer_flags C p = [(FlagHome C, FString p), (FlagEVMAccAddress, FString []), (FlagEVMChainID, FUint64 5),
     (FlagCoreGRPC, FString ''localhost:9090''), (FlagCoreRPC, FString ''tcp://localhost:26657''),
     (FlagEVMRPC, FString ''http://localhost:8545''), (FlagEVMContractAddress, FString []),
     (FlagEVMGasLimit, FUint64 DefaultEVMGasLimit), (FlagEVMPassphrase, FString []), (FlagP2PNickname, FString []),
     (FlagP2PListenAddress, FString ''/ip4/0.0.0.0/tcp/30000''), (FlagBootstrappers, FString []),
     (FlagGRPCInsecure, FBool False), (FlagLogLevel, FString ''info''), (FlagLogFormat, FString ''plain''),
     (FlagEVMRetryTimeout, FUint64 15), (FlagBackupRelayer, FBool False), (FlagBackupRelayerWaitTime, FUint64 15),
     (FlagMetrics, FBool False), (FlagMetricsEndpoint, FString ''localhost:4318''), (FlagMetricsTLS, FBool False),
     (FlagMetricsP2PEndpoint, FString ''localhost:30001'')]"

lemma relayer_fits:
  assumes "FlagHome C \<notin> set flag_name_list" and "DefaultServicePath Os ServiceNameRelayer = Ok p"
  shows "fits (addRelayerStartFlags C Os) (\<lambda>F. parseRelayerStartFlags C F file)"
proof (rule fitsI [where ds = "relayer_flags C p"])
  show "addRelayerStartFlags C Os = in_turn (map (\<lambda>(n, v). addFlag n v) (relayer_flags C p)) []"
    unfolding addRelayerStartFlags_def with_home_def assms(2) outcome.case relayer_flags_def flag_adders
    by (simp only: list.map case_prod_conv)
  show "distinct (map fst (relayer_flags C p))"
    using assms(1) by (simp add: relayer_flags_def flag_name_list_def flag_names)
  fix F assume "parsed_from (relayer_flags C p) F"
  then show "is_Ok (parseRelayerStartFlags C F file)"
    unfolding relayer_flags_def parsed_from_simps reads.simps
    by (elim exE conjE) (simp add: parseRelayerStartFlags_def flag_getters setting_def always_def)
qed

definition orchestrator_flags :: "command \<Rightarrow> string \<Rightarrow> flag_decls" where
  "orchestrator_flags C p = [(FlagCoreRPC, FString ''tcp://localhost:26657''),
     (FlagCoreGRPC, FString ''localhost:9090''),
     (FlagEVMAccAddress, FString ''''),
     (FlagEVMPassphrase, FString ''''),
     (FlagHome C, FString p),
     (FlagP2PNickname, FString ''''),
     (FlagP2PListenAddress, FString ''/ip4/0.0.0.0/tcp/30000''),
     (FlagBootstrappers, FString ''''),
     (FlagGRPCInsecure, FBool False),
     (FlagLogLevel, FString ''info''),
     (FlagLogFormat, FString ''plain''),
     (FlagMetrics, FBool False),
     (FlagMetricsEndpoint, FString ''localhost:4318''),
     (FlagMetricsTLS, FBool False),
     (FlagMetricsP2PEndpoint, FString ''localhost:30001'')]"

lemma orchestrator_fits:
  assumes "FlagHome C \<notin> set flag_name_list" and "DefaultServicePath Os ServiceNameOrchestrator = Ok p"
  shows "fits (addOrchestratorFlags C Os) (\<lambda>F. parseOrchestratorFlags C F file)"
proof (rule fitsI [where ds = "orchestrator_flags C p"])
  show "addOrchestratorFlags C Os = in_turn (map (\<lambda>(n, v). addFlag n v) (orchestrator_flags C p)) []"
    unfolding addOrchestratorFlags_def with_home_def assms(2) outcome.case orchestrator_flags_def flag_adders
    by (simp only: list.map case_prod_conv)
  show "distinct (map fst (orchestrator_flags C p))"
    using assms(1) by (auto simp: orchestrator_flags_def flag_name_list_def all_flag_names)
  fix F assume "parsed_from (orchestrator_flags C p) F"
  then show "is_Ok (parseOrchestratorFlags C F file)"
    unfolding orchestrator_flags_def parsed_from_simps reads.simps
    by (elim exE conjE) (simp add: parseOrchestratorFlags_def flag_getters setting_def always_def assms(2))
qed

definition query_flags :: "command \<Rightarrow> flag_decls" where
  "query_flags C = [(FlagCoreGRPC, FString ''localhost:9090''),
     (FlagCoreRPC, FString ''tcp://localhost:26657''),
     (FlagP2PNode, FString []),
     (FlagOutputFile, FString []),
     (FlagGRPCInsecure, FBool False),
     (FlagHome C, FString [])]"

lemma query_fits:
  assumes "FlagHome C \<notin> set flag_name_list"
  shows "fits (addQueryFlags C) (\<lambda>F. parseQueryFlags F file)"
proof (rule fitsI [where ds = "query_flags C"])
  show "addQueryFlags C = in_turn (map (\<lambda>(n, v). addFlag n v) (query_flags C)) []"
    unfolding addQueryFlags_def query_flags_def flag_adders
    by (simp only: list.map case_prod_conv)
  show "distinct (map fst (query_flags C))"
    using assms(1) by (auto simp: query_flags_def flag_name_list_def all_flag_names)
  fix F assume "parsed_from (query_flags C) F"
  then show "is_Ok (parseQueryFlags F file)"
    unfolding query_flags_def parsed_from_simps reads.simps
    by (elim exE conjE) (simp add: parseQueryFlags_def getP2PNodeFlag_def flag_getters setting_def always_def)
qed

definition evm_keys_flags :: "command \<Rightarrow> string \<Rightarrow> flag_decls" where
  "evm_keys_flags C p = [(FlagHome C, FString p),
     (FlagEVMPassphrase, FString []),
     (FlagLogLevel, FString ''info''),
     (FlagLogFormat, FString ''plain'')]"

lemma evm_keys_fits:
  assumes "FlagHome C \<notin> set flag_name_list" and "DefaultServicePath Os service = Ok p"
  shows "fits (addEvmKeysFlags C Os service) (\<lambda>F. parseEvmKeysConfigFlags C Os F service)"
proof (rule fitsI [where ds = "evm_keys_flags C p"])
  show "addEvmKeysFlags C Os service = in_turn (map (\<lambda>(n, v). addFlag n v) (evm_keys_flags C p)) []"
    unfolding addEvmKeysFlags_def with_home_def assms(2) outcome.case evm_keys_flags_def flag_adders
    by (simp only: list.map case_prod_conv)
  show "distinct (map fst (evm_keys_flags C p))"
    using assms(1) by (auto simp: evm_keys_flags_def flag_name_list_def all_flag_names)
  fix F assume "parsed_from (evm_keys_flags C p) F"
  then show "is_Ok (parseEvmKeysConfigFlags C Os F service)"
    unfolding evm_keys_flags_def parsed_from_simps reads.simps
    by (elim exE conjE) (simp add: parseEvmKeysConfigFlags_def homeOrDefault_def flag_getters setting_def always_def assms(2))
qed

definition new_passphrase_flags :: "command \<Rightarrow> string \<Rightarrow> flag_decls" where
  "new_passphrase_flags C p = [(FlagHome C, FString p),
     (FlagEVMPassphrase, FString []),
     (FlagNewEVMPassphrase, FString []),
     (FlagLogLevel, FString ''info''),
     (FlagLogFormat, FString ''plain'')]"

lemma new_passphrase_fits:
  assumes "FlagHome C \<notin> set flag_name_list" and "DefaultServicePath Os service = Ok p"
  shows "fits (addNewPassphraseFlags C Os service) (\<lambda>F. parseKeysNewPassphraseConfigFlags C Os F service)"
proof (rule fitsI [where ds = "new_passphrase_flags C p"])
  show "addNewPassphraseFlags C Os service = in_turn (map (\<lambda>(n, v). addFlag n v) (new_passphrase_flags C p)) []"
    unfolding addNewPassphraseFlags_def with_home_def assms(2) outcome.case new_passphrase_flags_def flag_adders
    by (simp only: list.map case_prod_conv)
  show "distinct (map fst (new_passphrase_flags C p))"
    using assms(1) by (auto simp: new_passphrase_flags_def flag_name_list_def all_flag_names)
  fix F assume "parsed_from (new_passphrase_flags C p) F"
  then show "is_Ok (parseKeysNewPassphraseConfigFlags C Os F service)"
    unfolding new_passphrase_flags_def parsed_from_simps reads.simps
    by (elim exE conjE) (simp add: parseKeysNewPassphraseConfigFlags_def homeOrDefault_def flag_getters setting_def always_def assms(2))
qed

definition p2p_keys_flags :: "command \<Rightarrow> string \<Rightarrow> flag_decls" where
  "p2p_keys_flags C p = [(FlagHome C, FString p),
     (FlagLogLevel, FString ''info''),
     (FlagLogFormat, FString ''plain'')]"

lemma p2p_keys_fits:
  assumes "FlagHome C \<notin> set flag_name_list" and "DefaultServicePath Os service = Ok p"
  shows "fits (addP2PKeysFlags C Os service) (\<lambda>F. parseP2PKeysConfigFlags C Os F service)"
proof (rule fitsI [where ds = "p2p_keys_flags C p"])
  show "addP2PKeysFlags C Os service = in_turn (map (\<lambda>(n, v). addFlag n v) (p2p_keys_flags C p)) []"
    unfolding addP2PKeysFlags_def with_home_def assms(2) outcome.case p2p_keys_flags_def flag_adders
    by (simp only: list.map case_prod_conv)
  show "distinct (map fst (p2p_keys_flags C p))"
    using assms(1) by (auto simp: p2p_keys_flags_def flag_name_list_def all_flag_names)
  fix F assume "parsed_from (p2p_keys_flags C p) F"
  then show "is_Ok (parseP2PKeysConfigFlags C Os F service)"
    unfolding p2p_keys_flags_def parsed_from_simps reads.simps
    by (elim exE conjE) (simp add: parseP2PKeysConfigFlags_def homeOrDefault_def flag_getters setting_def always_def assms(2))
qed

text \<open>The three init commands declare the same flags.\<close>

lemma init_fits:
  assumes "FlagHome C \<notin> set flag_name_list" and p: "\<And>service. DefaultServicePath Os service = Ok (p service)"
  shows "fits (addInitFlags C Os) (\<lambda>F. parseInitFlags C Os F)"
    "fits (addOrchInitFlags C Os) (\<lambda>F. parseOrchInitFlags C Os F)"
    "fits (addBootstrapperInitFlags C Os) (\<lambda>F. parseBootstrapperInitFlags C Os F)"
proof -
  have d: "distinct (map fst (p2p_keys_flags C q))" for q
    using assms(1) by (auto simp: p2p_keys_flags_def flag_name_list_def all_flag_names)
  have parse: "is_Ok (parseInitFlags C Os F) \<and> is_Ok (parseP2PKeysConfigFlags C Os F service)"
    if "parsed_from (p2p_keys_flags C q) F" for q F service
    using that unfolding p2p_keys_flags_def parsed_from_simps reads.simps
    by (elim exE conjE) (simp add: parseInitFlags_def parseP2PKeysConfigFlags_def homeOrDefault_def flag_getters
        setting_def always_def p)
  have add: "addInitFlags C Os = in_turn (map (\<lambda>(n, v). addFlag n v) (p2p_keys_flags C (p ServiceNameRelayer))) []"
    "addOrchInitFlags C Os = in_turn (map (\<lambda>(n, v). addFlag n v) (p2p_keys_flags C (p ServiceNameOrchestrator))) []"
    "addBootstrapperInitFlags C Os = in_turn (map (\<lambda>(n, v). addFlag n v) (p2p_keys_flags C (p ServiceNameBootstrapper))) []"
    unfolding addInitFlags_def addOrchInitFlags_def addBootstrapperInitFlags_def with_home_def p outcome.case
      p2p_keys_flags_def flag_adders
    by (simp_all only: list.map case_prod_conv)
  show "fits (addInitFlags C Os) (\<lambda>F. parseInitFlags C Os F)"
    by (rule fitsI [OF add(1) d]) (use parse in blast)
  show "fits (addOrchInitFlags C Os) (\<lambda>F. parseOrchInitFlags C Os F)"
    by (rule fitsI [OF add(2) d]) (use parse in \<open>simp add: parseOrchInitFlags_def\<close>)
  show "fits (addBootstrapperInitFlags C Os) (\<lambda>F. parseBootstrapperInitFlags C Os F)"
    by (rule fitsI [OF add(3) d]) (use parse in \<open>simp add: parseBootstrapperInitFlags_def\<close>)
qed

definition bootstrapper_flags :: "command \<Rightarrow> string \<Rightarrow> flag_decls" where
  "bootstrapper_flags C p = [(FlagHome C, FString p),
     (FlagP2PNickname, FString ''''),
     (FlagP2PListenAddress, FString ''/ip4/0.0.0.0/tcp/30000''),
     (FlagBootstrappers, FString ''''),
     (FlagLogLevel, FString ''info''),
     (FlagLogFormat, FString ''plain'')]"

lemma bootstrapper_fits:
  assumes "FlagHome C \<notin> set flag_name_list" and "DefaultServicePath Os ServiceNameBootstrapper = Ok p"
  shows "fits (addBootstrapperFlags C Os) (\<lambda>F. parseBootstrapperFlags C Os F)"
proof (rule fitsI [where ds = "bootstrapper_flags C p"])
  show "addBootstrapperFlags C Os = in_turn (map (\<lambda>(n, v). addFlag n v) (bootstrapper_flags C p)) []"
    unfolding addBootstrapperFlags_def with_home_def assms(2) outcome.case bootstrapper_flags_def flag_adders
    by (simp only: list.map case_prod_conv)
  show "distinct (map fst (bootstrapper_flags C p))"
    using assms(1) by (auto simp: bootstrapper_flags_def flag_name_list_def all_flag_names)
  fix F assume "parsed_from (bootstrapper_flags C p) F"
  then show "is_Ok (parseBootstrapperFlags C Os F)"
    unfolding bootstrapper_flags_def parsed_from_simps reads.simps
    by (elim exE conjE) (simp add: parseBootstrapperFlags_def homeOrDefault_def flag_getters setting_def always_def assms(2))
qed

text \<open>Only the account of the deployer is checked when its flags are read.\<close>

definition no_account :: "'a outcome \<Rightarrow> unit outcome" where
  "no_account r = (case r of Ok x \<Rightarrow> Ok ()
     | Err e \<Rightarrow> if e = Errorf ''the evm account address should be specified'' then Ok () else Err e
     | Panic p \<Rightarrow> Panic p | Blocked \<Rightarrow> Blocked)"

definition deploy_flags :: "command \<Rightarrow> string \<Rightarrow> flag_decls" where
  "deploy_flags C p = [(FlagEVMAccAddress, FString ''''),
     (FlagEVMChainID, FUint64 5),
     (FlagCoreGRPC, FString ''localhost:9090''),
     (FlagCoreRPC, FString ''tcp://localhost:26657''),
     (FlagEVMRPC, FString ''http://localhost:8545''),
     (FlagStartingNonce, FString ''latest''),
     (FlagEVMGasLimit, FUint64 DefaultEVMGasLimit),
     (FlagEVMPassphrase, FString ''''),
     (FlagHome C, FString p),
     (FlagGRPCInsecure, FBool False),
     (FlagLogLevel, FString ''info''),
     (FlagLogFormat, FString ''plain'')]"

lemma deploy_fits:
  assumes "FlagHome C \<notin> set flag_name_list" and "DefaultServicePath Os ServiceNameDeployer = Ok p"
  shows "fits (addDeployFlags C Os) (\<lambda>F. no_account (parseDeployFlags C F))"
proof (rule fitsI [where ds = "deploy_flags C p"])
  show "addDeployFlags C Os = in_turn (map (\<lambda>(n, v). addFlag n v) (deploy_flags C p)) []"
    unfolding addDeployFlags_def with_home_def assms(2) outcome.case deploy_flags_def flag_adders
    by (simp only: list.map case_prod_conv)
  show "distinct (map fst (deploy_flags C p))"
    using assms(1) by (auto simp: deploy_flags_def flag_name_list_def all_flag_names)
  fix F assume "parsed_from (deploy_flags C p) F"
  then show "is_Ok (no_account (parseDeployFlags C F))"
    unfolding deploy_flags_def parsed_from_simps reads.simps
    by (elim exE conjE) (simp add: parseDeployFlags_def no_account_def flag_getters setting_def always_def assms(2))
qed

section \<open>Properties\<close>

text \<open>
  C31: Every command with flags, the three init commands included, declares each flag once, so
  building it does not panic, and declares every flag that it reads with the type it reads it with,
  so that on any command line that \<open>pflag\<close> accepts reading the configuration succeeds; only the
  deployer also wants an account.
\<close>

theorem commands_declare_what_they_read:
  assumes "FlagHome C \<notin> set flag_name_list" and "\<And>service. is_Ok (DefaultServicePath Os service)"
  shows "fits (addRelayerStartFlags C Os) (\<lambda>F. parseRelayerStartFlags C F relFile) \<and>
    fits (addOrchestratorFlags C Os) (\<lambda>F. parseOrchestratorFlags C F orchFile) \<and>
    fits (addDeployFlags C Os) (\<lambda>F. no_account (parseDeployFlags C F)) \<and>
    fits (addQueryFlags C) (\<lambda>F. parseQueryFlags F queryFile) \<and>
    fits (addEvmKeysFlags C Os service) (\<lambda>F. parseEvmKeysConfigFlags C Os F service) \<and>
    fits (addNewPassphraseFlags C Os service) (\<lambda>F. parseKeysNewPassphraseConfigFlags C Os F service) \<and>
    fits (addP2PKeysFlags C Os service) (\<lambda>F. parseP2PKeysConfigFlags C Os F service) \<and>
    fits (addBootstrapperFlags C Os) (\<lambda>F. parseBootstrapperFlags C Os F) \<and>
    fits (addInitFlags C Os) (\<lambda>F. parseInitFlags C Os F) \<and>
    fits (addOrchInitFlags C Os) (\<lambda>F. parseOrchInitFlags C Os F) \<and>
    fits (addBootstrapperInitFlags C Os) (\<lambda>F. parseBootstrapperInitFlags C Os F)"
proof -
  obtain p where p: "DefaultServicePath Os s = Ok (p s)" for s using assms(2) unfolding is_Ok_iff by metis
  note f = assms(1)
  show ?thesis
    by (intro conjI relayer_fits [OF f p] orchestrator_fits [OF f p] deploy_fits [OF f p] query_fits [OF f]
        evm_keys_fits [OF f p] new_passphrase_fits [OF f p] p2p_keys_fits [OF f p] bootstrapper_fits [OF f p]
        init_fits [OF f p])
qed

definition home_command :: command where
  "home_command = \<lparr>FlagHome = ''home''\<rparr>"

definition home_os :: os_env where
  "home_os = \<lparr>Getenv = (\<lambda>_. []), UserHomeDir = Ok ''/root''\<rparr>"

lemma home_ok: "FlagHome home_command \<notin> set flag_name_list" "is_Ok (DefaultServicePath home_os service)"
  by (simp_all add: home_command_def flag_name_list_def all_flag_names DefaultServicePath_def home_os_def)

theorem commands_declare_what_they_read_witness:
  "fits (addRelayerStartFlags home_command home_os) (\<lambda>F. parseRelayerStartFlags home_command F DefaultStartConfig)"
  using commands_declare_what_they_read [OF home_ok, where relFile = DefaultStartConfig] by blast

text \<open>
  Starting with no flag set gives the configuration that setting every flag to its declared default
  gives, except for \<open>grpc.insecure\<close>: the flag defaults to false but the connection to the application
  is insecure unless the flag is set to false or the file says so.
\<close>

theorem defaults_agree_but_for_grpc:
  assumes "parsed_from (relayer_flags C p) F" and "parsed_from (orchestrator_flags C p) F" and "\<And>n. \<not> Changed F n"
  shows "(\<exists>cfg. parseRelayerStartFlags C F DefaultStartConfig = Ok cfg \<and> GrpcInsecure cfg \<and>
      parseRelayerStartFlags C (F\<lparr>Changed := \<lambda>_. True\<rparr>) DefaultStartConfig =
        Ok (cfg\<lparr>GrpcInsecure := False\<rparr>)) \<and>
    (\<exists>cfg. parseOrchestratorFlags C F OrchDefaultStartConfig = Ok cfg \<and> GRPCInsecure cfg \<and>
      parseOrchestratorFlags C (F\<lparr>Changed := \<lambda>_. True\<rparr>) OrchDefaultStartConfig =
        Ok (cfg\<lparr>GRPCInsecure := False\<rparr>))"
proof
  show "\<exists>cfg. parseRelayerStartFlags C F DefaultStartConfig = Ok cfg \<and> GrpcInsecure cfg \<and>
      parseRelayerStartFlags C (F\<lparr>Changed := \<lambda>_. True\<rparr>) DefaultStartConfig = Ok (cfg\<lparr>GrpcInsecure := False\<rparr>)"
    using assms(1,3) unfolding relayer_flags_def parsed_from_simps reads.simps
    by (elim exE conjE) (simp add: parseRelayerStartFlags_def flag_getters setting_def always_def DefaultStartConfig_def
        with_tcp_def DefaultEVMGasLimit_def)
  show "\<exists>cfg. parseOrchestratorFlags C F OrchDefaultStartConfig = Ok cfg \<and> GRPCInsecure cfg \<and>
      parseOrchestratorFlags C (F\<lparr>Changed := \<lambda>_. True\<rparr>) OrchDefaultStartConfig = Ok (cfg\<lparr>GRPCInsecure := False\<rparr>)"
    using assms(2,3) unfolding orchestrator_flags_def parsed_from_simps reads.simps
    by (elim exE conjE) (simp add: parseOrchestratorFlags_def flag_getters setting_def always_def OrchDefaultStartConfig_def
        with_tcp_def)
qed

text \<open>The flags of a command line without arguments.\<close>

definition untouched :: "flag_decls \<Rightarrow> flag_set" where
  "untouched ds = \<lparr>Changed = (\<lambda>_. False),
     GetString = (\<lambda>n. case map_of ds n of Some (FString v) \<Rightarrow> Ok v | _ \<Rightarrow> Err (Errorf ''flag'')),
     GetBool = (\<lambda>n. case map_of ds n of Some (FBool v) \<Rightarrow> Ok v | _ \<Rightarrow> Err (Errorf ''flag'')),
     GetUint64 = (\<lambda>n. case map_of ds n of Some (FUint64 v) \<Rightarrow> Ok v | _ \<Rightarrow> Err (Errorf ''flag''))\<rparr>"

lemma untouched_reads: "distinct (map fst ds) \<Longrightarrow> d \<in> set ds \<Longrightarrow> reads (untouched ds) d"
  by (cases d; cases "snd d") (auto simp: untouched_def)

theorem defaults_agree_but_for_grpc_witness:
  "\<exists>cfg. parseRelayerStartFlags home_command (untouched (relayer_flags home_command ''/root'')) DefaultStartConfig = Ok cfg \<and>
     GrpcInsecure cfg"
proof -
  let ?ds = "relayer_flags home_command ''/root''" and ?F = "untouched (relayer_flags home_command ''/root'')"
  have d: "distinct (map fst ?ds)" by (auto simp: relayer_flags_def home_command_def flag_names)
  have r: "parsed_from ?ds ?F" unfolding parsed_from_def list_all_iff using untouched_reads [OF d] by blast
  have "set (orchestrator_flags home_command ''/root'') \<subseteq> set ?ds"
    by (auto simp: orchestrator_flags_def relayer_flags_def)
  then have o: "parsed_from (orchestrator_flags home_command ''/root'') ?F"
    using r unfolding parsed_from_def list_all_iff by blast
  have "\<And>n. \<not> Changed ?F n" by (simp add: untouched_def)
  from defaults_agree_but_for_grpc [OF r o this] show ?thesis by blast
qed

text \<open>The environment variable names the parent of the home directory, not the directory.\<close>

lemma home_variable_is_the_parent:
  "Getenv Os ''RELAYER_HOME'' \<noteq> [] \<Longrightarrow> DefaultServicePath Os ServiceNameRelayer = Ok (Getenv Os ''RELAYER_HOME'' @ ''/.relayer'')"
proof -
  have "ToUpper ServiceNameRelayer = ''RELAYER''" "ToLower ServiceNameRelayer = ''relayer''" by code_simp+
  then show "Getenv Os ''RELAYER_HOME'' \<noteq> [] \<Longrightarrow> DefaultServicePath Os ServiceNameRelayer = Ok (Getenv Os ''RELAYER_HOME'' @ ''/.relayer'')"
    by (simp add: DefaultServicePath_def)
qed

end
