(* ===== verification/KeyStores.thy ===== *)
theory KeyStores imports Configs World begin

text \<open>
  \<open>cmd/blobstream/keys\<close>: the commands that manage the EVM keys (\<open>keys/evm/evm.go\<close>) and the P2P keys
  (\<open>keys/p2p/p2p.go\<close>). The terminal, the store and the two keystores are outside: each call is an
  event of a history and its answer a function of the history so far, as in the rest of the model.
\<close>

section \<open>The outside\<close>

text \<open>An account is an address and the file that holds its key.\<close>

record account =
  AccAddress :: address
  AccURL :: string

type_synonym privkey = bytes

datatype key_event =
    PasswordRead "string outcome"
  | LineRead string
  | StringRead "string outcome"
  | StoreIsInit bool
  | StoreInit "unit outcome"
  | StoreOpen "unit outcome"
  | StoreClose "unit outcome"
  | KsUnlock account string "unit outcome"
  | KsDelete account string "unit outcome"
  | KsImport bytes string string "account outcome"
  | KsImportECDSA privkey string "account outcome"
  | KsUpdate account string string "unit outcome"
  | FileRead string "bytes outcome"
  | Entropy "bytes outcome"
  | Generated "privkey outcome"
  | P2PList "string list outcome"
  | P2PGet string "privkey outcome"
  | P2PPut string privkey "unit outcome"
  | P2PDelete string "unit outcome"
  | Printed string

type_synonym 'a key_prog = "(key_event, 'a) io"

record key_env =
  read_password :: "key_event list \<Rightarrow> string outcome"
  read_line :: "key_event list \<Rightarrow> string"
  get_string :: "key_event list \<Rightarrow> string outcome"
  is_init :: "key_event list \<Rightarrow> bool"
  init_store :: "key_event list \<Rightarrow> unit outcome"
  open_store :: "key_event list \<Rightarrow> unit outcome"
  close_store :: "key_event list \<Rightarrow> unit outcome"
  ks_has :: "address \<Rightarrow> key_event list \<Rightarrow> bool"
  ks_accounts :: "key_event list \<Rightarrow> account list"
  ks_unlock :: "account \<Rightarrow> string \<Rightarrow> key_event list \<Rightarrow> unit outcome"
  ks_delete :: "account \<Rightarrow> string \<Rightarrow> key_event list \<Rightarrow> unit outcome"
  ks_import :: "bytes \<Rightarrow> string \<Rightarrow> string \<Rightarrow> key_event list \<Rightarrow> account outcome"
  ks_import_ecdsa :: "privkey \<Rightarrow> string \<Rightarrow> key_event list \<Rightarrow> account outcome"
  ks_update :: "account \<Rightarrow> string \<Rightarrow> string \<Rightarrow> key_event list \<Rightarrow> unit outcome"
  read_file :: "string \<Rightarrow> key_event list \<Rightarrow> bytes outcome"
  new_entropy :: "key_event list \<Rightarrow> bytes outcome"
  generate_ed25519 :: "key_event list \<Rightarrow> privkey outcome"
  p2p_list :: "key_event list \<Rightarrow> string list outcome"
  p2p_get :: "string \<Rightarrow> key_event list \<Rightarrow> privkey outcome"
  p2p_put :: "string \<Rightarrow> privkey \<Rightarrow> key_event list \<Rightarrow> unit outcome"
  p2p_delete :: "string \<Rightarrow> key_event list \<Rightarrow> unit outcome"

text \<open>The libraries: bip39, the derivation of keys, hex private keys, log levels.\<close>

record key_lib =
  ParseLevel :: "string \<Rightarrow> unit outcome"
  NewMnemonic :: "bytes \<Rightarrow> string outcome"
  IsMnemonicValid :: "string \<Rightarrow> bool"
  NewSeedWithErrorChecking :: "string \<Rightarrow> string \<Rightarrow> bytes outcome"
  ComputeMastersFromSeed :: "bytes \<Rightarrow> bytes \<times> bytes"
  DerivePrivateKeyForPath :: "bytes \<Rightarrow> bytes \<Rightarrow> string \<Rightarrow> bytes outcome"
  DefaultBaseDerivationPath :: string
  ToECDSA :: "bytes \<Rightarrow> privkey outcome"
  HexToECDSA :: "string \<Rightarrow> privkey outcome"
  UnmarshalEd25519PrivateKey :: "bytes \<Rightarrow> privkey outcome"

definition GetLogger :: "key_lib \<Rightarrow> string \<Rightarrow> unit outcome" where
  "GetLogger K level = mapErr (\<lambda>e. Wrap e ''failed to parse log level'') (ParseLevel K level)"

text \<open>A deferred call whose error is only logged.\<close>

definition deferring :: "'a key_prog \<Rightarrow> 'b key_prog \<Rightarrow> 'a key_prog" where
  "deferring body cleanup h = (case body h of (r, h1) \<Rightarrow>
     (case r of Blocked \<Rightarrow> (Blocked, h1) | _ \<Rightarrow> (r, snd (cleanup h1))))"

text \<open>
  How every command begins: configuration, logger, the store, which is created if it is missing or
  is an error then, and its deferred closing.
\<close>

definition withStore :: "key_lib \<Rightarrow> key_env \<Rightarrow> bool \<Rightarrow> 'c outcome \<Rightarrow> ('c \<Rightarrow> string) \<Rightarrow> ('c \<Rightarrow> 'a key_prog) \<Rightarrow> 'a key_prog" where
  "withStore K E create config level body =
     andThen (lift config) (\<lambda>config.
     andThen (lift (GetLogger K (level config))) (\<lambda>_.
     andThen (observe (is_init E) StoreIsInit) (\<lambda>isInit.
     andThen (if isInit then ret ()
              else if create then call (init_store E) StoreInit
              else throw ErrNotInited) (\<lambda>_.
     andThen (call (open_store E) StoreOpen) (\<lambda>_.
     deferring (body config) (call (close_store E) StoreClose))))))"

section \<open>keys/common/common.go\<close>

definition ConfirmDeletePrivateKey :: "key_env \<Rightarrow> bool key_prog" where
  "ConfirmDeletePrivateKey E = andThen (observe (read_line E) LineRead) (\<lambda>input. ret (input = ''yes''))"

section \<open>keys/evm/evm.go: accounts and passphrases\<close>

text \<open>The last account with the address is taken; with none it is the zero account.\<close>

definition zero_account :: account where
  "zero_account = \<lparr>AccAddress = replicate 20 0, AccURL = []\<rparr>"

definition GetAccountFromStore :: "lib \<Rightarrow> key_env \<Rightarrow> string \<Rightarrow> account key_prog" where
  "GetAccountFromStore L E evmAddr h =
     (if \<not> IsHexAddress L evmAddr then (Err (Errorf ''provided address is not a correct EVM address''), h)
      else
        (let addr = HexToAddress L evmAddr in
         if \<not> ks_has E addr h then (Err (Errorf ''account not found in keystore''), h)
         else (Ok (foldl (\<lambda>acc storeAcc. if AddressHex L (AccAddress storeAcc) = AddressHex L addr then storeAcc else acc)
                 zero_account (ks_accounts E h)), h)))"

definition GetPassphrase :: "key_env \<Rightarrow> string key_prog" where
  "GetPassphrase E = call (read_password E) PasswordRead"

text \<open>The loops ask until the two entries agree; \<open>rounds\<close> bounds how often they are followed.\<close>

fun GetNewPassphrase :: "key_env \<Rightarrow> nat \<Rightarrow> string key_prog" where
  "GetNewPassphrase E 0 = lift Blocked"
| "GetNewPassphrase E (Suc rounds) =
     andThen (call (read_password E) PasswordRead) (\<lambda>bzPassphrase.
     andThen (call (read_password E) PasswordRead) (\<lambda>bzPassphraseConfirm.
     if bzPassphrase = bzPassphraseConfirm then ret bzPassphrase else GetNewPassphrase E rounds))"

fun GetBIP39Passphrase :: "key_env \<Rightarrow> nat \<Rightarrow> string key_prog" where
  "GetBIP39Passphrase E 0 = lift Blocked"
| "GetBIP39Passphrase E (Suc rounds) =
     andThen (call (read_password E) PasswordRead) (\<lambda>bzPassphrase.
     if length bzPassphrase > 100 then GetBIP39Passphrase E rounds
     else
       andThen (call (read_password E) PasswordRead) (\<lambda>bzPassphraseConfirm.
       if bzPassphrase = bzPassphraseConfirm then ret bzPassphrase else GetBIP39Passphrase E rounds))"

definition GetAccountFromStoreAndUnlockIt :: "lib \<Rightarrow> key_env \<Rightarrow> string \<Rightarrow> string \<Rightarrow> account key_prog" where
  "GetAccountFromStoreAndUnlockIt L E evmAddr evmPassphrase =
     andThen (GetAccountFromStore L E evmAddr) (\<lambda>acc.
     andThen (if evmPassphrase = [] then GetPassphrase E else ret evmPassphrase) (\<lambda>passphrase.
     handle (call (ks_unlock E acc passphrase) (KsUnlock acc passphrase))
       (\<lambda>_. ret acc)
       (\<lambda>e. throw (Wrap e ''unable to unlock the EVM private key''))))"

definition MnemonicToPrivateKey :: "key_lib \<Rightarrow> string \<Rightarrow> string \<Rightarrow> privkey outcome" where
  "MnemonicToPrivateKey K mnemonic passphrase =
     obind (NewSeedWithErrorChecking K mnemonic passphrase) (\<lambda>seed.
     let (secret, chainCode) = ComputeMastersFromSeed K seed in
     obind (DerivePrivateKeyForPath K secret chainCode (DefaultBaseDerivationPath K)) (\<lambda>key.
     ToECDSA K key))"

section \<open>keys/evm/evm.go: commands\<close>

text \<open>
  \<open>n\<close> bounds the questions about one passphrase. Of what is printed, the line with the mnemonic is
  kept; the BIP39 passphrase is not in it, only a reminder of it.
\<close>

definition mnemonic_line :: "string \<Rightarrow> string \<Rightarrow> string" where
  "mnemonic_line mnemonic bip39Passphrase =
     (if bip39Passphrase = [] then [CHR 0x0A] @ mnemonic @ [CHR 0x0A, CHR 0x0A]
      else [CHR 0x0A] @ mnemonic @ '' <your_bip39_passphrase>'' @ [CHR 0x0A, CHR 0x0A])"

definition EvmAdd :: "key_lib \<Rightarrow> key_env \<Rightarrow> nat \<Rightarrow> KeysConfig outcome \<Rightarrow> unit key_prog" where
  "EvmAdd K E n config = withStore K E True config KLogLevel (\<lambda>config.
     andThen (GetBIP39Passphrase E n) (\<lambda>bip39Passphrase.
     andThen (if KEVMPassphrase config = [] then GetNewPassphrase E n else ret (KEVMPassphrase config)) (\<lambda>passphrase.
     andThen (call (new_entropy E) Entropy) (\<lambda>entropySeed.
     andThen (lift (NewMnemonic K entropySeed)) (\<lambda>mnemonic.
     andThen (lift (MnemonicToPrivateKey K mnemonic bip39Passphrase)) (\<lambda>ethPrivKey.
     andThen (call (ks_import_ecdsa E ethPrivKey passphrase) (KsImportECDSA ethPrivKey passphrase)) (\<lambda>account.
     andThen (observe (\<lambda>_. ()) (\<lambda>_. Printed (mnemonic_line mnemonic bip39Passphrase))) ret)))))))"

definition EvmList :: "key_lib \<Rightarrow> key_env \<Rightarrow> KeysConfig outcome \<Rightarrow> address list key_prog" where
  "EvmList K E config = withStore K E False config KLogLevel (\<lambda>_ h. (Ok (map AccAddress (ks_accounts E h)), h))"

definition delete_unlocked :: "key_env \<Rightarrow> account \<Rightarrow> string \<Rightarrow> unit key_prog" where
  "delete_unlocked E acc passphrase =
     andThen (call (ks_unlock E acc passphrase) (KsUnlock acc passphrase)) (\<lambda>_.
     andThen (ConfirmDeletePrivateKey E) (\<lambda>confirm.
     if \<not> confirm then ret ()
     else call (ks_delete E acc passphrase) (KsDelete acc passphrase)))"

definition EvmDelete :: "lib \<Rightarrow> key_lib \<Rightarrow> key_env \<Rightarrow> KeysConfig outcome \<Rightarrow> string \<Rightarrow> unit key_prog" where
  "EvmDelete L K E config arg = withStore K E False config KLogLevel (\<lambda>config.
     andThen (GetAccountFromStore L E arg) (\<lambda>acc.
     andThen (if KEVMPassphrase config = [] then GetPassphrase E else ret (KEVMPassphrase config))
       (delete_unlocked E acc)))"

definition EvmImportFile :: "key_lib \<Rightarrow> key_env \<Rightarrow> nat \<Rightarrow> KeysNewPassphraseConfig outcome \<Rightarrow> string \<Rightarrow> unit key_prog" where
  "EvmImportFile K E n config arg = withStore K E True config KLogLevel (\<lambda>config.
     andThen (call (read_file E arg) (FileRead arg)) (\<lambda>fileBz.
     andThen (if KEVMPassphrase config = [] then GetPassphrase E else ret (KEVMPassphrase config)) (\<lambda>passphrase.
     andThen (if newPassphrase config = [] then GetNewPassphrase E n else ret (newPassphrase config)) (\<lambda>newPass.
     andThen (call (ks_import E fileBz passphrase newPass) (KsImport fileBz passphrase newPass)) (\<lambda>_. ret ())))))"

definition EvmImportECDSA :: "key_lib \<Rightarrow> key_env \<Rightarrow> nat \<Rightarrow> KeysConfig outcome \<Rightarrow> string \<Rightarrow> unit key_prog" where
  "EvmImportECDSA K E n config arg = withStore K E True config KLogLevel (\<lambda>config.
     andThen (if KEVMPassphrase config = [] then GetNewPassphrase E n else ret (KEVMPassphrase config)) (\<lambda>passphrase.
     andThen (lift (HexToECDSA K arg)) (\<lambda>ethPrivKey.
     andThen (call (ks_import_ecdsa E ethPrivKey passphrase) (KsImportECDSA ethPrivKey passphrase)) (\<lambda>_. ret ()))))"

definition EvmImportMnemonic :: "key_lib \<Rightarrow> key_env \<Rightarrow> nat \<Rightarrow> KeysConfig outcome \<Rightarrow> unit key_prog" where
  "EvmImportMnemonic K E n config = withStore K E True config KLogLevel (\<lambda>config.
     andThen (call (get_string E) StringRead) (\<lambda>mnemonic.
     if \<not> IsMnemonicValid K mnemonic then throw (Errorf ''invalid mnemonic'')
     else
       andThen (GetBIP39Passphrase E n) (\<lambda>bip39Passphrase.
       andThen (if KEVMPassphrase config = [] then GetNewPassphrase E n else ret (KEVMPassphrase config)) (\<lambda>passphrase.
       andThen (lift (MnemonicToPrivateKey K mnemonic bip39Passphrase)) (\<lambda>ethPrivKey.
       andThen (call (ks_import_ecdsa E ethPrivKey passphrase) (KsImportECDSA ethPrivKey passphrase)) (\<lambda>_. ret ()))))))"

definition EvmUpdate :: "lib \<Rightarrow> key_lib \<Rightarrow> key_env \<Rightarrow> nat \<Rightarrow> KeysNewPassphraseConfig outcome \<Rightarrow> string \<Rightarrow> unit key_prog" where
  "EvmUpdate L K E n config arg = withStore K E False config KLogLevel (\<lambda>config.
     andThen (GetAccountFromStore L E arg) (\<lambda>acc.
     andThen (if KEVMPassphrase config = [] then GetPassphrase E else ret (KEVMPassphrase config)) (\<lambda>passphrase.
     andThen (if newPassphrase config = [] then GetNewPassphrase E n else ret (newPassphrase config)) (\<lambda>newPass.
     call (ks_update E acc passphrase newPass) (KsUpdate acc passphrase newPass)))))"

section \<open>keys/p2p/p2p.go\<close>

definition GenerateNewEd25519 :: "key_env \<Rightarrow> privkey key_prog" where
  "GenerateNewEd25519 E = call (generate_ed25519 E) Generated"

text \<open>Without a nickname the number of keys is taken.\<close>

definition P2PAdd :: "key_lib \<Rightarrow> key_env \<Rightarrow> InitConfig outcome \<Rightarrow> string list \<Rightarrow> unit key_prog" where
  "P2PAdd K E config args = withStore K E True config logLevel (\<lambda>_.
     andThen (case args of
         [] \<Rightarrow> andThen (call (p2p_list E) P2PList) (\<lambda>k. ret (FormatUint 10 (length k)))
       | a # _ \<Rightarrow> ret a) (\<lambda>nickname.
     andThen (GenerateNewEd25519 E) (\<lambda>priv.
     call (p2p_put E nickname priv) (P2PPut nickname priv))))"

definition P2PListKeys :: "key_lib \<Rightarrow> key_env \<Rightarrow> InitConfig outcome \<Rightarrow> string list key_prog" where
  "P2PListKeys K E config = withStore K E False config logLevel (\<lambda>_. call (p2p_list E) P2PList)"

definition P2PImport :: "key_lib \<Rightarrow> key_env \<Rightarrow> InitConfig outcome \<Rightarrow> string \<Rightarrow> string \<Rightarrow> unit key_prog" where
  "P2PImport K E config arg0 arg1 = withStore K E True config logLevel (\<lambda>_.
     andThen (lift (hex_DecodeString arg1)) (\<lambda>bIdentity.
     andThen (lift (UnmarshalEd25519PrivateKey K bIdentity)) (\<lambda>pKey.
     call (p2p_put E arg0 pKey) (P2PPut arg0 pKey))))"

text \<open>\<open>args[0]\<close> of an empty list is a panic; the deferred closing still runs.\<close>

definition P2PDeleteKey :: "key_lib \<Rightarrow> key_env \<Rightarrow> InitConfig outcome \<Rightarrow> string list \<Rightarrow> unit key_prog" where
  "P2PDeleteKey K E config args = withStore K E True config logLevel (\<lambda>_. case args of
       [] \<Rightarrow> panic ''index out of range''
     | a # _ \<Rightarrow>
         andThen (ConfirmDeletePrivateKey E) (\<lambda>confirm.
         if \<not> confirm then ret () else call (p2p_delete E a) (P2PDelete a)))"

definition GetP2PKeyOrGenerateNewOne :: "key_env \<Rightarrow> string \<Rightarrow> privkey key_prog" where
  "GetP2PKeyOrGenerateNewOne E nickname =
     (if nickname \<noteq> [] then call (p2p_get E nickname) (P2PGet nickname)
      else
        andThen (call (p2p_list E) P2PList) (\<lambda>nicknames. case nicknames of
            n # _ \<Rightarrow> call (p2p_get E n) (P2PGet n)
          | [] \<Rightarrow>
              andThen (GenerateNewEd25519 E) (\<lambda>priv.
              andThen (call (p2p_put E ''0'' priv) (P2PPut ''0'' priv)) (\<lambda>_.
              call (p2p_get E ''0'') (P2PGet ''0'')))))"

end
