(* ===== verification/Startup.thy ===== *)
theory Startup imports KeyStores Store Helpers begin

text \<open>
  The start commands under \<open>cmd/blobstream/\<close> (\<open>relayer/cmd.go\<close>, \<open>orchestrator/cmd.go\<close>,
  \<open>bootstrapper/cmd.go\<close>, the set-up of \<open>query/cmd.go\<close>) with \<open>common/helpers.go\<close> and \<open>p2p/host.go\<close>: in
  which order they acquire what the services need, which functions they leave to run at the end,
  and what every early return gives back. What a call does is modelled where it belongs; here
  it is an event with its answer, a function of the events so far.
\<close>

section \<open>Calls\<close>

datatype boot_call =
    DialTendermint string | StopTendermint
  | DialApp string bool | CloseApp
  | OpenHome string open_options | CloseHome open_options
  | UnlockAccount string string | LockAccount
  | MakeMeters
  | StartTelemetry string bool | StopTelemetry
  | StartPrometheus string | StopPrometheus
  | NewHost string "privkey option" bool | CloseHost
  | ConnectTo string | SleepSeconds int
  | NewDht "string list" | AwaitPeers | CloseDht
  | DialEvm string | CloseEvm
  | BindContract string
  | Serve

text \<open>\<open>CloseHost\<close> is what a host offers; no command calls it.\<close>

datatype boot_event =
    Did boot_call "unit outcome"
  | HomeChecked string init_options bool
  | IdentityRead string "privkey option outcome"

text \<open>
  \<open>boot_peer\<close> and \<open>boot_multiaddr\<close> are the parsers of libp2p. The private key may be nil as far as
  \<open>CreateHost\<close> knows.
\<close>

record boot_env =
  does :: "boot_call \<Rightarrow> boot_event list \<Rightarrow> unit outcome"
  boot_is_init :: "string \<Rightarrow> init_options \<Rightarrow> boot_event list \<Rightarrow> bool"
  boot_identity :: "string \<Rightarrow> boot_event list \<Rightarrow> privkey option outcome"
  boot_multiaddr :: "string \<Rightarrow> unit outcome"
  boot_peer :: "string \<Rightarrow> string outcome"
  boot_ctx_done :: "boot_event list \<Rightarrow> bool"

text \<open>\<open>StopFuncs\<close> is the slice \<open>stopFuncs\<close>; \<open>Deferred\<close> are the later \<open>defer\<close>s, which run before it.\<close>

record boot_state =
  StopFuncs :: "boot_call list"
  Deferred :: "boot_call list"
  Calls :: "boot_event list"

type_synonym 'a boot = "boot_state \<Rightarrow> 'a outcome \<times> boot_state"

definition give :: "'a \<Rightarrow> 'a boot" where
  "give x s = (Ok x, s)"

definition failing :: "go_error \<Rightarrow> 'a boot" where
  "failing e s = (Err e, s)"

definition bootlift :: "'a outcome \<Rightarrow> 'a boot" where
  "bootlift r s = (r, s)"

definition after :: "'a boot \<Rightarrow> ('a \<Rightarrow> 'b boot) \<Rightarrow> 'b boot" where
  "after m f s = (case m s of (r, s') \<Rightarrow>
     (case r of Ok x \<Rightarrow> f x s' | Err e \<Rightarrow> (Err e, s') | Panic p \<Rightarrow> (Panic p, s') | Blocked \<Rightarrow> (Blocked, s')))"

text \<open>A call whose error is looked at by the caller.\<close>

definition caught :: "unit boot \<Rightarrow> go_error option boot" where
  "caught m s = (case m s of (r, s') \<Rightarrow>
     (case r of Ok _ \<Rightarrow> (Ok None, s') | Err e \<Rightarrow> (Ok (Some e), s') | Panic p \<Rightarrow> (Panic p, s') | Blocked \<Rightarrow> (Blocked, s')))"

definition doing :: "boot_env \<Rightarrow> boot_call \<Rightarrow> unit boot" where
  "doing E c s = (does E c (Calls s), s\<lparr>Calls := Did c (does E c (Calls s)) # Calls s\<rparr>)"

definition lookHome :: "boot_env \<Rightarrow> string \<Rightarrow> init_options \<Rightarrow> bool boot" where
  "lookHome E path options s =
     (let b = boot_is_init E path options (Calls s) in (Ok b, s\<lparr>Calls := HomeChecked path options b # Calls s\<rparr>))"

definition identity :: "boot_env \<Rightarrow> string \<Rightarrow> privkey option boot" where
  "identity E nickname s =
     (let r = boot_identity E nickname (Calls s) in (r, s\<lparr>Calls := IdentityRead nickname r # Calls s\<rparr>))"

definition appendStops :: "boot_call list \<Rightarrow> unit boot" where
  "appendStops stops s = (Ok (), s\<lparr>StopFuncs := StopFuncs s @ stops\<rparr>)"

definition deferring_call :: "boot_call \<Rightarrow> unit boot" where
  "deferring_call c s = (Ok (), s\<lparr>Deferred := c # Deferred s\<rparr>)"

definition failOn :: "go_error option \<Rightarrow> unit boot" where
  "failOn err = (case err of None \<Rightarrow> give () | Some e \<Rightarrow> failing e)"

text \<open>What runs on every exit: errors of the functions are only logged.\<close>

fun run_stops :: "boot_env \<Rightarrow> boot_call list \<Rightarrow> boot_event list \<Rightarrow> boot_event list" where
  "run_stops E [] h = h"
| "run_stops E (c # cs) h = run_stops E cs (Did c (does E c h) # h)"

definition finishing :: "boot_env \<Rightarrow> 'a boot \<Rightarrow> 'a outcome \<times> boot_event list" where
  "finishing E m = (case m \<lparr>StopFuncs = [], Deferred = [], Calls = []\<rparr> of (r, s) \<Rightarrow>
     (r, if r = Blocked then Calls s else run_stops E (Deferred s @ StopFuncs s) (Calls s)))"

section \<open>common/helpers.go and p2p/host.go\<close>

text \<open>Each gives the functions that stop what it started, also together with an error.\<close>

definition NewTmAndAppQuerier :: "boot_env \<Rightarrow> string \<Rightarrow> string \<Rightarrow> bool \<Rightarrow> (boot_call list \<times> go_error option) boot" where
  "NewTmAndAppQuerier E tendermintRPC celesGRPC insecure =
     after (caught (doing E (DialTendermint tendermintRPC))) (\<lambda>err. case err of
         Some e \<Rightarrow> give ([], Some e)
       | None \<Rightarrow>
           after (caught (doing E (DialApp celesGRPC insecure))) (\<lambda>err. case err of
               Some e \<Rightarrow> give ([StopTendermint], Some e)
             | None \<Rightarrow> give ([StopTendermint, CloseApp], None)))"

definition common_OpenStore :: "boot_env \<Rightarrow> string \<Rightarrow> open_options \<Rightarrow> (boot_call list \<times> go_error option) boot" where
  "common_OpenStore E path openOptions =
     after (lookHome E path (needed openOptions)) (\<lambda>isInit.
     if \<not> isInit then give ([], Some ErrNotInited)
     else
       after (caught (doing E (OpenHome path openOptions))) (\<lambda>err. case err of
           Some e \<Rightarrow> give ([], Some e)
         | None \<Rightarrow> give ([CloseHome openOptions], None)))"

definition CreateHost :: "boot_env \<Rightarrow> string \<Rightarrow> privkey option \<Rightarrow> bool \<Rightarrow> unit boot" where
  "CreateHost E listenMultiAddr privateKey registerer =
     after (bootlift (boot_multiaddr E listenMultiAddr)) (\<lambda>_.
     if privateKey = None then failing ErrNilPrivateKey else doing E (NewHost listenMultiAddr privateKey registerer))"

definition bootstrapInfos :: "boot_env \<Rightarrow> string \<Rightarrow> string list outcome" where
  "bootstrapInfos E bs = (if bs = [] then Ok [] else ParseAddrInfos (boot_peer E) (Split (CHR '','') bs))"

definition CreateDHTAndWaitForPeers :: "boot_env \<Rightarrow> string \<Rightarrow> string \<Rightarrow> string \<Rightarrow> bool \<Rightarrow> unit boot" where
  "CreateDHTAndWaitForPeers E nickname listenAddr bs registerer =
     after (identity E nickname) (\<lambda>privKey.
     after (CreateHost E listenAddr privKey registerer) (\<lambda>_.
     after (bootlift (bootstrapInfos E bs)) (\<lambda>infos.
     after (doing E (NewDht infos)) (\<lambda>_.
     doing E AwaitPeers))))"

section \<open>The start commands of the relayer and the orchestrator\<close>

text \<open>\<open>stopFuncs = append(stopFuncs, stops...)\<close> followed by the check of the error.\<close>

definition appending :: "(boot_call list \<times> go_error option) boot \<Rightarrow> unit boot" where
  "appending m = after m (\<lambda>(stops, err). after (appendStops stops) (\<lambda>_. failOn err))"

text \<open>The stop function is registered before the error is looked at.\<close>

definition unlocking_account :: "boot_env \<Rightarrow> string \<Rightarrow> string \<Rightarrow> unit boot" where
  "unlocking_account E evmAddr passphrase =
     after (caught (doing E (UnlockAccount evmAddr passphrase))) (\<lambda>err.
     after (appendStops [LockAccount]) (\<lambda>_. failOn err))"

text \<open>\<open>telemetry.Start\<close> gives a shutdown function exactly when it gives no error; \<open>PrometheusMetrics\<close> never fails.\<close>

definition with_telemetry :: "boot_env \<Rightarrow> telemetry_config \<Rightarrow> unit boot" where
  "with_telemetry E cfg =
     (if \<not> Metrics cfg then give ()
      else
        after (doing E (StartTelemetry (Endpoint cfg) (TLS cfg))) (\<lambda>_.
        after (appendStops [StopTelemetry]) (\<lambda>_.
        after (doing E (StartPrometheus (P2PEndpoint cfg))) (\<lambda>_.
        appendStops [StopPrometheus]))))"

definition relayer_store :: open_options where
  "relayer_store = \<lparr>HasDataStore = True, HasBadgerOptions = True, HasSignatureStore = True, HasEVMKeyStore = True,
     HasP2PKeyStore = True\<rparr>"

text \<open>The store's stop function is kept aside and registered only when the DHT has peers.\<close>

definition relayer_main :: "boot_env \<Rightarrow> StartConfig \<Rightarrow> unit boot" where
  "relayer_main E config =
     after (appending (NewTmAndAppQuerier E (CoreRPC config) (CoreGRPC config) (GrpcInsecure config))) (\<lambda>_.
     after (common_OpenStore E (Home config) relayer_store) (\<lambda>(storeStops, err).
     after (failOn err) (\<lambda>_.
     after (unlocking_account E (evmAccAddress config) (EVMPassphrase config)) (\<lambda>_.
     after (doing E MakeMeters) (\<lambda>_.
     after (with_telemetry E (MetricsConfig config)) (\<lambda>_.
     after (CreateDHTAndWaitForPeers E (p2pNickname config) (P2PListenAddr config) (Bootstrappers config)
       (Metrics (MetricsConfig config))) (\<lambda>_.
     after (appendStops [CloseDht]) (\<lambda>_.
     after (appendStops storeStops) (\<lambda>_.
     after (doing E (DialEvm (EvmRPC config))) (\<lambda>_.
     after (deferring_call CloseEvm) (\<lambda>_.
     after (doing E (BindContract (ContractAddr config))) (\<lambda>_.
     doing E Serve))))))))))))"

definition relayer_config ::
  "key_lib \<Rightarrow> (string \<Rightarrow> bool) \<Rightarrow> command \<Rightarrow> os_env \<Rightarrow> (string \<Rightarrow> StartConfig outcome) \<Rightarrow> flag_set \<Rightarrow> StartConfig outcome" where
  "relayer_config K isHexAddress C Os loadFile F =
     obind (GetHomeDirectory C Os F ServiceNameRelayer) (\<lambda>homeDir.
     obind (loadFile homeDir) (\<lambda>fileConfig.
     obind (parseRelayerStartFlags C F fileConfig) (\<lambda>config.
     obind (ValidateBasics isHexAddress config) (\<lambda>_.
     obind (GetLogger K (LogLevel config)) (\<lambda>_. Ok config)))))"

definition relayer_Start :: "boot_env \<Rightarrow> StartConfig outcome \<Rightarrow> unit outcome \<times> boot_event list" where
  "relayer_Start E config = (case config of
       Ok cfg \<Rightarrow> finishing E (relayer_main E cfg)
     | Err e \<Rightarrow> (Err e, []) | Panic p \<Rightarrow> (Panic p, []) | Blocked \<Rightarrow> (Blocked, []))"

definition orchestrator_store :: open_options where
  "orchestrator_store = \<lparr>HasDataStore = True, HasBadgerOptions = True, HasSignatureStore = False, HasEVMKeyStore = True,
     HasP2PKeyStore = True\<rparr>"

text \<open>\<open>Start\<close> of the orchestrator returns nothing, so the command returns nil after it.\<close>

definition orchestrator_main :: "boot_env \<Rightarrow> OrchStartConfig \<Rightarrow> unit boot" where
  "orchestrator_main E config =
     after (appending (NewTmAndAppQuerier E (OCoreRPC config) (OCoreGRPC config) (GRPCInsecure config))) (\<lambda>_.
     after (common_OpenStore E (OHome config) orchestrator_store) (\<lambda>(storeStops, err).
     after (case err of None \<Rightarrow> give () | Some e \<Rightarrow> after (appendStops storeStops) (\<lambda>_. failing e)) (\<lambda>_.
     after (unlocking_account E (EvmAccAddress config) (OEVMPassphrase config)) (\<lambda>_.
     after (doing E MakeMeters) (\<lambda>_.
     after (with_telemetry E (OMetricsConfig config)) (\<lambda>_.
     after (CreateDHTAndWaitForPeers E (P2pNickname config) (OP2PListenAddr config) (OBootstrappers config)
       (Metrics (OMetricsConfig config))) (\<lambda>_.
     after (appendStops [CloseDht]) (\<lambda>_.
     after (appendStops storeStops) (\<lambda>_.
     after (caught (doing E Serve)) (\<lambda>_. give ()))))))))))"

definition orchestrator_config ::
  "key_lib \<Rightarrow> (string \<Rightarrow> bool) \<Rightarrow> command \<Rightarrow> os_env \<Rightarrow> (string \<Rightarrow> OrchStartConfig outcome) \<Rightarrow> flag_set \<Rightarrow> OrchStartConfig outcome" where
  "orchestrator_config K isHexAddress C Os loadFile F =
     obind (GetHomeDirectory C Os F ServiceNameOrchestrator) (\<lambda>homeDir.
     obind (loadFile homeDir) (\<lambda>fileConfig.
     obind (parseOrchestratorFlags C F fileConfig) (\<lambda>config.
     obind (OrchValidateBasics isHexAddress config) (\<lambda>_.
     obind (GetLogger K (OLogLevel config)) (\<lambda>_. Ok config)))))"

definition orchestrator_Start :: "boot_env \<Rightarrow> OrchStartConfig outcome \<Rightarrow> unit outcome \<times> boot_event list" where
  "orchestrator_Start E config = (case config of
       Ok cfg \<Rightarrow> finishing E (orchestrator_main E cfg)
     | Err e \<Rightarrow> (Err e, []) | Panic p \<Rightarrow> (Panic p, []) | Blocked \<Rightarrow> (Blocked, []))"

section \<open>The bootstrapper and the queries\<close>

definition bootstrapper_store :: open_options where
  "bootstrapper_store = \<lparr>HasDataStore = False, HasBadgerOptions = False, HasSignatureStore = False, HasEVMKeyStore = False,
     HasP2PKeyStore = True\<rparr>"

text \<open>The loop only waits for the context; \<open>rounds\<close> bounds the ticks that are followed. Nothing is stopped.\<close>

fun bootstrapper_loop :: "boot_env \<Rightarrow> nat \<Rightarrow> unit boot" where
  "bootstrapper_loop E 0 s = (Blocked, s)"
| "bootstrapper_loop E (Suc rounds) s =
     (if boot_ctx_done E (Calls s) then (Ok (), s)
      else bootstrapper_loop E rounds (s\<lparr>Calls := Did (SleepSeconds 60) (Ok ()) # Calls s\<rparr>))"

definition bootstrapper_main :: "boot_env \<Rightarrow> nat \<Rightarrow> BootstrapperConfig \<Rightarrow> unit boot" where
  "bootstrapper_main E rounds config =
     after (lookHome E (BHome config) (needed bootstrapper_store)) (\<lambda>isInit.
     after (if isInit then give () else failing ErrNotInited) (\<lambda>_.
     after (doing E (OpenHome (BHome config) bootstrapper_store)) (\<lambda>_.
     after (identity E (BP2PNickname config)) (\<lambda>privKey.
     after (CreateHost E (p2pListenAddr config) privKey False) (\<lambda>_.
     after (bootlift (bootstrapInfos E (bootstrappers config))) (\<lambda>infos.
     after (doing E (NewDht infos)) (\<lambda>_.
     bootstrapper_loop E rounds)))))))"

definition bootstrapper_Start :: "key_lib \<Rightarrow> boot_env \<Rightarrow> nat \<Rightarrow> BootstrapperConfig outcome \<Rightarrow> unit outcome \<times> boot_event list" where
  "bootstrapper_Start K E rounds config =
     finishing E (after (bootlift config) (\<lambda>config.
       after (bootlift (GetLogger K (BLogLevel config))) (\<lambda>_. bootstrapper_main E rounds config)))"

text \<open>Five attempts to reach the target node; that none succeeded is not an error.\<close>

fun connectTarget :: "boot_env \<Rightarrow> string \<Rightarrow> nat \<Rightarrow> unit boot" where
  "connectTarget E addr 0 = give ()"
| "connectTarget E addr (Suc left) =
     after (caught (doing E (ConnectTo addr))) (\<lambda>err. case err of
         None \<Rightarrow> give ()
       | Some e \<Rightarrow> after (doing E (SleepSeconds 5)) (\<lambda>_. connectTarget E addr left))"

definition startResources :: "boot_env \<Rightarrow> QueryConfig \<Rightarrow> (boot_call list \<times> go_error option) boot" where
  "startResources E config =
     after (NewTmAndAppQuerier E (qCoreRPC config) (qCoreGRPC config) (grpcInsecure config)) (\<lambda>(stopFuncs, err).
     case err of
       Some e \<Rightarrow> give (stopFuncs, Some e)
     | None \<Rightarrow>
         after (caught (after (doing E (NewHost [] None False)) (\<lambda>_.
             after (bootlift (boot_peer E (targetNode config))) (\<lambda>addrInfo.
             after (connectTarget E addrInfo 5) (\<lambda>_.
             doing E (NewDht [])))))) (\<lambda>err. give (stopFuncs, err)))"

text \<open>
  \<open>signers\<close> looks at the error before it defers the stop functions; \<open>signature\<close> has deferred them
  from the beginning.
\<close>

definition signers_RunE :: "boot_env \<Rightarrow> QueryConfig \<Rightarrow> unit boot \<Rightarrow> unit outcome \<times> boot_event list" where
  "signers_RunE E config answer =
     finishing E (after (startResources E config) (\<lambda>(stopFuncs, err).
       after (failOn err) (\<lambda>_. after (appendStops stopFuncs) (\<lambda>_. answer))))"

definition signature_RunE :: "boot_env \<Rightarrow> QueryConfig \<Rightarrow> unit boot \<Rightarrow> unit outcome \<times> boot_event list" where
  "signature_RunE E config answer =
     finishing E (after (appending (startResources E config)) (\<lambda>_. answer))"

end
