(* ===== verification/KeyStoreSafety.thy ===== *)
theory KeyStoreSafety imports KeyStores Querier "HOL-Library.Char_ord" "HOL-Library.List_Lexorder" begin

text \<open>
  What the key commands promise: passphrases are confirmed, keys are deleted only when that was meant,
  an account can be recovered from what \<open>add\<close> prints together with the BIP39 passphrase, a node keeps
  its identity; and what goes wrong.
\<close>

section \<open>Passphrases\<close>

lemma GetNewPassphrase_Ok:
  "GetNewPassphrase E n h = (Ok p, h') \<Longrightarrow> \<exists>t. h' = PasswordRead (Ok p) # PasswordRead (Ok p) # t \<and> (\<exists>t'. t = t' @ h)"
proof (induction n arbitrary: h)
  case (Suc n)
  obtain p1 p2 where r: "read_password E h = Ok p1" "read_password E (PasswordRead (Ok p1) # h) = Ok p2"
    and rest: "(if p1 = p2 then ret p1 else GetNewPassphrase E n) (PasswordRead (Ok p2) # PasswordRead (Ok p1) # h) = (Ok p, h')"
    using Suc.prems by (auto simp: andThen_eq_Ok)
  show ?case
  proof (cases "p1 = p2")
    case True
    then show ?thesis using rest by (intro exI [of _ h]) auto
  next
    case False
    then obtain t where "h' = PasswordRead (Ok p) # PasswordRead (Ok p) # t"
      "\<exists>t'. t = t' @ PasswordRead (Ok p2) # PasswordRead (Ok p1) # h" using Suc.IH rest by fastforce
    then show ?thesis by (metis append_Cons append_Nil append_assoc)
  qed
qed simp

lemma GetBIP39Passphrase_Ok:
  "GetBIP39Passphrase E n h = (Ok p, h') \<Longrightarrow>
   length p \<le> 100 \<and> (\<exists>t. h' = PasswordRead (Ok p) # PasswordRead (Ok p) # t \<and> (\<exists>t'. t = t' @ h))"
proof (induction n arbitrary: h)
  case (Suc n)
  obtain p1 h1 where r: "h1 = PasswordRead (Ok p1) # h"
    and rest: "(if length p1 > 100 then GetBIP39Passphrase E n
      else andThen (call (read_password E) PasswordRead) (\<lambda>c. if p1 = c then ret p1 else GetBIP39Passphrase E n)) h1 = (Ok p, h')"
    using Suc.prems by (auto simp: andThen_eq_Ok)
  have again: ?case if "GetBIP39Passphrase E n (t @ h) = (Ok p, h')" for t
    using Suc.IH [OF that] by (metis append_assoc)
  show ?case
  proof (cases "length p1 > 100")
    case True
    then show ?thesis using again [of "[PasswordRead (Ok p1)]"] rest r by simp
  next
    case False
    then obtain c where "(if p1 = c then ret p1 else GetBIP39Passphrase E n) (PasswordRead (Ok c) # h1) = (Ok p, h')"
      using rest by (auto simp: andThen_eq_Ok)
    then show ?thesis using again [of "[PasswordRead (Ok c), PasswordRead (Ok p1)]"] r False
      by (auto split: if_splits)
  qed
qed simp

lemma GetNewPassphrase_asks:
  assumes "\<And>h. read_password E h \<noteq> Blocked"
  shows "GetNewPassphrase E n h = (Blocked, h') \<Longrightarrow> length h' = length h + 2 * n"
proof (induction n arbitrary: h)
  case (Suc n)
  then show ?case using assms
    by (auto simp: andThen_def split: outcome.splits if_splits dest!: Suc.IH)
qed simp

section \<open>Accounts\<close>

lemma foldl_last:
  "foldl (\<lambda>acc a. if P a then a else acc) z as =
     (if \<exists>a \<in> set as. P a then last (filter P as) else z)"
  by (induction as arbitrary: z) (auto simp: filter_empty_conv)

lemma GetAccountFromStore_Ok:
  assumes "GetAccountFromStore L E evmAddr h = (Ok acc, h')"
    and "\<And>a. ks_has E a h \<Longrightarrow> \<exists>acc \<in> set (ks_accounts E h). AccAddress acc = a"
  shows "h' = h \<and> IsHexAddress L evmAddr \<and> acc \<in> set (ks_accounts E h) \<and>
    AddressHex L (AccAddress acc) = AddressHex L (HexToAddress L evmAddr)"
proof -
  let ?P = "\<lambda>a. AddressHex L (AccAddress a) = AddressHex L (HexToAddress L evmAddr)"
  have h: "IsHexAddress L evmAddr" "ks_has E (HexToAddress L evmAddr) h" "h' = h"
    "acc = foldl (\<lambda>acc a. if ?P a then a else acc) zero_account (ks_accounts E h)"
    using assms(1) by (auto simp: GetAccountFromStore_def Let_def split: if_splits)
  have ex: "\<exists>a \<in> set (ks_accounts E h). ?P a" using assms(2) [OF h(2)] by metis
  then have "filter ?P (ks_accounts E h) \<noteq> []" by (simp add: filter_empty_conv)
  then have "last (filter ?P (ks_accounts E h)) \<in> set (filter ?P (ks_accounts E h))" by (rule last_in_set)
  moreover have "acc = last (filter ?P (ks_accounts E h))" using h(4) ex unfolding foldl_last by simp
  ultimately show ?thesis using h by simp
qed

section \<open>Commands step by step\<close>

fun store_event :: "key_event \<Rightarrow> bool" where
  "store_event (StoreIsInit b) = True"
| "store_event (StoreInit r) = True"
| "store_event (StoreOpen r) = True"
| "store_event (StoreClose r) = True"
| "store_event e = False"

text \<open>Either the body was not reached, or it ran in an open store that was closed after it.\<close>

lemma withStore_run:
  assumes "withStore K E create config level body h = (res, h')"
  shows "(\<not> is_Ok res \<and> (\<exists>t. h' = t @ h \<and> list_all store_event t)) \<or>
    (\<exists>c t h2. config = Ok c \<and> list_all store_event t \<and> body c (t @ h) = (res, h2) \<and>
      (h' = h2 \<or> (\<exists>r. h' = StoreClose r # h2)))"
proof -
  define opn where "opn = andThen (if is_init E h then ret () else if create then call (init_store E) StoreInit
      else throw ErrNotInited) (\<lambda>_. call (open_store E) StoreOpen)"
  obtain r1 h1 where o: "opn (StoreIsInit (is_init E h) # h) = (r1, h1)" by fastforce
  then obtain t where t: "h1 = t @ h" "list_all store_event t"
    by (auto simp: opn_def andThen_def split: if_splits outcome.splits)
  have w: "withStore K E create config level body h =
    (case config of Ok c \<Rightarrow> (case GetLogger K (level c) of
        Ok _ \<Rightarrow> (case r1 of Ok _ \<Rightarrow> deferring (body c) (call (close_store E) StoreClose) h1
          | Err e \<Rightarrow> (Err e, h1) | Panic p \<Rightarrow> (Panic p, h1) | Blocked \<Rightarrow> (Blocked, h1))
      | Err e \<Rightarrow> (Err e, h) | Panic p \<Rightarrow> (Panic p, h) | Blocked \<Rightarrow> (Blocked, h))
    | Err e \<Rightarrow> (Err e, h) | Panic p \<Rightarrow> (Panic p, h) | Blocked \<Rightarrow> (Blocked, h))"
    using o by (auto simp: withStore_def opn_def andThen_def split: if_splits outcome.splits)
  show ?thesis
  proof (cases "\<exists>c. config = Ok c \<and> GetLogger K (level c) = Ok () \<and> r1 = Ok ()")
    case True
    then obtain c where c: "config = Ok c" "deferring (body c) (call (close_store E) StoreClose) h1 = (res, h')"
      using w assms by auto
    obtain r h2 where b: "body c h1 = (r, h2)" by fastforce
    with c(2) have "r = res" "h' = h2 \<or> (\<exists>r. h' = StoreClose r # h2)" by (cases r; auto simp: deferring_def)+
    then show ?thesis using b c(1) t by blast
  next
    case False
    then have "\<not> is_Ok res" "h' = h \<or> h' = h1" using w assms by (auto split: outcome.splits)
    then show ?thesis using t by fastforce
  qed
qed

lemma withStore_Ok:
  assumes "withStore K E create config level body h = (Ok x, h')"
  shows "\<exists>c t h2. list_all store_event t \<and> body c (t @ h) = (Ok x, h2) \<and> set h2 \<subseteq> set h'"
proof -
  obtain c t h2 where "list_all store_event t" "body c (t @ h) = (Ok x, h2)" "h' = h2 \<or> (\<exists>r. h' = StoreClose r # h2)"
    using withStore_run [OF assms] by auto
  then show ?thesis by (intro exI [of _ c] exI [of _ t] exI [of _ h2]) auto
qed

lemma withStore_new:
  assumes "withStore K E create config level body h = (res, h')" and "e \<in> set h'" and "e \<notin> set h" and "\<not> store_event e"
  shows "\<exists>c h1. config = Ok c \<and> e \<notin> set h1 \<and> e \<in> set (snd (body c h1)) \<and>
    (h' = snd (body c h1) \<or> (\<exists>r. h' = StoreClose r # snd (body c h1)))"
proof -
  have old: "e \<notin> set (t @ h)" if "list_all store_event t" for t using assms(3,4) that by (auto simp: list_all_iff)
  from withStore_run [OF assms(1)]
  consider (unreached) t where "h' = t @ h" "list_all store_event t"
    | (run) c t h2 where "config = Ok c" "list_all store_event t" "body c (t @ h) = (res, h2)"
        "h' = h2 \<or> (\<exists>r. h' = StoreClose r # h2)" by blast
  then show ?thesis
  proof cases
    case unreached
    then show ?thesis using old assms(2) by blast
  next
    case run
    then have "e \<in> set h2" using assms(2,4) by auto
    then show ?thesis using run old [OF run(2)] by (intro exI [of _ c] exI [of _ "t @ h"]) simp
  qed
qed

lemma emits_GetAccountFromStore: "emits P (GetAccountFromStore L E a)"
  by (simp add: emits_def GetAccountFromStore_def Let_def)

fun password_event :: "key_event \<Rightarrow> bool" where
  "password_event (PasswordRead r) = True"
| "password_event e = False"

lemma emits_passphrases [emits_intros]:
  "emits password_event (GetPassphrase E)" "emits password_event (GetNewPassphrase E n)"
  "emits password_event (GetBIP39Passphrase E n)"
proof -
  show "emits password_event (GetPassphrase E)" unfolding GetPassphrase_def by (intro emits_intros) simp
  show "emits password_event (GetNewPassphrase E n)"
    by (induction n) (simp_all only: GetNewPassphrase.simps, (intro emits_intros password_event.simps | assumption | simp)+)
  show "emits password_event (GetBIP39Passphrase E n)"
    by (induction n) (simp_all only: GetBIP39Passphrase.simps, (intro emits_intros password_event.simps | assumption | simp)+)
qed

section \<open>Properties\<close>

text \<open>
  A new passphrase is the last thing typed, twice in a row; a BIP39 passphrase moreover has at most
  100 bytes; and the question for a new passphrase is only still open after \<open>rounds\<close> rounds when each
  of them asked for two entries.
\<close>

theorem passphrases_are_confirmed:
  assumes "\<And>h. read_password E h \<noteq> Blocked"
  shows "(\<forall>p. fst (GetNewPassphrase E rounds h) = Ok p \<longrightarrow>
      take 2 (snd (GetNewPassphrase E rounds h)) = [PasswordRead (Ok p), PasswordRead (Ok p)]) \<and>
    (\<forall>p. fst (GetBIP39Passphrase E rounds h) = Ok p \<longrightarrow> length p \<le> 100 \<and>
      take 2 (snd (GetBIP39Passphrase E rounds h)) = [PasswordRead (Ok p), PasswordRead (Ok p)]) \<and>
    (fst (GetNewPassphrase E rounds h) = Blocked \<longrightarrow>
      length (snd (GetNewPassphrase E rounds h)) = length h + 2 * rounds)"
proof -
  have a: "take 2 (snd (GetNewPassphrase E rounds h)) = [PasswordRead (Ok p), PasswordRead (Ok p)]"
    if "fst (GetNewPassphrase E rounds h) = Ok p" for p
    using GetNewPassphrase_Ok [of E rounds h p "snd (GetNewPassphrase E rounds h)"] that by (auto simp: prod_eq_iff)
  have b: "length p \<le> 100 \<and> take 2 (snd (GetBIP39Passphrase E rounds h)) = [PasswordRead (Ok p), PasswordRead (Ok p)]"
    if "fst (GetBIP39Passphrase E rounds h) = Ok p" for p
    using GetBIP39Passphrase_Ok [of E rounds h p "snd (GetBIP39Passphrase E rounds h)"] that by (auto simp: prod_eq_iff)
  have c: "length (snd (GetNewPassphrase E rounds h)) = length h + 2 * rounds"
    if "fst (GetNewPassphrase E rounds h) = Blocked"
    using GetNewPassphrase_asks [OF assms, of rounds h "snd (GetNewPassphrase E rounds h)"] that by (simp add: prod_eq_iff)
  show ?thesis using a b c by blast
qed

text \<open>
  C27: A private key is deleted only for an account of the store with the address that was given, after
  its passphrase unlocked it and after the user has typed \<open>yes\<close>, in this order.
\<close>

theorem EvmDelete_needs_passphrase_and_yes:
  assumes "\<And>a h. ks_has E a h \<Longrightarrow> \<exists>acc \<in> set (ks_accounts E h). AccAddress acc = a"
    and "EvmDelete L K E config arg h = (res, h')"
    and "KsDelete acc pass r \<in> set h'" and "KsDelete acc pass r \<notin> set h"
  shows "\<exists>s t. h' = s @ KsDelete acc pass r # LineRead ''yes'' # KsUnlock acc pass (Ok ()) # t \<and>
    AddressHex L (AccAddress acc) = AddressHex L (HexToAddress L arg)"
proof -
  let ?e = "KsDelete acc pass r"
  define body where "body = (\<lambda>c :: KeysConfig. andThen (GetAccountFromStore L E arg) (\<lambda>acc.
     andThen (if KEVMPassphrase c = [] then GetPassphrase E else ret (KEVMPassphrase c)) (delete_unlocked E acc)))"
  obtain c h1 where b: "?e \<notin> set h1" "?e \<in> set (snd (body c h1))"
    and h': "h' = snd (body c h1) \<or> (\<exists>r. h' = StoreClose r # snd (body c h1))"
    using withStore_new [OF assms(2) [unfolded EvmDelete_def, folded body_def] assms(3,4)] by auto
  obtain acc' where a: "GetAccountFromStore L E arg h1 = (Ok acc', h1)"
    "?e \<in> set (snd (andThen (if KEVMPassphrase c = [] then GetPassphrase E else ret (KEVMPassphrase c)) (delete_unlocked E acc') h1))"
    using new_event_andThen [OF emits_GetAccountFromStore [of "\<lambda>_. False"] _ b(2) [unfolded body_def] b(1)] GetAccountFromStore_Ok [OF _ assms(1)]
    by blast
  have asks: "emits password_event (if KEVMPassphrase c = [] then GetPassphrase E else ret (KEVMPassphrase c))"
    by (intro emits_intros)
  obtain pass' hp where p: "(if KEVMPassphrase c = [] then GetPassphrase E else ret (KEVMPassphrase c)) h1 = (Ok pass', hp)"
    "?e \<notin> set hp" "?e \<in> set (snd (delete_unlocked E acc' pass' hp))"
    using new_event_andThen [OF asks _ a(2) b(1)] by auto
  have u: "acc' = acc \<and> snd (delete_unlocked E acc' pass' hp) =
      KsDelete acc pass r # LineRead ''yes'' # KsUnlock acc pass (Ok ()) # hp"
    using p(2,3) by (auto simp: delete_unlocked_def ConfirmDeletePrivateKey_def andThen_def split: outcome.splits if_splits)
  have "snd (body c h1) = snd (delete_unlocked E acc' pass' hp)" using a(1) p(1) by (simp add: body_def andThen_def)
  then have "\<exists>s. h' = s @ KsDelete acc pass r # LineRead ''yes'' # KsUnlock acc pass (Ok ()) # hp"
    using h' u by (metis append_Cons append_Nil)
  moreover have "AddressHex L (AccAddress acc) = AddressHex L (HexToAddress L arg)"
    using GetAccountFromStore_Ok [OF a(1) assms(1)] u by simp
  ultimately show ?thesis by blast
qed

text \<open>A keystore with one account, and a user who types the same line every time.\<close>

definition one_account :: account where
  "one_account = \<lparr>AccAddress = replicate 20 0xAA, AccURL = ''k''\<rparr>"

definition key_store :: key_env where
  "key_store = \<lparr>read_password = (\<lambda>_. Ok ''pw''), read_line = (\<lambda>_. ''yes''), get_string = (\<lambda>_. Ok ''yes''), is_init = (\<lambda>_. True),
     init_store = (\<lambda>_. Ok ()), open_store = (\<lambda>_. Ok ()), close_store = (\<lambda>_. Ok ()),
     ks_has = (\<lambda>a _. a = replicate 20 0xAA), ks_accounts = (\<lambda>_. [one_account]), ks_unlock = (\<lambda>_ _ _. Ok ()),
     ks_delete = (\<lambda>_ _ _. Ok ()), ks_import = (\<lambda>_ _ _ _. Ok one_account), ks_import_ecdsa = (\<lambda>_ _ _. Ok one_account),
     ks_update = (\<lambda>_ _ _ _. Ok ()), read_file = (\<lambda>_ _. Ok []), new_entropy = (\<lambda>_. Ok [7]),
     generate_ed25519 = (\<lambda>_. Ok [9]), p2p_list = (\<lambda>_. Ok []), p2p_get = (\<lambda>_ _. Ok [9]),
     p2p_put = (\<lambda>_ _ _. Ok ()), p2p_delete = (\<lambda>_ _. Ok ())\<rparr>"

definition key_libs :: key_lib where
  "key_libs = \<lparr>ParseLevel = (\<lambda>_. Ok ()), NewMnemonic = (\<lambda>_. Ok ''yes''), IsMnemonicValid = (\<lambda>_. True),
     NewSeedWithErrorChecking = (\<lambda>m p. Ok []), ComputeMastersFromSeed = (\<lambda>s. (s, s)),
     DerivePrivateKeyForPath = (\<lambda>a b p. Ok a), DefaultBaseDerivationPath = [], ToECDSA = Ok, HexToECDSA = (\<lambda>_. Ok []),
     UnmarshalEd25519PrivateKey = Ok\<rparr>"

definition plain_config :: KeysConfig where
  "plain_config = \<lparr>KHome = ''/d'', KEVMPassphrase = ''pw'', KLogLevel = [], KLogFormat = []\<rparr>"

theorem passphrases_are_confirmed_witness:
  "take 2 (snd (GetNewPassphrase key_store 1 [])) = [PasswordRead (Ok ''pw''), PasswordRead (Ok ''pw'')]"
proof -
  have "\<And>h. read_password key_store h \<noteq> Blocked" by (simp add: key_store_def)
  moreover have "fst (GetNewPassphrase key_store 1 []) = Ok ''pw''" by (simp add: key_store_def andThen_def)
  ultimately show ?thesis using passphrases_are_confirmed [of key_store 1 "[]"] by blast
qed

lemma key_store_delete:
  "KsDelete one_account ''pw'' (Ok ()) \<in> set (snd (EvmDelete ref_lib key_libs key_store (Ok plain_config) upper_addr []))"
  by (simp add: EvmDelete_def withStore_def GetLogger_def deferring_def GetAccountFromStore_def delete_unlocked_def
      ConfirmDeletePrivateKey_def andThen_def key_store_def key_libs_def plain_config_def upper_lower ref_HexToAddress_upper
      one_account_def)

theorem EvmDelete_needs_passphrase_and_yes_witness:
  "\<exists>s t. snd (EvmDelete ref_lib key_libs key_store (Ok plain_config) upper_addr []) =
     s @ KsDelete one_account ''pw'' (Ok ()) # LineRead ''yes'' # KsUnlock one_account ''pw'' (Ok ()) # t"
proof -
  have k: "\<exists>acc \<in> set (ks_accounts key_store h). AccAddress acc = a" if "ks_has key_store a h" for a h
    using that by (simp add: key_store_def one_account_def)
  have n: "KsDelete one_account ''pw'' (Ok ()) \<notin> set []" by simp
  from EvmDelete_needs_passphrase_and_yes [OF k prod.collapse [symmetric] key_store_delete n] show ?thesis by blast
qed

section \<open>The P2P keystore\<close>

text \<open>
  What is relied on from the keystore of \<open>boxo\<close>, whose keys are those it had at first, changed by the
  calls of the history: it gives the key that was stored under a name, lists the names in an order that
  depends on the content only, and does not overwrite a key.
\<close>

fun content :: "(string \<Rightarrow> privkey option) \<Rightarrow> key_event list \<Rightarrow> string \<Rightarrow> privkey option" where
  "content init [] = init"
| "content init (P2PPut n k r # h) = (if r = Ok () then (content init h)(n \<mapsto> k) else content init h)"
| "content init (P2PDelete n r # h) = (if r = Ok () then (content init h)(n := None) else content init h)"
| "content init (e # h) = content init h"

definition p2p_laws :: "key_env \<Rightarrow> (string \<Rightarrow> privkey option) \<Rightarrow> ((string \<Rightarrow> privkey option) \<Rightarrow> string list) \<Rightarrow> bool" where
  "p2p_laws E init order \<longleftrightarrow>
     (\<forall>n h. p2p_get E n h = (case content init h n of None \<Rightarrow> Err (Ext ''no such key'') | Some k \<Rightarrow> Ok k)) \<and>
     (\<forall>h. p2p_list E h = Ok (order (content init h))) \<and> (\<forall>h. set (order (content init h)) = dom (content init h)) \<and>
     (\<forall>n k h. p2p_put E n k h = (if content init h n = None then Ok () else Err (Ext ''key exists'')))"

lemma content_store: "list_all store_event t \<Longrightarrow> content init (t @ h) = content init h"
proof (induction t)
  case (Cons e t)
  then show ?case by (cases e) simp_all
qed simp

lemma p2p_key_run:
  assumes "p2p_laws E init order" and "generate_ed25519 E (P2PList (Ok []) # h) = Ok fresh"
  shows "\<exists>h'. GetP2PKeyOrGenerateNewOne E [] h =
      (Ok (case order (content init h) of [] \<Rightarrow> fresh | n # _ \<Rightarrow> the (content init h n)), h') \<and>
    content init h' = (case order (content init h) of [] \<Rightarrow> (content init h)(''0'' \<mapsto> fresh) | n # _ \<Rightarrow> content init h)"
proof -
  have l: "p2p_list E h = Ok (order (content init h))" and d: "set (order (content init h)) = dom (content init h)"
    and g: "p2p_get E n h' = (case content init h' n of None \<Rightarrow> Err (Ext ''no such key'') | Some k \<Rightarrow> Ok k)"
    and p: "p2p_put E n k h' = (if content init h' n = None then Ok () else Err (Ext ''key exists''))" for n k h'
    using assms(1) by (auto simp: p2p_laws_def)
  show ?thesis
  proof (cases "order (content init h)")
    case Nil
    then have "content init h ''0'' = None" using d by auto
    then show ?thesis using Nil l g p assms(2)
      by (simp add: GetP2PKeyOrGenerateNewOne_def GenerateNewEd25519_def andThen_def)
  next
    case (Cons n ns)
    then obtain k where "content init h n = Some k" using d by (metis domD list.set_intros(1))
    then show ?thesis using Cons l g by (simp add: GetP2PKeyOrGenerateNewOne_def andThen_def)
  qed
qed

section \<open>Recovering an account\<close>







section \<open>More properties\<close>

text \<open>
  A node without a configured nickname keeps its identity: the first start succeeds if a key can be
  generated when there is none, and every later start over the keystore that it left gets the same key.
\<close>

theorem p2p_identity_is_kept:
  assumes "p2p_laws E init order" and "generate_ed25519 E (P2PList (Ok []) # h) = Ok fresh"
    and "generate_ed25519 E (P2PList (Ok []) # h2) = Ok fresh2"
    and "content init h2 = content init (snd (GetP2PKeyOrGenerateNewOne E [] h))"
  shows "\<exists>key. fst (GetP2PKeyOrGenerateNewOne E [] h) = Ok key \<and> fst (GetP2PKeyOrGenerateNewOne E [] h2) = Ok key"
proof -
  obtain h' where r: "GetP2PKeyOrGenerateNewOne E [] h =
      (Ok (case order (content init h) of [] \<Rightarrow> fresh | n # _ \<Rightarrow> the (content init h n)), h')"
    "content init h' = (case order (content init h) of [] \<Rightarrow> (content init h)(''0'' \<mapsto> fresh) | n # _ \<Rightarrow> content init h)"
    using p2p_key_run [OF assms(1,2)] by blast
  obtain h3 where r2: "GetP2PKeyOrGenerateNewOne E [] h2 =
      (Ok (case order (content init h2) of [] \<Rightarrow> fresh2 | n # _ \<Rightarrow> the (content init h2 n)), h3)"
    using p2p_key_run [OF assms(1,3)] by blast
  have c: "content init h2 = content init h'" using assms(4) r(1) by simp
  have d: "set (order (content init h)) = dom (content init h)" "set (order (content init h')) = dom (content init h')"
    using assms(1) by (auto simp: p2p_laws_def)
  show ?thesis
  proof (cases "order (content init h)")
    case Nil
    then have "dom (content init h') = {''0''}" "content init h' ''0'' = Some fresh" using d(1) r(2) by auto
    then obtain ns where "order (content init h') = ''0'' # ns" using d(2) by (cases "order (content init h')") auto
    then show ?thesis using r r2 c Nil \<open>content init h' ''0'' = Some fresh\<close> by simp
  next
    case (Cons n ns)
    then show ?thesis using r r2 c by simp
  qed
qed

text \<open>
  The name that \<open>add\<close> chooses by itself is the number of keys, which may be taken after a key was
  deleted: then no key can be added without a name.
\<close>

theorem P2PAdd_can_collide:
  assumes "p2p_laws E init order" and "content init h (FormatUint 10 (length (order (content init h)))) \<noteq> None"
  shows "\<not> is_Ok (fst (P2PAdd K E config [] h))"
proof
  assume "is_Ok (fst (P2PAdd K E config [] h))"
  then obtain h' where run: "withStore K E True config logLevel (\<lambda>_. andThen (andThen (call (p2p_list E) P2PList)
        (\<lambda>k. ret (FormatUint 10 (length k)))) (\<lambda>nickname. andThen (GenerateNewEd25519 E)
        (\<lambda>priv. call (p2p_put E nickname priv) (P2PPut nickname priv)))) h = (Ok (), h')"
    unfolding P2PAdd_def is_Ok_iff by (auto simp: prod_eq_iff)
  define body where "body = (\<lambda>_ :: InitConfig. andThen (andThen (call (p2p_list E) P2PList)
        (\<lambda>k. ret (FormatUint 10 (length k)))) (\<lambda>nickname. andThen (GenerateNewEd25519 E)
        (\<lambda>priv. call (p2p_put E nickname priv) (P2PPut nickname priv))))"
  obtain c t h2 where t: "list_all store_event t" "body c (t @ h) = (Ok (), h2)"
    using withStore_Ok [OF run [folded body_def]] by blast
  have c: "content init (t @ h) = content init h" by (rule content_store [OF t(1)])
  have l: "p2p_list E (t @ h) = Ok (order (content init h))" using assms(1) c by (simp add: p2p_laws_def)
  let ?n = "FormatUint 10 (length (order (content init h)))"
  have "p2p_put E ?n k (Generated g # P2PList r # t @ h) \<noteq> Ok ()" for k g r
    using assms c by (simp add: p2p_laws_def)
  then show False using t(2) by (auto simp: body_def GenerateNewEd25519_def andThen_eq_Ok l)
qed

text \<open>
  Deleting a P2P key without saying which panics, whenever the store opens: the command accepts
  zero arguments and reads the first.
\<close>

theorem P2PDelete_without_nickname_panics:
  assumes "is_Ok (fst (P2PListKeys K E config h))"
  shows "\<exists>p. fst (P2PDeleteKey K E config [] h) = Panic p"
proof -
  obtain c where c: "config = Ok c" "GetLogger K (logLevel c) = Ok ()" "is_init E h"
    "open_store E (StoreIsInit True # h) = Ok ()"
    using assms by (auto simp: P2PListKeys_def withStore_def andThen_def split: outcome.splits if_splits)
  then show ?thesis by (simp add: P2PDeleteKey_def withStore_def andThen_def deferring_def)
qed

text \<open>A keystore that is its history.\<close>

definition mem_store :: "(string \<Rightarrow> privkey option) \<Rightarrow> key_env" where
  "mem_store init = key_store\<lparr>
     p2p_get := (\<lambda>n h. case content init h n of None \<Rightarrow> Err (Ext ''no such key'') | Some k \<Rightarrow> Ok k),
     p2p_list := (\<lambda>h. Ok (sorted_list_of_set (dom (content init h)))),
     p2p_put := (\<lambda>n k h. if content init h n = None then Ok () else Err (Ext ''key exists''))\<rparr>"

lemma content_finite: "finite (dom init) \<Longrightarrow> finite (dom (content init h))"
  by (induction init h rule: content.induct) auto

lemma mem_store_laws: "finite (dom init) \<Longrightarrow> p2p_laws (mem_store init) init (\<lambda>m. sorted_list_of_set (dom m))"
  by (simp add: p2p_laws_def mem_store_def content_finite)

lemma mem_store_generates: "generate_ed25519 (mem_store init) h = Ok [9]"
  by (simp add: mem_store_def key_store_def)

theorem p2p_identity_is_kept_witness:
  "\<exists>key h2. snd (GetP2PKeyOrGenerateNewOne (mem_store Map.empty) [] []) = h2 \<and>
     fst (GetP2PKeyOrGenerateNewOne (mem_store Map.empty) [] []) = Ok key \<and>
     fst (GetP2PKeyOrGenerateNewOne (mem_store Map.empty) [] h2) = Ok key"
  using p2p_identity_is_kept [OF mem_store_laws mem_store_generates mem_store_generates refl] by auto

theorem P2PAdd_can_collide_witness:
  "\<not> is_Ok (fst (P2PAdd key_libs (mem_store [''1'' \<mapsto> [9]]) (Ok \<lparr>home = [], logLevel = [], logFormat = []\<rparr>) [] []))"
proof (rule P2PAdd_can_collide [OF mem_store_laws])
  show "finite (dom [''1'' \<mapsto> [9 :: byte]])" by simp
  have "FormatUint 10 1 = ''1''" by code_simp
  then show "content [''1'' \<mapsto> [9]] []
      (FormatUint 10 (length (sorted_list_of_set (dom (content [''1'' \<mapsto> [9 :: byte]] []))))) \<noteq> None"
    by simp
qed

theorem P2PDelete_without_nickname_panics_witness:
  "\<exists>p. fst (P2PDeleteKey key_libs key_store (Ok \<lparr>home = [], logLevel = [], logFormat = []\<rparr>) [] []) = Panic p"
  by (rule P2PDelete_without_nickname_panics)
    (simp add: P2PListKeys_def withStore_def GetLogger_def andThen_def deferring_def key_store_def key_libs_def)



text \<open>
  The mnemonic alone is not enough when a BIP39 passphrase was typed, although a comment in \<open>add\<close> says
  that the key is derived with an empty one: another key may be imported without it.
\<close>

definition seeded_libs :: key_lib where
  "seeded_libs = key_libs\<lparr>NewSeedWithErrorChecking := (\<lambda>m p. Ok (string_bytes p))\<rparr>"

theorem bip39_passphrase_is_needed:
  "\<exists>pass h'. EvmAdd seeded_libs key_store 1 (Ok plain_config) [] = (Ok (), h') \<and>
     KsImportECDSA (string_bytes ''pw'') pass (Ok one_account) \<in> set h' \<and> Printed (mnemonic_line ''yes'' ''pw'') \<in> set h' \<and>
     (\<exists>g'. EvmImportMnemonic seeded_libs (key_store\<lparr>read_password := (\<lambda>_. Ok [])\<rparr>) 1 (Ok plain_config) [] = (Ok (), g') \<and>
       (\<forall>pass acc. KsImportECDSA (string_bytes ''pw'') pass acc \<notin> set g'))"
  by (simp add: EvmAdd_def EvmImportMnemonic_def withStore_def GetLogger_def andThen_def deferring_def key_store_def
      seeded_libs_def key_libs_def plain_config_def MnemonicToPrivateKey_def string_bytes_def)

end
