(* ===== verification/StartupSafety.thy ===== *)
theory StartupSafety imports Startup KeyStoreSafety begin

text \<open>
  What the start commands give back, and what holds when a service starts. The lemmas are triples
  over the state of a command: a precondition, a postcondition for going on and one for every early
  exit.
\<close>

section \<open>Triples\<close>

definition ends :: "(boot_state \<Rightarrow> bool) \<Rightarrow> 'a boot \<Rightarrow> ('a \<Rightarrow> boot_state \<Rightarrow> bool) \<Rightarrow> (boot_state \<Rightarrow> bool) \<Rightarrow> bool" where
  "ends P m Q R \<longleftrightarrow> (\<forall>s. P s \<longrightarrow> (case m s of (r, s') \<Rightarrow> (case r of Ok x \<Rightarrow> Q x s' | _ \<Rightarrow> R s')))"

lemma endsI: "(\<And>s. P s \<Longrightarrow> (case m s of (r, s') \<Rightarrow> (case r of Ok x \<Rightarrow> Q x s' | _ \<Rightarrow> R s'))) \<Longrightarrow> ends P m Q R"
  by (simp add: ends_def)

lemma endsD: "ends P m Q R \<Longrightarrow> P s \<Longrightarrow> m s = (r, s') \<Longrightarrow> (case r of Ok x \<Rightarrow> Q x s' | _ \<Rightarrow> R s')"
  by (auto simp: ends_def)

lemma ends_after:
  assumes "ends P m Q R" and "\<And>x. ends (Q x) (f x) Q' R"
  shows "ends P (after m f) Q' R"
proof (rule endsI)
  fix s assume "P s"
  obtain r s1 where m: "m s = (r, s1)" by fastforce
  note q = endsD [OF assms(1) \<open>P s\<close> m]
  show "case after m f s of (r, s') \<Rightarrow> (case r of Ok x \<Rightarrow> Q' x s' | _ \<Rightarrow> R s')"
  proof (cases r)
    case (Ok x)
    then show ?thesis using q m assms(2) [of x] by (simp add: ends_def after_def)
  qed (use q m in \<open>simp_all add: after_def\<close>)
qed

lemma ends_pre: "ends P m Q R \<Longrightarrow> (\<And>s. P' s \<Longrightarrow> P s) \<Longrightarrow> ends P' m Q R"
  by (simp add: ends_def)

lemma ends_give: "(\<And>s. P s \<Longrightarrow> Q x s) \<Longrightarrow> ends P (give x) Q R"
  by (simp add: ends_def give_def)

lemma ends_failing: "(\<And>s. P s \<Longrightarrow> R s) \<Longrightarrow> ends P (failing e) Q R"
  by (simp add: ends_def failing_def)

lemma ends_bootlift: "(\<And>s. P s \<Longrightarrow> R s) \<Longrightarrow> ends P (bootlift r) (\<lambda>_. P) R"
  by (simp add: ends_def bootlift_def split: outcome.split)

lemma ends_post: "ends P m Q R \<Longrightarrow> (\<And>x s. Q x s \<Longrightarrow> Q' x s) \<Longrightarrow> ends P m Q' R"
  by (fastforce simp: ends_def split: prod.splits outcome.splits)

lemma ends_ex:
  assumes "\<And>x. ends (P x) m Q R"
  shows "ends (\<lambda>s. \<exists>x. P x s) m Q R"
proof (rule endsI)
  fix s assume "\<exists>x. P x s"
  then obtain x where "P x s" ..
  then show "case m s of (r, s') \<Rightarrow> (case r of Ok x \<Rightarrow> Q x s' | _ \<Rightarrow> R s')"
    using assms [of x] by (simp add: ends_def)
qed

lemma ends_conj: "(C \<Longrightarrow> ends P m Q R) \<Longrightarrow> ends (\<lambda>s. C \<and> P s) m Q R"
  by (auto simp: ends_def)

lemma ends_value: "(\<And>s. P s \<Longrightarrow> R s) \<Longrightarrow> ends P (bootlift r) (\<lambda>x s. r = Ok x \<and> P s) R"
  by (simp add: ends_def bootlift_def split: outcome.split)

lemma after_give: "after m give = m"
  by (simp add: after_def give_def fun_eq_iff split: prod.split outcome.split)

section \<open>What is held\<close>

text \<open>
  The function that gives back what a call acquired. The command has it at hand at once, but for
  three calls: the host is never closed, and what closes the store and the DHT is registered
  when the DHT has found its peers.
\<close>

fun release_of :: "boot_call \<Rightarrow> boot_call option" where
  "release_of (DialTendermint a) = Some StopTendermint"
| "release_of (DialApp a b) = Some CloseApp"
| "release_of (OpenHome a opts) = Some (CloseHome opts)"
| "release_of (UnlockAccount a p) = Some LockAccount"
| "release_of (StartTelemetry a b) = Some StopTelemetry"
| "release_of (StartPrometheus a) = Some StopPrometheus"
| "release_of (NewHost a k b) = Some CloseHost"
| "release_of (NewDht infos) = Some CloseDht"
| "release_of (DialEvm a) = Some CloseEvm"
| "release_of _ = None"

fun held_back :: "boot_call \<Rightarrow> bool" where
  "held_back (OpenHome a opts) = True"
| "held_back (NewHost a k b) = True"
| "held_back (NewDht infos) = True"
| "held_back _ = False"

fun is_release :: "boot_call \<Rightarrow> bool" where
  "is_release StopTendermint = True"
| "is_release CloseApp = True"
| "is_release LockAccount = True"
| "is_release StopTelemetry = True"
| "is_release StopPrometheus = True"
| "is_release CloseEvm = True"
| "is_release CloseDht = True"
| "is_release CloseHost = True"
| "is_release (CloseHome opts) = True"
| "is_release _ = False"

lemma is_releaseD: "is_release r \<Longrightarrow> release_of r = None \<and> \<not> held_back r \<and> r \<noteq> AwaitPeers \<and> r \<noteq> Serve"
  by (cases r) simp_all

abbreviation ok :: "boot_call \<Rightarrow> boot_event" where
  "ok c \<equiv> Did c (Ok ())"

definition at_exit :: "boot_state \<Rightarrow> boot_call set" where
  "at_exit s = set (Deferred s @ StopFuncs s)"

definition covered :: "boot_state \<Rightarrow> bool" where
  "covered s \<longleftrightarrow> (\<forall>c r. ok c \<in> set (Calls s) \<longrightarrow> release_of c = Some r \<longrightarrow> \<not> held_back c \<longrightarrow> r \<in> at_exit s) \<and>
     (\<forall>r \<in> at_exit s. is_release r) \<and> (\<forall>c a. Did c a \<in> set (Calls s) \<longrightarrow> \<not> is_release c)"

definition serving :: "boot_state \<Rightarrow> bool" where
  "serving s \<longleftrightarrow> (\<exists>r. Did Serve r \<in> set (Calls s))"

text \<open>A home is only opened with the options \<open>opn\<close>; it and the DHT will be closed if \<open>q\<close>, the host never.\<close>

definition exits :: "open_options \<Rightarrow> bool \<Rightarrow> boot_state \<Rightarrow> bool" where
  "exits opn q s \<longleftrightarrow> (\<forall>path opts. ok (OpenHome path opts) \<in> set (Calls s) \<longrightarrow> opts = opn) \<and>
     (\<forall>opts. CloseHome opts \<in> at_exit s \<longleftrightarrow> q \<and> opts = opn) \<and> (CloseDht \<in> at_exit s \<longleftrightarrow> q) \<and> CloseHost \<notin> at_exit s"

text \<open>On the way: the events of \<open>A\<close> have happened, \<open>p\<close> says whether the DHT has peers.\<close>

definition reached :: "open_options \<Rightarrow> boot_event set \<Rightarrow> bool \<Rightarrow> bool \<Rightarrow> boot_state \<Rightarrow> bool" where
  "reached opn A p q s \<longleftrightarrow> covered s \<and> A \<subseteq> set (Calls s) \<and> (ok AwaitPeers \<in> set (Calls s)) = p \<and> exits opn q s \<and> \<not> serving s"

text \<open>At the end: if the service was started, \<open>W\<close> holds of the events.\<close>

definition settled :: "open_options \<Rightarrow> (boot_event set \<Rightarrow> bool) \<Rightarrow> boot_state \<Rightarrow> bool" where
  "settled opn W s \<longleftrightarrow> covered s \<and> exits opn (ok AwaitPeers \<in> set (Calls s)) s \<and> (serving s \<longrightarrow> W (set (Calls s)))"

lemma reached_settled: "reached opn A p p s \<Longrightarrow> settled opn W s"
  by (auto simp: reached_def settled_def)

lemma after_run: "m s = (Ok x, s') \<Longrightarrow> after m f s = f x s'"
  by (simp add: after_def)

lemmas boot_defs = at_exit_def covered_def serving_def exits_def doing_def appendStops_def
  deferring_call_def give_def failing_def failOn_def

lemma ends_doing:
  assumes "release_of c = None \<or> held_back c" and "\<And>path opts. c = OpenHome path opts \<Longrightarrow> opts = opn"
    and "\<not> is_release c" and "c \<noteq> AwaitPeers" and "c \<noteq> Serve"
  shows "ends (reached opn A p p) (doing E c) (\<lambda>_. reached opn (insert (ok c) A) p p) (settled opn W)"
  using assms by (intro endsI) (auto simp: reached_def settled_def boot_defs split: outcome.split)

lemma ends_acquire:
  assumes "release_of c = Some r" and "\<not> held_back c" and "is_release r" and "\<And>opts. r \<noteq> CloseHome opts"
    and "r \<noteq> CloseDht" and "r \<noteq> CloseHost"
    and "\<And>u. ends (reached opn (insert (ok c) A) p p) (f u) Q (settled opn W)"
  shows "ends (reached opn A p p) (after (doing E c) (\<lambda>_. after (appendStops [r]) f)) Q (settled opn W)"
    and "ends (reached opn A p p) (after (doing E c) (\<lambda>_. after (deferring_call r) f)) Q (settled opn W)"
proof -
  have c: "c \<noteq> AwaitPeers" "c \<noteq> Serve" "\<not> is_release c" "\<And>path opts. c \<noteq> OpenHome path opts"
    using assms(1,2) is_releaseD [of c] by auto
  have acquired: "ends (reached opn A p p) (doing E c) (\<lambda>_ s. \<forall>s'. Calls s' = Calls s \<longrightarrow> at_exit s' = insert r (at_exit s) \<longrightarrow>
      reached opn (insert (ok c) A) p p s') (settled opn W)"
    using assms(1-6) c by (intro endsI) (auto simp: reached_def settled_def boot_defs split: outcome.split)
  have d: "ends (reached opn A p p) (after (doing E c) (\<lambda>_. after m f)) Q (settled opn W)"
    if "\<And>s. \<exists>s'. m s = (Ok (), s') \<and> Calls s' = Calls s \<and> at_exit s' = insert r (at_exit s)" for m
  proof (rule ends_after [OF acquired], rule ends_after [OF _ assms(7)])
    show "ends (\<lambda>s. \<forall>s'. Calls s' = Calls s \<longrightarrow> at_exit s' = insert r (at_exit s) \<longrightarrow> reached opn (insert (ok c) A) p p s') m
        (\<lambda>_. reached opn (insert (ok c) A) p p) (settled opn W)"
      using that by (intro endsI) (fastforce split: prod.splits outcome.splits)
  qed
  show "ends (reached opn A p p) (after (doing E c) (\<lambda>_. after (appendStops [r]) f)) Q (settled opn W)"
    by (rule d) (simp add: appendStops_def at_exit_def)
  show "ends (reached opn A p p) (after (doing E c) (\<lambda>_. after (deferring_call r) f)) Q (settled opn W)"
    by (rule d) (simp add: deferring_call_def at_exit_def)
qed

section \<open>The parts of the commands\<close>

text \<open>
  The stop function of the first querier is lost when dialling the second one panics; \<open>grpc.Dial\<close>
  returns.
\<close>

definition app_dial_returns :: "boot_env \<Rightarrow> bool" where
  "app_dial_returns E \<longleftrightarrow> (\<forall>a b h. is_Ok (does E (DialApp a b) h) \<or> is_Err (does E (DialApp a b) h))"

lemma ends_queriers:
  assumes "app_dial_returns E"
  shows "ends (reached opn A p p) (appending (NewTmAndAppQuerier E a b i))
     (\<lambda>_. reached opn (insert (ok (DialApp b i)) (insert (ok (DialTendermint a)) A)) p p) (settled opn W)"
proof (rule endsI)
  fix s assume s: "reached opn A p p s"
  let ?r = "does E (DialTendermint a) (Calls s)"
  let ?q = "does E (DialApp b i) (Did (DialTendermint a) ?r # Calls s)"
  have q: "is_Ok ?q \<or> is_Err ?q" using assms by (simp add: app_dial_returns_def)
  show "case appending (NewTmAndAppQuerier E a b i) s of (r, s') \<Rightarrow> (case r of
      Ok x \<Rightarrow> reached opn (insert (ok (DialApp b i)) (insert (ok (DialTendermint a)) A)) p p s' | _ \<Rightarrow> settled opn W s')"
  proof (cases ?r)
    case (Ok u)
    then show ?thesis using s q
      by (cases ?q) (auto simp: appending_def NewTmAndAppQuerier_def after_def caught_def reached_def settled_def boot_defs)
  qed (use s in \<open>auto simp: appending_def NewTmAndAppQuerier_def after_def caught_def reached_def settled_def boot_defs\<close>)
qed

lemma ends_OpenStore:
  "ends (reached opn A p p) (common_OpenStore E path opn)
     (\<lambda>(stops, err) s. case err of
         None \<Rightarrow> stops = [CloseHome opn] \<and> reached opn (insert (ok (OpenHome path opn)) A) p p s
       | Some e \<Rightarrow> stops = [] \<and> reached opn A p p s) (settled opn W)"
  by (intro endsI) (auto simp: common_OpenStore_def lookHome_def Let_def after_def caught_def reached_def settled_def boot_defs
      split: outcome.split)

lemma ends_account:
  "ends (reached opn A p p) (unlocking_account E a pw) (\<lambda>_. reached opn (insert (ok (UnlockAccount a pw)) A) p p) (settled opn W)"
  by (intro endsI) (auto simp: unlocking_account_def after_def caught_def reached_def settled_def boot_defs
      split: outcome.split)

definition telemetry_calls :: "telemetry_config \<Rightarrow> boot_event set" where
  "telemetry_calls cfg =
     (if Metrics cfg then {ok (StartTelemetry (Endpoint cfg) (TLS cfg)), ok (StartPrometheus (P2PEndpoint cfg))} else {})"

lemma ends_telemetry:
  "ends (reached opn A p p) (with_telemetry E cfg) (\<lambda>_. reached opn (telemetry_calls cfg \<union> A) p p) (settled opn W)"
proof (cases "Metrics cfg")
  case True
  have "ends (reached opn A' p p) (after (doing E (StartPrometheus l)) (\<lambda>_. after (appendStops [StopPrometheus]) give))
      (\<lambda>_. reached opn (insert (ok (StartPrometheus l)) A') p p) (settled opn W)" for A' l
    by (rule ends_acquire(1)) (simp_all add: ends_give)
  then have acquire: "ends (reached opn A p p) (after (doing E (StartTelemetry e b)) (\<lambda>_. after (appendStops [StopTelemetry])
      (\<lambda>_. after (doing E (StartPrometheus l)) (\<lambda>_. appendStops [StopPrometheus]))))
      (\<lambda>_. reached opn (insert (ok (StartPrometheus l)) (insert (ok (StartTelemetry e b)) A)) p p) (settled opn W)" for e b l
    unfolding after_give by (intro ends_acquire(1)) simp_all
  have "ends (reached opn A p p) (with_telemetry E cfg)
      (\<lambda>_. reached opn (insert (ok (StartPrometheus (P2PEndpoint cfg))) (insert (ok (StartTelemetry (Endpoint cfg) (TLS cfg))) A)) p p)
      (settled opn W)"
    using acquire True by (simp add: with_telemetry_def)
  then show ?thesis by (rule ends_post) (use True in \<open>simp add: telemetry_calls_def insert_commute\<close>)
qed (simp add: with_telemetry_def ends_give telemetry_calls_def)

lemma ends_parsed:
  "ends (reached opn A p p) (bootlift r) (\<lambda>x s. r = Ok x \<and> reached opn A p p s) (settled opn W)"
  by (rule ends_value) (rule reached_settled)

lemma ends_identity:
  "ends (reached opn A p p) (identity E n) (\<lambda>k. reached opn (insert (IdentityRead n (Ok k)) A) p p) (settled opn W)"
  by (intro endsI) (auto simp: identity_def Let_def reached_def settled_def boot_defs split: outcome.split)

lemma ends_host:
  "ends (reached opn A p p) (CreateHost E l k reg)
     (\<lambda>_ s. \<exists>key. k = Some key \<and> reached opn (insert (ok (NewHost l (Some key) reg)) A) p p s) (settled opn W)"
proof (cases k)
  case (Some key)
  have "ends (reached opn A p p) (doing E (NewHost l (Some key) reg)) (\<lambda>_. reached opn (insert (ok (NewHost l (Some key) reg)) A) p p) (settled opn W)"
    by (rule ends_doing) simp_all
  then show ?thesis unfolding CreateHost_def Some
    by (intro ends_after [OF ends_bootlift [OF reached_settled]]) (auto intro: ends_post)
qed (auto simp: CreateHost_def intro!: ends_after [OF ends_bootlift [OF reached_settled]] ends_failing reached_settled)

lemma ends_await:
  "ends (reached opn A False False) (doing E AwaitPeers) (\<lambda>_. reached opn (insert (ok AwaitPeers) A) True False) (settled opn W)"
  by (intro endsI) (auto simp: reached_def settled_def boot_defs split: outcome.split)

text \<open>What makes a node of the network: its identity, the host with this identity, the DHT with the bootstrappers.\<close>

definition node_events :: "string \<Rightarrow> string \<Rightarrow> bool \<Rightarrow> privkey \<Rightarrow> string list \<Rightarrow> boot_event set" where
  "node_events nickname listen reg key infos = {IdentityRead nickname (Ok (Some key)), ok (NewHost listen (Some key) reg),
     ok (NewDht infos), ok AwaitPeers}"

lemma ends_dht:
  "ends (reached opn A False False) (CreateDHTAndWaitForPeers E n l bs reg)
     (\<lambda>_ s. \<exists>key infos. bootstrapInfos E bs = Ok infos \<and> reached opn (node_events n l reg key infos \<union> A) True False s) (settled opn W)"
proof -
  have net: "ends (reached opn A' False False) (after (bootlift (bootstrapInfos E bs)) (\<lambda>infos.
        after (doing E (NewDht infos)) (\<lambda>_. doing E AwaitPeers)))
      (\<lambda>_ s. \<exists>infos. bootstrapInfos E bs = Ok infos \<and>
        reached opn (insert (ok AwaitPeers) (insert (ok (NewDht infos)) A')) True False s) (settled opn W)" for A'
  proof (rule ends_after [OF ends_parsed], rule ends_conj)
    fix infos assume i: "bootstrapInfos E bs = Ok infos"
    have "ends (reached opn A' False False) (after (doing E (NewDht infos)) (\<lambda>_. doing E AwaitPeers))
        (\<lambda>_. reached opn (insert (ok AwaitPeers) (insert (ok (NewDht infos)) A')) True False) (settled opn W)"
      by (rule ends_after [OF ends_doing ends_await]) simp_all
    then show "ends (reached opn A' False False) (after (doing E (NewDht infos)) (\<lambda>_. doing E AwaitPeers))
        (\<lambda>_ s. \<exists>infos. bootstrapInfos E bs = Ok infos \<and>
          reached opn (insert (ok AwaitPeers) (insert (ok (NewDht infos)) A')) True False s) (settled opn W)"
      by (rule ends_post) (use i in blast)
  qed
  show ?thesis
    unfolding CreateDHTAndWaitForPeers_def
  proof (rule ends_after [OF ends_identity], rule ends_after [OF ends_host], rule ends_ex, rule ends_conj)
    fix k :: "privkey option" and key assume k: "k = Some key"
    show "ends (reached opn (insert (ok (NewHost l (Some key) reg)) (insert (IdentityRead n (Ok k)) A)) False False)
        (after (bootlift (bootstrapInfos E bs)) (\<lambda>infos. after (doing E (NewDht infos)) (\<lambda>_. doing E AwaitPeers)))
        (\<lambda>_ s. \<exists>key infos. bootstrapInfos E bs = Ok infos \<and> reached opn (node_events n l reg key infos \<union> A) True False s) (settled opn W)"
      by (rule ends_post [OF net]) (use k in \<open>auto simp: node_events_def reached_def\<close>)
  qed
qed

section \<open>The commands\<close>

text \<open>What the two services need before they serve, for a P2P identity and the parsed bootstrappers.\<close>

definition relayer_needs :: "StartConfig \<Rightarrow> privkey \<Rightarrow> string list \<Rightarrow> boot_event set" where
  "relayer_needs cfg key infos = {ok (DialTendermint (CoreRPC cfg)), ok (DialApp (CoreGRPC cfg) (GrpcInsecure cfg)),
     ok (OpenHome (Home cfg) relayer_store), ok (UnlockAccount (evmAccAddress cfg) (EVMPassphrase cfg)), ok MakeMeters} \<union>
     telemetry_calls (MetricsConfig cfg) \<union>
     node_events (p2pNickname cfg) (P2PListenAddr cfg) (Metrics (MetricsConfig cfg)) key infos \<union>
     {ok (DialEvm (EvmRPC cfg)), ok (BindContract (ContractAddr cfg))}"

definition orchestrator_needs :: "OrchStartConfig \<Rightarrow> privkey \<Rightarrow> string list \<Rightarrow> boot_event set" where
  "orchestrator_needs cfg key infos = {ok (DialTendermint (OCoreRPC cfg)), ok (DialApp (OCoreGRPC cfg) (GRPCInsecure cfg)),
     ok (OpenHome (OHome cfg) orchestrator_store), ok (UnlockAccount (EvmAccAddress cfg) (OEVMPassphrase cfg)), ok MakeMeters} \<union>
     telemetry_calls (OMetricsConfig cfg) \<union>
     node_events (P2pNickname cfg) (OP2PListenAddr cfg) (Metrics (OMetricsConfig cfg)) key infos"

definition relayer_has :: "boot_env \<Rightarrow> StartConfig \<Rightarrow> boot_event set \<Rightarrow> bool" where
  "relayer_has E cfg X \<longleftrightarrow> (\<exists>key infos. bootstrapInfos E (Bootstrappers cfg) = Ok infos \<and> relayer_needs cfg key infos \<subseteq> X)"

definition orchestrator_has :: "boot_env \<Rightarrow> OrchStartConfig \<Rightarrow> boot_event set \<Rightarrow> bool" where
  "orchestrator_has E cfg X \<longleftrightarrow> (\<exists>key infos. bootstrapInfos E (OBootstrappers cfg) = Ok infos \<and> orchestrator_needs cfg key infos \<subseteq> X)"

lemma ends_register:
  assumes "\<And>u. ends (reached opn A True True) (f u) Q (settled opn W)"
  shows "ends (reached opn A True False)
     (after (appendStops [CloseDht]) (\<lambda>_. after (appendStops [CloseHome opn]) f)) Q (settled opn W)"
proof (rule endsI)
  fix s assume s: "reached opn A True False s"
  let ?s = "s\<lparr>StopFuncs := (StopFuncs s @ [CloseDht]) @ [CloseHome opn]\<rparr>"
  have "reached opn A True True ?s" using s by (auto simp: reached_def boot_defs)
  from endsD [OF assms this]
  show "case after (appendStops [CloseDht]) (\<lambda>_. after (appendStops [CloseHome opn]) f) s of (r, s') \<Rightarrow>
      (case r of Ok x \<Rightarrow> Q x s' | _ \<Rightarrow> settled opn W s')"
    by (simp add: after_def appendStops_def split: prod.split)
qed

lemma ends_serve:
  assumes "\<And>X. A \<subseteq> X \<Longrightarrow> W X"
  shows "ends (reached opn A p p) (doing E Serve) (\<lambda>_. settled opn W) (settled opn W)"
  using assms by (intro endsI) (auto simp: reached_def settled_def boot_defs split: outcome.split intro!: assms)

text \<open>
  The two commands differ in how they look at the error of opening the store, in what they do once the
  DHT has peers, and in their configurations.
\<close>

locale service_start =
  fixes E :: boot_env and core grpc :: string and insecure :: bool and dir :: string and opts :: open_options
    and account pass nickname listen bs :: string and metrics :: telemetry_config
    and check :: "boot_call list \<Rightarrow> go_error option \<Rightarrow> unit boot" and serve :: "unit boot" and W :: "boot_event set \<Rightarrow> bool"
  assumes opened: "check stops None = give ()"
    and refused_home: "check [] (Some e) s = (Err e, s)"
    and serves: "bootstrapInfos E bs = Ok infos \<Longrightarrow>
      {ok (DialTendermint core), ok (DialApp grpc insecure), ok (OpenHome dir opts), ok (UnlockAccount account pass), ok MakeMeters} \<union>
        telemetry_calls metrics \<union> node_events nickname listen (Metrics metrics) key infos \<subseteq> A \<Longrightarrow>
      ends (reached opts A True True) serve (\<lambda>_. settled opts W) (settled opts W)"
begin

definition acquired :: "boot_event set" where
  "acquired = insert (ok (OpenHome dir opts)) (insert (ok (DialApp grpc insecure)) (insert (ok (DialTendermint core)) {}))"

lemma ends_check:
  "ends (\<lambda>s. case err of None \<Rightarrow> stops = [CloseHome opts] \<and> reached opts acquired False False s
      | Some e \<Rightarrow> stops = [] \<and> reached opts A False False s)
    (check stops err) (\<lambda>_ s. stops = [CloseHome opts] \<and> reached opts acquired False False s) (settled opts W)"
  by (cases err) (auto simp: opened refused_home ends_def give_def reached_settled)

lemma ends_with_store:
  "ends (\<lambda>s. stops = [CloseHome opts] \<and> reached opts acquired False False s)
    (after (unlocking_account E account pass) (\<lambda>_.
     after (doing E MakeMeters) (\<lambda>_.
     after (with_telemetry E metrics) (\<lambda>_.
     after (CreateDHTAndWaitForPeers E nickname listen bs (Metrics metrics)) (\<lambda>_.
     after (appendStops [CloseDht]) (\<lambda>_.
     after (appendStops stops) (\<lambda>_. serve)))))))
    (\<lambda>_. settled opts W) (settled opts W)"
proof (rule ends_conj)
  assume s: "stops = [CloseHome opts]"
  have m: "ends (reached opts A False False) (doing E MakeMeters) (\<lambda>_. reached opts (insert (ok MakeMeters) A) False False) (settled opts W)" for A
    by (rule ends_doing) simp_all
  show "ends (reached opts acquired False False)
    (after (unlocking_account E account pass) (\<lambda>_.
     after (doing E MakeMeters) (\<lambda>_.
     after (with_telemetry E metrics) (\<lambda>_.
     after (CreateDHTAndWaitForPeers E nickname listen bs (Metrics metrics)) (\<lambda>_.
     after (appendStops [CloseDht]) (\<lambda>_.
     after (appendStops stops) (\<lambda>_. serve)))))))
    (\<lambda>_. settled opts W) (settled opts W)"
    unfolding s
    by (rule ends_after [OF ends_account], rule ends_after [OF m], rule ends_after [OF ends_telemetry],
        rule ends_after [OF ends_dht], (rule ends_ex)+, rule ends_conj, rule ends_register, rule serves)
      (auto simp: acquired_def)
qed

lemma ends_start:
  assumes "app_dial_returns E"
  shows "ends (reached opts {} False False)
    (after (appending (NewTmAndAppQuerier E core grpc insecure)) (\<lambda>_.
     after (common_OpenStore E dir opts) (\<lambda>(stops, err).
     after (check stops err) (\<lambda>_.
     after (unlocking_account E account pass) (\<lambda>_.
     after (doing E MakeMeters) (\<lambda>_.
     after (with_telemetry E metrics) (\<lambda>_.
     after (CreateDHTAndWaitForPeers E nickname listen bs (Metrics metrics)) (\<lambda>_.
     after (appendStops [CloseDht]) (\<lambda>_.
     after (appendStops stops) (\<lambda>_. serve))))))))))
    (\<lambda>_. settled opts W) (settled opts W)"
  by (intro ends_after [OF ends_queriers [OF assms]] ends_after [OF ends_OpenStore])
    (auto split: prod.split intro!: ends_after [OF ends_check [unfolded acquired_def] ends_with_store [unfolded acquired_def]])

end

interpretation relayer_service: service_start E "CoreRPC cfg" "CoreGRPC cfg" "GrpcInsecure cfg" "Home cfg" relayer_store
    "evmAccAddress cfg" "EVMPassphrase cfg" "p2pNickname cfg" "P2PListenAddr cfg" "Bootstrappers cfg" "MetricsConfig cfg"
    "\<lambda>_. failOn" "after (doing E (DialEvm (EvmRPC cfg))) (\<lambda>_. after (deferring_call CloseEvm) (\<lambda>_.
        after (doing E (BindContract (ContractAddr cfg))) (\<lambda>_. doing E Serve)))" "relayer_has E cfg" for E cfg
proof (unfold_locales, goal_cases)
  case (3 infos key A)
  have bind: "ends (reached relayer_store A' True True) (doing E (BindContract c))
      (\<lambda>_. reached relayer_store (insert (ok (BindContract c)) A') True True) (settled relayer_store (relayer_has E cfg))" for A' c
    by (rule ends_doing) simp_all
  have has: "relayer_has E cfg X" if "insert (ok (BindContract (ContractAddr cfg))) (insert (ok (DialEvm (EvmRPC cfg))) A) \<subseteq> X" for X
    unfolding relayer_has_def relayer_needs_def using 3 that by (intro exI [of _ key] exI [of _ infos]) auto
  show ?case
    by (rule ends_acquire(2), simp_all, rule ends_after [OF bind], rule ends_serve, rule has)
qed (simp_all add: failOn_def failing_def)

interpretation orchestrator_service: service_start E "OCoreRPC cfg" "OCoreGRPC cfg" "GRPCInsecure cfg" "OHome cfg" orchestrator_store
    "EvmAccAddress cfg" "OEVMPassphrase cfg" "P2pNickname cfg" "OP2PListenAddr cfg" "OBootstrappers cfg" "OMetricsConfig cfg"
    "\<lambda>stops err. case err of None \<Rightarrow> give () | Some e \<Rightarrow> after (appendStops stops) (\<lambda>_. failing e)"
    "after (caught (doing E Serve)) (\<lambda>_. give ())" "orchestrator_has E cfg" for E cfg
proof (unfold_locales, goal_cases)
  case (3 infos key A)
  have has: "orchestrator_has E cfg X" if "A \<subseteq> X" for X
    unfolding orchestrator_has_def orchestrator_needs_def using 3 that by (intro exI [of _ key] exI [of _ infos]) auto
  show ?case by (intro endsI)
    (auto simp: after_def caught_def give_def reached_settled reached_def settled_def boot_defs split: outcome.split intro!: has)
qed (simp_all add: after_def appendStops_def failing_def)

lemma ends_relayer:
  "app_dial_returns E \<Longrightarrow> ends (reached relayer_store {} False False) (relayer_main E cfg)
    (\<lambda>_. settled relayer_store (relayer_has E cfg)) (settled relayer_store (relayer_has E cfg))"
  unfolding relayer_main_def by (rule relayer_service.ends_start)

lemma ends_orchestrator:
  "app_dial_returns E \<Longrightarrow> ends (reached orchestrator_store {} False False) (orchestrator_main E cfg)
    (\<lambda>_. settled orchestrator_store (orchestrator_has E cfg)) (settled orchestrator_store (orchestrator_has E cfg))"
  unfolding orchestrator_main_def by (rule orchestrator_service.ends_start)

section \<open>The end of a command\<close>

lemma run_stops_append:
  "\<exists>t. run_stops E cs h = t @ h \<and> (\<forall>c. (\<exists>a. Did c a \<in> set t) \<longleftrightarrow> c \<in> set cs)"
proof (induction cs arbitrary: h)
  case (Cons c cs)
  let ?h = "Did c (does E c h) # h"
  obtain t where "run_stops E cs ?h = t @ ?h" "\<forall>c. (\<exists>a. Did c a \<in> set t) \<longleftrightarrow> c \<in> set cs" using Cons.IH by blast
  then show ?case by (intro exI [of _ "t @ [Did c (does E c h)]"]) auto
qed simp

text \<open>What is lost: the host always, the store and the DHT when no peers were found.\<close>

fun lost :: "boot_event list \<Rightarrow> boot_call \<Rightarrow> bool" where
  "lost t (NewHost a k b) = True"
| "lost t (NewDht infos) = (ok AwaitPeers \<notin> set t)"
| "lost t (OpenHome a opts) = (ok AwaitPeers \<notin> set t)"
| "lost t c = False"

text \<open>In a history, latest first, an acquisition is followed by its release exactly when it is not lost.\<close>

definition gives_back :: "boot_event list \<Rightarrow> bool" where
  "gives_back t \<longleftrightarrow> (\<forall>later c r earlier. t = later @ ok c # earlier \<longrightarrow> release_of c = Some r \<longrightarrow>
     ((\<exists>a. Did r a \<in> set later) \<longleftrightarrow> \<not> lost t c))"

lemma start_reached: "reached opn {} False False \<lparr>StopFuncs = [], Deferred = [], Calls = []\<rparr>"
  by (simp add: reached_def boot_defs)

lemma settled_releases:
  assumes "settled opn W s" and "ok c \<in> set (Calls s)" and "release_of c = Some r" and "ok AwaitPeers \<in> set (Calls s) \<longleftrightarrow> ok AwaitPeers \<in> set t"
  shows "r \<in> at_exit s \<longleftrightarrow> \<not> lost t c"
proof (cases "held_back c")
  case True
  then show ?thesis using assms by (cases c) (auto simp: settled_def exits_def)
next
  case False
  then have "r \<in> at_exit s" using assms(1-3) by (auto simp: settled_def covered_def)
  moreover have "\<not> lost t c" using False by (cases c) simp_all
  ultimately show ?thesis by simp
qed

lemma finishing_state:
  assumes "ends (reached opn {} False False) m (\<lambda>_. settled opn W) (settled opn W)" and "finishing E m = (r, t)"
  obtains s u where "settled opn W s" and "t = (if r = Blocked then Calls s else u @ Calls s)"
    and "\<And>c. (\<exists>a. Did c a \<in> set u) \<longleftrightarrow> c \<in> at_exit s"
proof -
  obtain s where m: "m \<lparr>StopFuncs = [], Deferred = [], Calls = []\<rparr> = (r, s)"
    and t: "t = (if r = Blocked then Calls s else run_stops E (Deferred s @ StopFuncs s) (Calls s))"
    using assms(2) by (auto simp: finishing_def split: prod.splits)
  have s: "settled opn W s" using endsD [OF assms(1) start_reached m] by (cases r) simp_all
  obtain u where u: "run_stops E (Deferred s @ StopFuncs s) (Calls s) = u @ Calls s"
    "\<And>c. (\<exists>a. Did c a \<in> set u) \<longleftrightarrow> c \<in> at_exit s"
    using run_stops_append [of E "Deferred s @ StopFuncs s" "Calls s"] unfolding at_exit_def by blast
  show thesis by (rule that [OF s _ u(2)]) (simp add: t u(1))
qed

lemma finishing_settled:
  assumes "ends (reached opn {} False False) m (\<lambda>_. settled opn W) (settled opn W)" and "finishing E m = (r, t)" and "r \<noteq> Blocked"
  shows "gives_back t"
proof -
  obtain s u where s: "settled opn W s" and u: "t = u @ Calls s" "\<And>c. (\<exists>a. Did c a \<in> set u) \<longleftrightarrow> c \<in> at_exit s"
    using finishing_state [OF assms(1,2)] assms(3) by metis
  have rel: "is_release c" if "Did c a \<in> set u" for c a
    using that u(2) s by (auto simp: settled_def covered_def)
  have old: "Did c a \<in> set t \<longleftrightarrow> Did c a \<in> set (Calls s)" if "\<not> is_release c" for c a using that rel u(1) by auto
  show "gives_back t"
    unfolding gives_back_def
  proof (intro allI impI)
    fix later c r' earlier assume l: "t = later @ ok c # earlier" and c: "release_of c = Some r'"
    have "ok c \<notin> set u" using rel [of c] is_releaseD [of c] c by auto
    then obtain v where v: "later = u @ v" "Calls s = v @ ok c # earlier"
      using l unfolding u(1) by (auto simp: append_eq_append_conv2 append_eq_Cons_conv)
    have peers: "ok AwaitPeers \<in> set (Calls s) \<longleftrightarrow> ok AwaitPeers \<in> set t" using old [of AwaitPeers "Ok ()"] by simp
    have "r' \<in> at_exit s \<longleftrightarrow> \<not> lost t c" by (rule settled_releases [OF s _ c peers]) (simp add: v(2))
    moreover have "is_release r'" using c by (cases c) auto
    then have "Did r' a \<notin> set v" for a using s v(2) by (auto simp: settled_def covered_def)
    then have "(\<exists>a. Did r' a \<in> set later) \<longleftrightarrow> r' \<in> at_exit s" using u(2) v(1) by auto
    ultimately show "(\<exists>a. Did r' a \<in> set later) \<longleftrightarrow> \<not> lost t c" by simp
  qed
qed

lemma finishing_serves:
  assumes "ends (reached opn {} False False) m (\<lambda>_. settled opn W) (settled opn W)" and "finishing E m = (r, t)"
    and "Did Serve a \<in> set t" and mono: "\<And>X Y. W X \<Longrightarrow> X \<subseteq> Y \<Longrightarrow> W Y"
  shows "W (set t)"
proof -
  obtain s u where s: "settled opn W s" and t: "t = (if r = Blocked then Calls s else u @ Calls s)"
    and u: "\<And>c. (\<exists>a. Did c a \<in> set u) \<longleftrightarrow> c \<in> at_exit s"
    using finishing_state [OF assms(1,2)] by metis
  have "Serve \<notin> at_exit s" using s by (auto simp: settled_def covered_def)
  then have "Did Serve a \<notin> set u" using u by blast
  then have "W (set (Calls s))" using s assms(3) t by (auto simp: settled_def serving_def split: if_splits)
  then show ?thesis by (rule mono) (auto simp: t)
qed

section \<open>Properties\<close>

text \<open>
  C36: Whatever fails on the way, and also when the service itself ends, the start commands of the
  relayer and the orchestrator give back what they acquired, after they acquired it: both queriers,
  the unlocked account, telemetry, the EVM client; the store and the DHT exactly when the DHT
  found peers, so that both stay open, the store with its lock, when anything fails before that;
  and never the libp2p host.
\<close>

theorem start_commands_give_back:
  assumes "app_dial_returns E" and "relayer_Start E cfg = (r, t) \<or> orchestrator_Start E ocfg = (r, t)" and "r \<noteq> Blocked"
    and "t = later @ ok c # earlier" and "release_of c = Some r'"
  shows "(\<exists>a. Did r' a \<in> set later) \<longleftrightarrow> \<not> lost t c"
proof -
  consider c where "finishing E (relayer_main E c) = (r, t)" | c where "finishing E (orchestrator_main E c) = (r, t)"
    using assms(2,4) by (auto simp: relayer_Start_def orchestrator_Start_def split: outcome.splits)
  then have "gives_back t"
    by cases (use finishing_settled [OF ends_relayer [OF assms(1)] _ assms(3)]
      finishing_settled [OF ends_orchestrator [OF assms(1)] _ assms(3)] in blast)+
  then show ?thesis using assms(4,5) unfolding gives_back_def by blast
qed

text \<open>The account cannot be unlocked.\<close>

definition sample_boot :: boot_env where
  "sample_boot = \<lparr>does = (\<lambda>c _. if c = UnlockAccount [] [] then Err (Ext ''locked'') else Ok ()), boot_is_init = (\<lambda>_ _ _. True),
     boot_identity = (\<lambda>_ _. Ok (Some [])), boot_multiaddr = (\<lambda>_. Ok ()), boot_peer = Ok, boot_ctx_done = (\<lambda>_. True)\<rparr>"

theorem start_commands_give_back_witness:
  "\<exists>later earlier. snd (relayer_Start sample_boot (Ok DefaultStartConfig)) = later @ ok (DialTendermint (CoreRPC DefaultStartConfig)) # earlier \<and>
     (\<exists>a. Did StopTendermint a \<in> set later)"
proof -
  have d: "app_dial_returns sample_boot" by (simp add: app_dial_returns_def sample_boot_def)
  have run: "\<exists>t. relayer_Start sample_boot (Ok DefaultStartConfig) = (Err (Ext ''locked''), t) \<and>
      ok (DialTendermint (CoreRPC DefaultStartConfig)) \<in> set t"
    by (simp add: relayer_Start_def finishing_def relayer_main_def sample_boot_def DefaultStartConfig_def after_def appending_def
        NewTmAndAppQuerier_def caught_def doing_def give_def appendStops_def failOn_def failing_def common_OpenStore_def
        lookHome_def Let_def unlocking_account_def)
  then obtain t later earlier where t: "relayer_Start sample_boot (Ok DefaultStartConfig) = (Err (Ext ''locked''), t)"
    "t = later @ ok (DialTendermint (CoreRPC DefaultStartConfig)) # earlier" by (metis split_list)
  have "\<exists>a. Did StopTendermint a \<in> set later" using start_commands_give_back [OF d disjI1 [OF t(1)] _ t(2)] by simp
  then show ?thesis using t by (intro exI [of _ later] exI [of _ earlier]) simp
qed

text \<open>No peer is found: the DHT stays open although it was created, and so does the store.\<close>

definition lonely_boot :: boot_env where
  "lonely_boot = sample_boot\<lparr>does := (\<lambda>c _. if c = AwaitPeers then Err (Ext ''timeout'') else Ok ())\<rparr>"

theorem dht_and_store_can_leak:
  "\<exists>t. relayer_Start lonely_boot (Ok DefaultStartConfig) = (Err (Ext ''timeout''), t) \<and> ok (NewDht []) \<in> set t \<and>
     ok (OpenHome (Home DefaultStartConfig) relayer_store) \<in> set t \<and> (\<forall>a. Did CloseDht a \<notin> set t) \<and>
     (\<forall>opts a. Did (CloseHome opts) a \<notin> set t)"
  by (simp add: relayer_Start_def finishing_def relayer_main_def lonely_boot_def sample_boot_def DefaultStartConfig_def after_def
      appending_def NewTmAndAppQuerier_def caught_def doing_def give_def appendStops_def failOn_def failing_def
      common_OpenStore_def lookHome_def Let_def unlocking_account_def with_telemetry_def CreateDHTAndWaitForPeers_def
      identity_def CreateHost_def bootlift_def bootstrapInfos_def)

definition relayer_ready :: "boot_env \<Rightarrow> (string \<Rightarrow> bool) \<Rightarrow> StartConfig \<Rightarrow> boot_event list \<Rightarrow> bool" where
  "relayer_ready E isHex cfg t \<longleftrightarrow> relayer_has E cfg (set t) \<and> isHex (ContractAddr cfg) \<and>
     isHex (evmAccAddress cfg) \<and> (isBackupRelayer cfg \<longrightarrow> backupRelayerWaitTime cfg \<noteq> 0)"

definition orchestrator_ready :: "boot_env \<Rightarrow> (string \<Rightarrow> bool) \<Rightarrow> OrchStartConfig \<Rightarrow> boot_event list \<Rightarrow> bool" where
  "orchestrator_ready E isHex cfg t \<longleftrightarrow> orchestrator_has E cfg (set t) \<and> isHex (EvmAccAddress cfg)"

lemma valid_address: "mapErr f (ValidateEVMAddress isHex x) = Ok () \<Longrightarrow> isHex x"
  by (auto simp: ValidateEVMAddress_def split: if_splits)

lemma relayer_serves:
  assumes "app_dial_returns E" and "relayer_Start E (relayer_config K isHex C Os load F) = (r, t)" and "Did Serve a \<in> set t"
  shows "\<exists>cfg. relayer_config K isHex C Os load F = Ok cfg \<and> relayer_ready E isHex cfg t"
proof -
  obtain cfg where c: "relayer_config K isHex C Os load F = Ok cfg" "finishing E (relayer_main E cfg) = (r, t)"
    using assms(2,3) by (cases "relayer_config K isHex C Os load F") (auto simp: relayer_Start_def)
  have "ValidateBasics isHex cfg = Ok ()" using c(1) by (auto simp: relayer_config_def obind_eq_Ok)
  moreover have "relayer_has E cfg (set t)"
    by (rule finishing_serves [OF ends_relayer [OF assms(1)] c(2) assms(3)]) (auto simp: relayer_has_def)
  ultimately show ?thesis using c valid_address
    by (auto simp: relayer_ready_def ValidateBasics_def obind_eq_Ok split: if_splits)
qed

lemma orchestrator_serves:
  assumes "app_dial_returns E" and "orchestrator_Start E (orchestrator_config K isHex C Os load F) = (r, t)"
    and "Did Serve a \<in> set t"
  shows "\<exists>cfg. orchestrator_config K isHex C Os load F = Ok cfg \<and> orchestrator_ready E isHex cfg t"
proof -
  obtain cfg where c: "orchestrator_config K isHex C Os load F = Ok cfg" "finishing E (orchestrator_main E cfg) = (r, t)"
    using assms(2,3) by (cases "orchestrator_config K isHex C Os load F") (auto simp: orchestrator_Start_def)
  have "OrchValidateBasics isHex cfg = Ok ()" using c(1) by (auto simp: orchestrator_config_def obind_eq_Ok)
  moreover have "orchestrator_has E cfg (set t)"
    by (rule finishing_serves [OF ends_orchestrator [OF assms(1)] c(2) assms(3)]) (auto simp: orchestrator_has_def)
  ultimately show ?thesis using c valid_address
    by (auto simp: orchestrator_ready_def OrchValidateBasics_def)
qed

text \<open>
  C37: When the relayer serves, its configuration passed every check and everything it needs is
  there, with the values of that configuration: both queriers, the home it opened, the unlocked
  account, the meters, telemetry if it is wanted, the P2P identity of the nickname and a host with
  this identity at the listen address, a DHT with the parsed bootstrappers that has found peers,
  and the contract at a well-formed address. The same for the orchestrator.
\<close>

theorem services_start_ready:
  assumes "app_dial_returns E"
  shows "(\<forall>r t a. relayer_Start E (relayer_config K isHex C Os load F) = (r, t) \<longrightarrow> Did Serve a \<in> set t \<longrightarrow>
      (\<exists>cfg. relayer_config K isHex C Os load F = Ok cfg \<and> relayer_ready E isHex cfg t)) \<and>
    (\<forall>r t a. orchestrator_Start E (orchestrator_config K isHex C Os loadO F) = (r, t) \<longrightarrow> Did Serve a \<in> set t \<longrightarrow>
      (\<exists>cfg. orchestrator_config K isHex C Os loadO F = Ok cfg \<and> orchestrator_ready E isHex cfg t))"
  using relayer_serves [OF assms] orchestrator_serves [OF assms] by blast

text \<open>Every call succeeds; the flags name an account and the file a contract.\<close>

definition calm_boot :: boot_env where
  "calm_boot = sample_boot\<lparr>does := (\<lambda>_ _. Ok ())\<rparr>"

definition named_flags :: flag_set where
  "named_flags = \<lparr>Changed = (\<lambda>_. False), GetString = (\<lambda>_. Ok ''0x1''), GetBool = (\<lambda>_. Ok False), GetUint64 = (\<lambda>_. Ok 1)\<rparr>"

definition calm_keys :: key_lib where
  "calm_keys = key_libs\<lparr>ParseLevel := (\<lambda>_. Ok ())\<rparr>"

definition calm_config :: "StartConfig outcome" where
  "calm_config = relayer_config calm_keys (\<lambda>_. True) home_command home_os
     (\<lambda>_. Ok (DefaultStartConfig\<lparr>ContractAddr := ''0x1''\<rparr>)) named_flags"

theorem services_start_ready_witness:
  "\<exists>cfg t. relayer_Start calm_boot calm_config = (Ok (), t) \<and> calm_config = Ok cfg \<and> relayer_ready calm_boot (\<lambda>_. True) cfg t"
proof -
  have d: "app_dial_returns calm_boot" by (simp add: app_dial_returns_def calm_boot_def)
  have "is_Ok calm_config"
    by (simp add: calm_config_def relayer_config_def GetHomeDirectory_def flag_getters named_flags_def DefaultServicePath_def
        home_os_def home_command_def Let_def parseRelayerStartFlags_def setting_def always_def DefaultStartConfig_def
        ValidateBasics_def ValidateEVMAddress_def GetLogger_def calm_keys_def)
  then obtain cfg where cfg: "calm_config = Ok cfg" by (auto simp: is_Ok_iff)
  have infos: "ParseAddrInfos Ok xs = Ok xs" for xs :: "string list" by (induction xs) simp_all
  have calm: "doing calm_boot c = (\<lambda>s. (Ok (), s\<lparr>Calls := Did c (Ok ()) # Calls s\<rparr>))" for c
    by (simp add: doing_def calm_boot_def fun_eq_iff)
  have fields: "boot_identity calm_boot n h = Ok (Some [])" "boot_multiaddr calm_boot l = Ok ()" "boot_peer calm_boot = Ok"
    "boot_is_init calm_boot p opts h = True" for n h l p opts by (simp_all add: calm_boot_def sample_boot_def)
  have dht: "\<exists>s'. CreateDHTAndWaitForPeers calm_boot n l bs reg s = (Ok (), s') \<and> StopFuncs s' = StopFuncs s" for n l bs reg s
    by (cases "bs = []") (simp_all add: CreateDHTAndWaitForPeers_def CreateHost_def after_def identity_def bootlift_def
        bootstrapInfos_def infos calm Let_def fields)
  obtain s1 where s1: "CreateDHTAndWaitForPeers calm_boot n l bs reg s = (Ok (), s1 n l bs reg s)" for n l bs reg s
    using dht by metis
  have kept: "e \<in> set h \<Longrightarrow> e \<in> set (run_stops calm_boot cs h)" for e cs h
    using run_stops_append [of calm_boot cs h] by auto
  have "\<exists>t. relayer_Start calm_boot (Ok cfg) = (Ok (), t) \<and> Did Serve (Ok ()) \<in> set t"
    by (simp add: kept relayer_Start_def finishing_def relayer_main_def after_def appending_def calm s1
        NewTmAndAppQuerier_def caught_def give_def appendStops_def failOn_def common_OpenStore_def deferring_call_def
        lookHome_def Let_def unlocking_account_def with_telemetry_def fields)
  then obtain t where t: "relayer_Start calm_boot calm_config = (Ok (), t)" "Did Serve (Ok ()) \<in> set t" unfolding cfg by blast
  show ?thesis
    using services_start_ready [OF d, of calm_keys "\<lambda>_. True" home_command home_os
        "\<lambda>_. Ok (DefaultStartConfig\<lparr>ContractAddr := ''0x1''\<rparr>)" named_flags] t
    unfolding calm_config_def by blast
qed

section \<open>Failing queries\<close>

text \<open>
  When the set-up of a query fails after the queriers were dialled, \<open>signature\<close> stops them and
  \<open>signers\<close> does not.
\<close>

lemma startResources_stops:
  assumes "startResources E cfg s = (Ok (stops, err), s')"
  shows "StopFuncs s' = StopFuncs s \<and> Deferred s' = Deferred s"
proof -
  define P where "P s' \<longleftrightarrow> StopFuncs s' = StopFuncs s \<and> Deferred s' = Deferred s" for s' :: boot_state
  have did: "ends P (doing E c) (\<lambda>_. P) P" for c by (rule endsI) (simp add: doing_def P_def split: outcome.splits)
  have looked: "ends P m (\<lambda>_. P) P \<Longrightarrow> ends P (caught m) (\<lambda>_. P) P" for m :: "unit boot"
    by (rule endsI) (auto simp: caught_def dest: endsD split: prod.splits outcome.splits)
  have given: "ends P (give x) (\<lambda>_. P) P" for x :: 'b by (rule ends_give)
  have connected: "ends P (connectTarget E addr n) (\<lambda>_. P) P" for addr n
    by (induction n) (auto intro!: ends_after looked did ends_give split: option.splits)
  have node: "ends P (after (doing E (NewHost [] None False)) (\<lambda>_. after (bootlift (boot_peer E (targetNode cfg))) (\<lambda>addrInfo.
      after (connectTarget E addrInfo 5) (\<lambda>_. doing E (NewDht []))))) (\<lambda>_. P) P"
    by (rule ends_after ends_bootlift did connected | assumption)+
  have "ends P (startResources E cfg) (\<lambda>_. P) P"
    unfolding startResources_def NewTmAndAppQuerier_def
    by (auto intro!: ends_after looked did ends_give node split: option.splits prod.splits)
  from endsD [OF this _ assms] show ?thesis by (simp add: P_def)
qed

lemma failed_queries_stop:
  assumes "startResources E cfg \<lparr>StopFuncs = [], Deferred = [], Calls = []\<rparr> = (Ok (stops, Some e), s)"
  shows "signers_RunE E cfg answer = (Err e, Calls s)"
    and "signature_RunE E cfg answer = (Err e, run_stops E stops (Calls s))"
  using startResources_stops [OF assms]
  by (simp_all add: signers_RunE_def signature_RunE_def finishing_def after_def assms failOn_def failing_def appending_def appendStops_def)

end
