(* ===== verification/InitCmd.thy ===== *)
theory InitCmd imports StoreSafety KeyStoreSafety begin

text \<open>
  The \<open>init\<close> commands of the relayer, the orchestrator and the bootstrapper and the configuration file
  (\<open>relayer/cmd.go\<close>, \<open>orchestrator/cmd.go\<close>, \<open>bootstrapper/cmd.go\<close>, \<open>relayer/config.go\<close>,
  \<open>orchestrator/config.go\<close>) on the file system of the store. The text of the file is in
  \<open>ConfigFile\<close>; here the file is there or not.
\<close>

section \<open>The configuration file\<close>

definition EnsureConfigPath :: "faults \<Rightarrow> string \<Rightarrow> unit sys" where
  "EnsureConfigPath F configPath = os_MkdirAll F configPath"

text \<open>\<open>os.WriteFile\<close>: an error of writing goes before one of closing.\<close>

definition os_WriteFile :: "faults \<Rightarrow> string \<Rightarrow> unit sys" where
  "os_WriteFile F path =
     seq (os_OpenCreate F path) (\<lambda>fd.
     attempt (os_WriteString F fd)
       (\<lambda>_. os_Close F fd)
       (\<lambda>e. attempt (os_Close F fd) (\<lambda>_. sysfail e) (\<lambda>_. sysfail e)))"

text \<open>\<open>rendered\<close> is the outcome of parsing and executing the template.\<close>

definition writeConfigToFile :: "faults \<Rightarrow> unit outcome \<Rightarrow> string \<Rightarrow> unit sys" where
  "writeConfigToFile F rendered configFilePath = seq (syslift rendered) (\<lambda>_. os_WriteFile F configFilePath)"

definition initializeConfigFile :: "faults \<Rightarrow> unit outcome \<Rightarrow> string \<Rightarrow> string \<Rightarrow> unit sys" where
  "initializeConfigFile F rendered configFilePath configPath =
     attempt (EnsureConfigPath F configPath)
       (\<lambda>_. attempt (writeConfigToFile F rendered configFilePath) sysret
          (\<lambda>e. sysfail (Errorf ''could not write config to the file'')))
       (\<lambda>e. sysfail (Errorf ''couldn't make config''))"

definition configDir :: "string \<Rightarrow> string" where
  "configDir homeDir = Join homeDir ''config''"

definition configFile :: "string \<Rightarrow> string" where
  "configFile homeDir = Join (configDir homeDir) ''config.toml''"

text \<open>A missing file is written with the defaults first; any other error of \<open>Stat\<close> is ignored.\<close>

definition LoadFileConfiguration :: "faults \<Rightarrow> unit outcome \<Rightarrow> (string \<Rightarrow> fs \<Rightarrow> 'c outcome) \<Rightarrow> string \<Rightarrow> 'c sys" where
  "LoadFileConfiguration F rendered GetStartConfig homeDir =
     seq (attempt (os_Stat F (configFile homeDir)) sysret
        (\<lambda>e. if e = OsNotExist then initializeConfigFile F rendered (configFile homeDir) (configDir homeDir) else sysret ()))
     (\<lambda>_. attempt (\<lambda>s. (GetStartConfig (configDir homeDir) s, s)) sysret
        (\<lambda>e. sysfail (Errorf ''couldn't get client config'')))"

section \<open>The commands\<close>

definition relayer_init :: init_options where
  "relayer_init = \<lparr>NeedDataStore = True, NeedSignatureStore = True, NeedEVMKeyStore = True, NeedP2PKeyStore = True\<rparr>"

definition orchestrator_init :: init_options where
  "orchestrator_init = \<lparr>NeedDataStore = True, NeedSignatureStore = False, NeedEVMKeyStore = True, NeedP2PKeyStore = True\<rparr>"

definition bootstrapper_init :: init_options where
  "bootstrapper_init = \<lparr>NeedDataStore = False, NeedSignatureStore = False, NeedEVMKeyStore = False, NeedP2PKeyStore = True\<rparr>"

text \<open>The commands are the same but for the options and what they do with a home that is new.\<close>

definition initHome :: "key_lib \<Rightarrow> store_lib \<Rightarrow> faults \<Rightarrow> init_options \<Rightarrow> (string \<Rightarrow> unit sys) \<Rightarrow> InitConfig outcome \<Rightarrow> unit sys" where
  "initHome K B F initOptions rest config =
     seq (syslift config) (\<lambda>config.
     seq (syslift (GetLogger K (logLevel config))) (\<lambda>_.
     seq (IsInit B F (home config) initOptions) (\<lambda>isInit.
     if isInit then sysret ()
     else seq (Init B F (home config) initOptions) (\<lambda>_. rest (home config)))))"

definition relayer_Init :: "key_lib \<Rightarrow> store_lib \<Rightarrow> faults \<Rightarrow> unit outcome \<Rightarrow> InitConfig outcome \<Rightarrow> unit sys" where
  "relayer_Init K B F rendered =
     initHome K B F relayer_init (\<lambda>dir. initializeConfigFile F rendered (configFile dir) (configDir dir))"

definition orchestrator_Init :: "key_lib \<Rightarrow> store_lib \<Rightarrow> faults \<Rightarrow> unit outcome \<Rightarrow> InitConfig outcome \<Rightarrow> unit sys" where
  "orchestrator_Init K B F rendered =
     initHome K B F orchestrator_init (\<lambda>dir. initializeConfigFile F rendered (configFile dir) (configDir dir))"

definition bootstrapper_Init :: "key_lib \<Rightarrow> store_lib \<Rightarrow> faults \<Rightarrow> InitConfig outcome \<Rightarrow> unit sys" where
  "bootstrapper_Init K B F = initHome K B F bootstrapper_init (\<lambda>_. sysret ())"

section \<open>Initialising twice\<close>

lemma os_WriteFile_keeps: "os_WriteFile F path s = (Ok (), s') \<Longrightarrow> keeps s s' {}"
  using open_keeps write_keeps
  by (fastforce simp: os_WriteFile_def seq_eq_Ok attempt_eq_Ok sysfail_def os_Close_def refused_eq_Ok release_def keeps_def)

lemma initializeConfigFile_keeps:
  "initializeConfigFile F rendered file dir s = (Ok (), s') \<Longrightarrow> keeps s s' {}"
  using os_WriteFile_keeps
  by (fastforce simp: initializeConfigFile_def EnsureConfigPath_def writeConfigToFile_def attempt_eq_Ok seq_eq_Ok
      syslift_def os_MkdirAll_def refused_eq_Ok keeps_def split: if_splits)

lemma initHome_again:
  assumes "stats F" and "\<And>s s'. rest (home cfg) s = (Ok (), s') \<Longrightarrow> keeps s s' {}"
    and "storePath B (home cfg) = Ok base" and "base \<noteq> []" and "initHome K B F opts rest (Ok cfg) s = (Ok (), s')"
  shows "initHome K B F opts rest (Ok cfg) s' = (Ok (), s') \<and> fst (IsInit B F (home cfg) opts s') = Ok True"
proof -
  have r: "GetLogger K (logLevel cfg) = Ok () \<and> ready base opts s'"
  proof (cases "ready base opts s")
    case True
    then show ?thesis using assms(5) by (auto simp: initHome_def seq_eq_Ok syslift_def IsInit_run [OF assms(1,3)])
  next
    case False
    then obtain s1 where s1: "GetLogger K (logLevel cfg) = Ok ()" "Init B F (home cfg) opts s = (Ok (), s1)" "rest (home cfg) s1 = (Ok (), s')"
      using assms(5) by (auto simp: initHome_def seq_eq_Ok syslift_def IsInit_run [OF assms(1,3)])
    then show ?thesis using Init_ready [OF assms(1,3,4) s1(2)] assms(2) [OF s1(3)] by (simp add: ready_def keeps_def)
  qed
  then show ?thesis by (simp add: initHome_def seq_def syslift_def IsInit_run [OF assms(1,3)])
qed

section \<open>Properties\<close>

text \<open>
  C38: Initialising is idempotent: after an \<open>init\<close> of a home that ended well, whatever the system refused
  on the way, the same command ends well again and changes nothing, so it does not overwrite an
  edited configuration; and the home passes the check that the start command makes.
\<close>

theorem init_is_idempotent:
  assumes "stats F" and "storePath B (home cfg) = Ok base" and "base \<noteq> []"
  shows "\<forall>s s'. (relayer_Init K B F tmpl (Ok cfg) s = (Ok (), s') \<longrightarrow>
      relayer_Init K B F tmpl (Ok cfg) s' = (Ok (), s') \<and> fst (IsInit B F (home cfg) relayer_init s') = Ok True) \<and>
    (orchestrator_Init K B F tmpl (Ok cfg) s = (Ok (), s') \<longrightarrow>
      orchestrator_Init K B F tmpl (Ok cfg) s' = (Ok (), s') \<and> fst (IsInit B F (home cfg) orchestrator_init s') = Ok True) \<and>
    (bootstrapper_Init K B F (Ok cfg) s = (Ok (), s') \<longrightarrow>
      bootstrapper_Init K B F (Ok cfg) s' = (Ok (), s') \<and> fst (IsInit B F (home cfg) bootstrapper_init s') = Ok True)"
proof -
  have new: "initHome K B F opts (\<lambda>dir. initializeConfigFile F tmpl (configFile dir) (configDir dir)) (Ok cfg) s = (Ok (), s') \<Longrightarrow>
      initHome K B F opts (\<lambda>dir. initializeConfigFile F tmpl (configFile dir) (configDir dir)) (Ok cfg) s' = (Ok (), s') \<and>
      fst (IsInit B F (home cfg) opts s') = Ok True" for opts s s'
    by (rule initHome_again [OF assms(1) _ assms(2,3)]) (rule initializeConfigFile_keeps)
  have none: "initHome K B F opts (\<lambda>_. sysret ()) (Ok cfg) s = (Ok (), s') \<Longrightarrow>
      initHome K B F opts (\<lambda>_. sysret ()) (Ok cfg) s' = (Ok (), s') \<and> fst (IsInit B F (home cfg) opts s') = Ok True" for opts s s'
    by (rule initHome_again [OF assms(1) _ assms(2,3)]) simp_all
  show ?thesis
    unfolding relayer_Init_def orchestrator_Init_def bootstrapper_Init_def
    by (intro allI conjI impI; (drule new | drule none); simp)
qed

definition sample_config :: InitConfig where
  "sample_config = \<lparr>home = ''/d'', logLevel = ''info'', logFormat = ''plain''\<rparr>"

lemma sample_more_paths:
  "evmKeyStorePath ''/d'' = ''/d/keystore/evm''" "configDir ''/d'' = ''/d/config''"
  "configFile ''/d'' = ''/d/config/config.toml''"
  by (simp_all add: evmKeyStorePath_def configFile_def configDir_def Join_def Clean_def IsAbs_def clean_parts_def clean_step_def)

lemma sample_relayer_Init:
  "\<exists>s'. relayer_Init key_libs sample_lib no_faults (Ok ()) (Ok sample_config) empty_fs = (Ok (), s')"
  by (simp add: relayer_Init_def initHome_def sample_config_def GetLogger_def key_libs_def IsInit_run [OF stats_no_faults sample_path]
      ready_def initializeConfigFile_def EnsureConfigPath_def writeConfigToFile_def os_WriteFile_def sample_more_paths
      Init_def seq_def syslift_def sample_path initRoot_def initDir_def Exists_run sample_store_paths
      lockStore_def Lock_def lock_def New_def attempt_def Let_def os_OpenCreate_def os_MkdirAll_def path_prefixes_def
      is_file_def empty_fs_def os_Close_def os_Remove_def release_def os_WriteString_def flock_ex_def flock_un_def
      sysif_def relayer_init_def unlocking_def Unlock_def unlock_def numeral_eq_Suc)

theorem init_is_idempotent_witness:
  "\<exists>s'. relayer_Init key_libs sample_lib no_faults (Ok ()) (Ok sample_config) s' = (Ok (), s') \<and>
    fst (IsInit sample_lib no_faults ''/d'' relayer_init s') = Ok True"
proof -
  have h: "home sample_config = ''/d''" by (simp add: sample_config_def)
  obtain s' where "relayer_Init key_libs sample_lib no_faults (Ok ()) (Ok sample_config) empty_fs = (Ok (), s')"
    using sample_relayer_Init by blast
  with init_is_idempotent [of no_faults sample_lib sample_config "''/d''"] show ?thesis by (simp add: h sample_path) metis
qed

end
