(* ===== verification/QueryFile.thy ===== *)
theory QueryFile imports QueryCmd begin

text \<open>
  What \<open>cmd/blobstream/query/cmd.go\<close> does with a result: the lines it logs, or the JSON text that it
  appends to the output file. Of the disk only the contents of files is kept. The operating system
  may refuse to open the file, or write only a part of the text.
\<close>

section \<open>Files opened for appending\<close>

type_synonym disk = "string \<Rightarrow> string option"

record out_env =
  refuse_open :: "string \<Rightarrow> disk \<Rightarrow> go_error option"
  short_write :: "string \<Rightarrow> string \<Rightarrow> disk \<Rightarrow> (nat \<times> go_error) option"

text \<open>\<open>OpenFile\<close> with \<open>O_WRONLY\<close>, \<open>O_CREATE\<close> and \<open>O_APPEND\<close>, one write, and a close whose error is only logged.\<close>

definition appendFile :: "out_env \<Rightarrow> string \<Rightarrow> string \<Rightarrow> disk \<Rightarrow> unit outcome \<times> disk" where
  "appendFile Os path text d = (case refuse_open Os path d of
       Some e \<Rightarrow> (Err e, d)
     | None \<Rightarrow>
         (let old = (case d path of None \<Rightarrow> [] | Some s \<Rightarrow> s) in
          case short_write Os path text d of
            None \<Rightarrow> (Ok (), d(path \<mapsto> old @ text))
          | Some (n, e) \<Rightarrow> (Err e, d(path \<mapsto> old @ take n text))))"

text \<open>\<open>json.NewEncoder(file).Encode\<close>: the text of the value and a newline, in one write.\<close>

definition newline :: string where
  "newline = [CHR 0x0A]"

definition encodeTo :: "out_env \<Rightarrow> string \<Rightarrow> json \<Rightarrow> disk \<Rightarrow> unit outcome \<times> disk" where
  "encodeTo Os path j = appendFile Os path (print j @ newline)"

section \<open>JSON forms\<close>

definition jsonSignature :: "signature \<Rightarrow> json" where
  "jsonSignature sig = JObj [(''evmAddress'', JStr (SigEvmAddress sig)), (''moniker'', JStr (SigMoniker sig)),
     (''signature'', JStr (Signature sig)), (''signed'', JBool (Signed sig)), (''valopAddress'', JStr (SigValopAddress sig))]"

definition jsonUint :: "u64 \<Rightarrow> json" where
  "jsonUint n = JNum (FormatUint 10 (unat n))"

definition jsonOutput :: "queryOutput \<Rightarrow> json" where
  "jsonOutput q = JObj [(''signatures'', JArr (map jsonSignature (Signatures q))), (''nonce'', jsonUint (OutNonce q)),
     (''majority_threshold'', jsonUint (MajorityThreshold q)), (''current_threshold'', jsonUint (CurrentThreshold q)),
     (''can_relay'', JBool (CanRelay q))]"

definition jsonSigner :: "validatorInfo \<times> u64 \<Rightarrow> json" where
  "jsonSigner kv = (case kv of (key, val) \<Rightarrow>
     JObj [(''evmAddress'', JStr (InfoEvmAddress key)), (''moniker'', JStr (InfoMoniker key)),
       (''valopAddress'', JStr (InfoValopAddress key)), (''number_of_signatures'', jsonUint val)])"

section \<open>Output\<close>

datatype log_line =
    LogText string
  | LogOutput u64 u64 u64 bool
  | LogSignature string bool string string "string option"
  | LogSigner string string string u64

definition printConfirms :: "queryOutput \<Rightarrow> log_line list" where
  "printConfirms q =
     LogOutput (OutNonce q) (MajorityThreshold q) (CurrentThreshold q) (CanRelay q)
     # LogText ''orchestrators that signed the attestation''
     # map (\<lambda>sig. LogSignature (SigMoniker sig) (Signed sig) (SigEvmAddress sig) (SigValopAddress sig) (Some (Signature sig)))
         (filter Signed (Signatures q))
     @ LogText ''orchestrators that missed signing the attestation''
     # map (\<lambda>sig. LogSignature (SigMoniker sig) (Signed sig) (SigEvmAddress sig) (SigValopAddress sig) None)
         (filter (\<lambda>sig. \<not> Signed sig) (Signatures q))
     @ [LogText ''done'']"

definition writeConfirmsToJSONFile :: "out_env \<Rightarrow> queryOutput \<Rightarrow> string \<Rightarrow> disk \<Rightarrow> unit outcome \<times> disk" where
  "writeConfirmsToJSONFile Os q outputFile = encodeTo Os outputFile (jsonOutput q)"

text \<open>A map is ranged over in any order: \<open>entries\<close> lists its entries in the order that was taken.\<close>

definition enumerates :: "('a \<times> 'b) list \<Rightarrow> ('a \<Rightarrow> 'b option) \<Rightarrow> bool" where
  "enumerates entries m \<longleftrightarrow> distinct (map fst entries) \<and> map_of entries = m"

definition printSignersForRange :: "(validatorInfo \<times> u64) list \<Rightarrow> log_line list" where
  "printSignersForRange entries =
     map (\<lambda>(signer, n). LogSigner (InfoMoniker signer) (InfoEvmAddress signer) (InfoValopAddress signer) n) entries @ [LogText ''done'']"

definition writeSignersForRangeToJSONFile :: "out_env \<Rightarrow> (validatorInfo \<times> u64) list \<Rightarrow> string \<Rightarrow> disk \<Rightarrow> unit outcome \<times> disk" where
  "writeSignersForRangeToJSONFile Os entries outputFile = encodeTo Os outputFile (JArr (map jsonSigner entries))"

text \<open>The commands to their end: the outcome, the lines logged and the disk.\<close>

definition SignersNonce_output :: "out_env \<Rightarrow> string \<Rightarrow> queryOutput outcome \<Rightarrow> disk \<Rightarrow> unit outcome \<times> log_line list \<times> disk" where
  "SignersNonce_output Os outputFile result d = (case result of
       Ok q \<Rightarrow>
         (if outputFile = [] then (Ok (), printConfirms q, d)
          else (case writeConfirmsToJSONFile Os q outputFile d of (r, d') \<Rightarrow> (r, [], d')))
     | Err e \<Rightarrow> (Err e, [], d) | Panic p \<Rightarrow> (Panic p, [], d) | Blocked \<Rightarrow> (Blocked, [], d))"

definition SignersRange_output :: "out_env \<Rightarrow> ((validatorInfo \<Rightarrow> u64 option) \<Rightarrow> (validatorInfo \<times> u64) list) \<Rightarrow> string \<Rightarrow>
    (validatorInfo \<Rightarrow> u64 option) outcome \<Rightarrow> disk \<Rightarrow> unit outcome \<times> log_line list \<times> disk" where
  "SignersRange_output Os order outputFile result d = (case result of
       Ok m \<Rightarrow>
         (if outputFile = [] then (Ok (), printSignersForRange (order m), d)
          else (case writeSignersForRangeToJSONFile Os (order m) outputFile d of (r, d') \<Rightarrow> (r, [], d')))
     | Err e \<Rightarrow> (Err e, [], d) | Panic p \<Rightarrow> (Panic p, [], d) | Blocked \<Rightarrow> (Blocked, [], d))"

section \<open>Reading the file\<close>

text \<open>\<open>json.Decoder\<close>: one value after the other, to the end of the text.\<close>

fun parse_stream :: "nat \<Rightarrow> string \<Rightarrow> json list option" where
  "parse_stream 0 s = None"
| "parse_stream (Suc n) s =
     (if skip_ws s = [] then Some []
      else (case parse_value (length s) s of
          None \<Rightarrow> None
        | Some (v, r) \<Rightarrow> map_option (Cons v) (parse_stream n r)))"

definition closed_value :: "json \<Rightarrow> bool" where
  "closed_value j \<longleftrightarrow> json_ok j \<and> ((\<exists>vs. j = JArr vs) \<or> (\<exists>fs. j = JObj fs))"

definition lines_of :: "json list \<Rightarrow> string" where
  "lines_of js = concat (map (\<lambda>j. print j @ newline) js)"

lemma skip_newline: "skip_ws (newline @ s) = skip_ws s"
  by (simp add: newline_def)

lemma parse_skips: "skip_ws s = skip_ws s' \<Longrightarrow> parse_value f s = parse_value f s'"
  by (cases f) simp_all

lemma parse_line:
  assumes "closed_value j" and "length (print j) \<le> f"
  shows "parse_value f (print j @ r) = Some (j, r)"
  using assms parse_closed by (simp add: closed_value_def)

lemma lines_of_Cons: "lines_of (j # js) = print j @ newline @ lines_of js"
  by (simp add: lines_of_def)

lemma line_starts: "closed_value j \<Longrightarrow> skip_ws (print j @ r) \<noteq> []"
  using print_starts [of j] by (auto simp: closed_value_def)

lemma parse_stream_newline:
  assumes "\<forall>j \<in> set js. closed_value j"
  shows "parse_stream n (newline @ lines_of js) = parse_stream n (lines_of js)"
proof (cases n)
  case (Suc m)
  show ?thesis
  proof (cases js)
    case (Cons j rest)
    have j: "closed_value j" using assms Cons by simp
    let ?s = "print j @ newline @ lines_of rest"
    have "parse_value (length (newline @ ?s)) (newline @ ?s) = parse_value (length (newline @ ?s)) ?s"
      by (rule parse_skips) (rule skip_newline)
    then show ?thesis using parse_line [OF j] line_starts [OF j] Suc by (simp add: Cons lines_of_Cons skip_newline)
  qed (simp add: Suc lines_of_def skip_newline newline_def)
qed simp

lemma parse_stream_lines:
  "\<forall>j \<in> set js. closed_value j \<Longrightarrow> length js < n \<Longrightarrow> parse_stream n (lines_of js) = Some js"
proof (induction js arbitrary: n)
  case Nil
  then show ?case by (cases n) (simp_all add: lines_of_def)
next
  case (Cons j js)
  then obtain m where n: "n = Suc m" by (cases n) auto
  have "closed_value j" "parse_stream m (newline @ lines_of js) = Some js"
    using Cons n by (simp_all add: parse_stream_newline)
  then show ?case using parse_line line_starts n by (simp add: lines_of_Cons)
qed

text \<open>The whole text is one value only when there is one line.\<close>

lemma parse_lines:
  assumes "\<forall>j \<in> set js. closed_value j"
  shows "parse (lines_of js) = (case js of [j] \<Rightarrow> Ok j | _ \<Rightarrow> Err ErrJson)"
proof (cases js)
  case Nil
  then show ?thesis by (simp add: lines_of_def parse_def)
next
  case (Cons j rest)
  have j: "closed_value j" using assms Cons by simp
  have rest: "skip_ws (newline @ lines_of rest) = [] \<longleftrightarrow> rest = []"
    using line_starts assms Cons by (cases rest) (auto simp: lines_of_Cons skip_newline lines_of_def newline_def)
  have "parse_value (length (lines_of js)) (lines_of js) = Some (j, newline @ lines_of rest)"
    using parse_line [OF j] by (simp add: Cons lines_of_Cons)
  then show ?thesis using rest by (simp add: parse_def Cons split: list.split)
qed

section \<open>Running the command again\<close>

definition signature_utf8 :: "signature \<Rightarrow> bool" where
  "signature_utf8 sig \<longleftrightarrow> valid_utf8 (SigEvmAddress sig) \<and> valid_utf8 (SigMoniker sig) \<and> valid_utf8 (Signature sig) \<and>
     valid_utf8 (SigValopAddress sig)"

definition output_utf8 :: "queryOutput \<Rightarrow> bool" where
  "output_utf8 q \<longleftrightarrow> list_all signature_utf8 (Signatures q)"

lemma key_utf8:
  "valid_utf8 ''evmAddress''" "valid_utf8 ''moniker''" "valid_utf8 ''signature''" "valid_utf8 ''signed''" "valid_utf8 ''valopAddress''"
  "valid_utf8 ''signatures''" "valid_utf8 ''nonce''" "valid_utf8 ''majority_threshold''" "valid_utf8 ''current_threshold''"
  "valid_utf8 ''can_relay''" "valid_utf8 ''number_of_signatures''"
  by (simp_all add: valid_utf8.simps)

lemma jsonOutput_closed: "output_utf8 q \<Longrightarrow> closed_value (jsonOutput q)"
  by (auto simp: output_utf8_def signature_utf8_def list_all_iff closed_value_def jsonOutput_def jsonSignature_def jsonUint_def key_utf8)

lemma jsonSigners_closed:
  "\<forall>(key, n) \<in> set entries. valid_utf8 (InfoEvmAddress key) \<and> valid_utf8 (InfoMoniker key) \<and> valid_utf8 (InfoValopAddress key) \<Longrightarrow>
   closed_value (JArr (map jsonSigner entries))"
  by (auto simp: closed_value_def jsonSigner_def jsonUint_def key_utf8)

lemma jsonUint_inj [simp]: "jsonUint m = jsonUint n \<longleftrightarrow> m = n"
  by (metis decode_uint64_FormatUint json.inject(2) jsonUint_def outcome.inject(1))

lemma jsonOutput_inj: "inj jsonOutput"
proof (rule injI)
  fix q q' assume e: "jsonOutput q = jsonOutput q'"
  have "inj jsonSignature" by (rule injI) (simp add: jsonSignature_def)
  then show "q = q'" using e by (simp add: jsonOutput_def inj_map_eq_map)
qed

lemma encodeTo_Ok:
  assumes "encodeTo Os path j d = (Ok (), d')"
  shows "d' = d(path \<mapsto> (case d path of None \<Rightarrow> [] | Some s \<Rightarrow> s) @ print j @ newline)"
  using assms by (auto simp: encodeTo_def appendFile_def Let_def split: option.splits prod.splits)

text \<open>The same file given to several runs of \<open>signers nonce\<close>.\<close>

fun SignersNonce_runs :: "out_env \<Rightarrow> string \<Rightarrow> queryOutput list \<Rightarrow> disk \<Rightarrow> unit outcome \<times> disk" where
  "SignersNonce_runs Os path [] d = (Ok (), d)"
| "SignersNonce_runs Os path (q # qs) d = (case SignersNonce_output Os path (Ok q) d of
      (Ok u, logged, d') \<Rightarrow> SignersNonce_runs Os path qs d' | (r, logged, d') \<Rightarrow> (r, d'))"

lemma runs_append:
  assumes "path \<noteq> []" and "SignersNonce_runs Os path qs d = (Ok (), d')" and "qs \<noteq> []"
  shows "d' = d(path \<mapsto> (case d path of None \<Rightarrow> [] | Some s \<Rightarrow> s) @ lines_of (map jsonOutput qs))"
  using assms(2,3)
proof (induction qs arbitrary: d)
  case (Cons q qs)
  then obtain d1 where d1: "encodeTo Os path (jsonOutput q) d = (Ok (), d1)" "SignersNonce_runs Os path qs d1 = (Ok (), d')"
    using assms(1) by (auto simp: SignersNonce_output_def writeConfirmsToJSONFile_def split: prod.splits outcome.splits)
  show ?case
  proof (cases "qs = []")
    case True
    then show ?thesis using d1 encodeTo_Ok [OF d1(1)] by (simp add: lines_of_def)
  next
    case False
    show ?thesis unfolding Cons.IH [OF d1(2) False] encodeTo_Ok [OF d1(1)] by (simp add: lines_of_Cons fun_eq_iff)
  qed
qed simp

section \<open>Properties\<close>

text \<open>
  C39: The output file of \<open>signers nonce\<close> is opened for appending. After one run to a new or empty
  file it is one JSON document, the result; after several it is a stream of the results in the order
  of the runs, which as a whole is not JSON. No other file changes, and different results have
  different documents.
\<close>

theorem query_file_is_a_stream:
  assumes "path \<noteq> []" and "d path = None \<or> d path = Some []" and "list_all output_utf8 qs" and "qs \<noteq> []"
    and "SignersNonce_runs Os path qs d = (Ok (), d')"
  shows "\<exists>text. d' = d(path \<mapsto> text) \<and> parse_stream (Suc (length qs)) text = Some (map jsonOutput qs) \<and>
    parse text = (case qs of [q] \<Rightarrow> Ok (jsonOutput q) | _ \<Rightarrow> Err ErrJson) \<and> inj jsonOutput"
proof -
  have closed: "\<forall>j \<in> set (map jsonOutput qs). closed_value j" using assms(3) jsonOutput_closed by (auto simp: list_all_iff)
  have "d' = d(path \<mapsto> lines_of (map jsonOutput qs))" using runs_append [OF assms(1,5,4)] assms(2) by auto
  moreover have "(case map jsonOutput qs of [j] \<Rightarrow> Ok j | _ \<Rightarrow> Err ErrJson) =
      (case qs of [q] \<Rightarrow> Ok (jsonOutput q) | _ \<Rightarrow> Err ErrJson)" by (simp split: list.splits)
  ultimately show ?thesis using parse_stream_lines [OF closed, of "Suc (length qs)"] parse_lines [OF closed] jsonOutput_inj
    by (metis length_map lessI)
qed

text \<open>Two runs for attestations that nobody signed, of a valset with one member.\<close>

definition sample_result :: "u64 \<Rightarrow> queryOutput" where
  "sample_result n = \<lparr>Signatures = [\<lparr>SigEvmAddress = ''0xab'', SigMoniker = ''val'', Signature = [], Signed = False, SigValopAddress = []\<rparr>],
     OutNonce = n, MajorityThreshold = 7, CurrentThreshold = 0, CanRelay = False\<rparr>"

definition calm_out :: out_env where
  "calm_out = \<lparr>refuse_open = (\<lambda>_ _. None), short_write = (\<lambda>_ _ _. None)\<rparr>"

theorem query_file_is_a_stream_witness:
  "\<exists>text. snd (SignersNonce_runs calm_out ''out'' [sample_result 2, sample_result 3] Map.empty) ''out'' = Some text \<and>
     parse text = Err ErrJson"
proof -
  have u: "list_all output_utf8 [sample_result 2, sample_result 3]"
    by (simp add: output_utf8_def sample_result_def signature_utf8_def valid_utf8.simps)
  have "\<exists>d'. SignersNonce_runs calm_out ''out'' [sample_result 2, sample_result 3] Map.empty = (Ok (), d')"
    by (simp add: SignersNonce_output_def writeConfirmsToJSONFile_def encodeTo_def appendFile_def calm_out_def)
  then obtain d' where d': "SignersNonce_runs calm_out ''out'' [sample_result 2, sample_result 3] Map.empty = (Ok (), d')" by blast
  show ?thesis using query_file_is_a_stream [OF _ _ u _ d'] d' by auto
qed

end
