(* ===== verification/ConfigFile.thy ===== *)
theory ConfigFile imports Configs begin

text \<open>
  The configuration files of the relayer and the orchestrator (\<open>relayer/config.go\<close>,
  \<open>orchestrator/config.go\<close>): the text that the template \<open>DefaultConfigTemplate\<close> gives for a
  configuration, and \<open>GetStartConfig\<close>. The reader of TOML (viper, with the environment behind it)
  and the conversions of mapstructure are parameters.
\<close>

section \<open>The template\<close>

datatype toml_line =
    Empty
  | Rule
  | Note string
  | Table string
  | Quoted string string
  | Bare string string

definition dquote :: string where
  "dquote = [CHR 0x22]"

definition show_bool :: "bool \<Rightarrow> string" where
  "show_bool b = (if b then ''true'' else ''false'')"

fun line_text :: "toml_line \<Rightarrow> string" where
  "line_text Empty = []"
| "line_text Rule = replicate 79 (CHR 0x23)"
| "line_text (Note t) = t"
| "line_text (Table t) = ''['' @ t @ '']''"
| "line_text (Quoted k v) = k @ '' = '' @ dquote @ v @ dquote"
| "line_text (Bare k v) = k @ '' = '' @ v"

definition render :: "toml_line list \<Rightarrow> string" where
  "render ls = concat (map (\<lambda>l. line_text l @ [CHR 0x0A]) ls)"

definition telemetry_lines :: "telemetry_config \<Rightarrow> toml_line list" where
  "telemetry_lines m =
    [Table ''telemetry'', Note ''# Enables OTLP metrics with HTTP exporter.'',
     Quoted ''metrics'' (show_bool (Metrics m)), Empty,
     Note ''# Sets HTTP endpoint for OTLP metrics to be exported to.'', Quoted ''endpoint'' (Endpoint m), Empty,
     Note ''# Enable TLS connection to OTLP metric backend.'', Quoted ''tls'' (show_bool (TLS m)), Empty,
     Note ''# Sets the HTTP endpoint for LibP2P metrics to listen on.'', Quoted ''p2p-endpoint'' (P2PEndpoint m)]"

definition relayer_lines :: "StartConfig \<Rightarrow> toml_line list" where
  "relayer_lines c =
    [Note ''# This is a TOML config file.'', Note ''# For more information, see https://github.com/toml-lang/toml'',
     Empty, Rule, Note ''###                           RPC Configuration                             ###'', Rule,
     Empty, Note ''# Celestia app rest rpc address.'', Quoted ''core-rpc'' (CoreRPC c), Empty,
     Note ''# Celestia app grpc address.'', Quoted ''core-grpc'' (CoreGRPC c), Empty,
     Note ''# Allow gRPC over insecure channels, if not TLS the server must use TLS.'',
     Bare ''grpc-insecure'' (show_bool (GrpcInsecure c)), Empty, Rule,
     Note ''###                         P2P Configuration                               ###'', Rule, Empty,
     Note ''# Comma-separated multiaddresses of p2p peers to connect to.'',
     Note (''# Example: '' @ dquote @ ''/ip4/127.0.0.1/tcp/30001/p2p/12D3K...,/ip4/127.0.0.1/tcp/30000/p2p/12D3K...'' @ dquote),
     Quoted ''bootstrappers'' (Bootstrappers c), Empty, Note ''# MultiAddr for the p2p peer to listen on.'',
     Quoted ''listen-addr'' (P2PListenAddr c), Empty, Rule,
     Note ''###                         EVM Configuration                               ###'', Rule, Empty,
     Note ''# Ethereum rpc address.'', Quoted ''evm-rpc'' (EvmRPC c), Empty, Note ''# Evm chain id.'',
     Quoted ''evm-chain-id'' (FormatUint 10 (unat (EvmChainID c))), Empty,
     Note ''# Contract address at which Blobstream is deployed.'', Quoted ''contract-address'' (ContractAddr c),
     Empty, Note ''# Evm gas limit.'', Quoted ''gas-limit'' (FormatUint 10 (unat (EvmGasLimit c))), Empty,
     Note ''# The time, in minutes, to wait for transactions to be mined'',
     Note ''# on the target EVM chain before recreating them with a different gas price.'',
     Quoted ''retry-timeout'' (FormatUint 10 (unat (EVMRetryTimeout c))), Empty, Rule,
     Note ''###                         Telemetry Configuration                         ###'', Rule] @ telemetry_lines (MetricsConfig c)"

definition orchestrator_lines :: "OrchStartConfig \<Rightarrow> toml_line list" where
  "orchestrator_lines c =
    [Note ''# This is a TOML config file.'', Note ''# For more information, see https://github.com/toml-lang/toml'',
     Empty, Rule, Note ''###                           RPC Configuration                             ###'', Rule,
     Empty, Note ''# Specify the celestia app rest rpc address.'', Quoted ''core-rpc'' (OCoreRPC c), Empty,
     Note ''# Specify the celestia app grpc address.'', Quoted ''core-grpc'' (OCoreGRPC c), Empty,
     Note ''# allow gRPC over insecure channels, if not TLS the server must use TLS.'',
     Bare ''grpc-insecure'' (show_bool (GRPCInsecure c)), Empty, Rule,
     Note ''###                         P2P Configuration                               ###'', Rule, Empty,
     Note ''# Comma-separated multiaddresses of p2p peers to connect to.'',
     Note (''# Example: '' @ dquote @ ''/ip4/127.0.0.1/tcp/30001/p2p/12D3K...,/ip4/127.0.0.1/tcp/30000/p2p/12D3K...'' @ dquote),
     Quoted ''bootstrappers'' (OBootstrappers c), Empty, Note ''# MultiAddr for the p2p peer to listen on.'',
     Quoted ''listen-addr'' (OP2PListenAddr c), Empty, Rule,
     Note ''###                         Telemetry Configuration                         ###'', Rule] @ telemetry_lines (OMetricsConfig c)"

section \<open>Reading\<close>

text \<open>
  Keys in lower case, with the table in front. Values that the template never writes are \<open>TomlOther\<close>.
\<close>

datatype toml_value = TomlString string | TomlBool bool | TomlOther nat

record viper =
  ReadInConfig :: "string \<Rightarrow> (string \<Rightarrow> toml_value option) outcome"
  AsString :: "toml_value \<Rightarrow> string outcome"
  AsBool :: "toml_value \<Rightarrow> bool outcome"
  AsUint :: "toml_value \<Rightarrow> u64 outcome"

text \<open>A key that is not there leaves the zero value.\<close>

definition field :: "('a \<Rightarrow> 'b outcome) \<Rightarrow> 'b \<Rightarrow> 'a option \<Rightarrow> 'b outcome" where
  "field conv zero v = (case v of None \<Rightarrow> Ok zero | Some x \<Rightarrow> conv x)"

definition unmarshalTelemetry :: "viper \<Rightarrow> (string \<Rightarrow> toml_value option) \<Rightarrow> telemetry_config outcome" where
  "unmarshalTelemetry V m =
     obind (field (AsBool V) False (m ''telemetry.metrics'')) (\<lambda>metrics.
     obind (field (AsString V) [] (m ''telemetry.endpoint'')) (\<lambda>endpoint.
     obind (field (AsBool V) False (m ''telemetry.tls'')) (\<lambda>tls.
     obind (field (AsString V) [] (m ''telemetry.p2p-endpoint'')) (\<lambda>p2p.
     Ok \<lparr>Metrics = metrics, Endpoint = endpoint, TLS = tls, P2PEndpoint = p2p\<rparr>))))"

text \<open>Exported fields without a tag go by their names; those that are not exported are left alone.\<close>

definition GetStartConfig :: "viper \<Rightarrow> string \<Rightarrow> StartConfig outcome" where
  "GetStartConfig V content =
     obind (ReadInConfig V content) (\<lambda>m.
     obind (field (AsString V) [] (m ''config.home'')) (\<lambda>dir.
     obind (field (AsString V) [] (m ''config.evmpassphrase'')) (\<lambda>pass.
     obind (field (AsUint V) 0 (m ''evm-chain-id'')) (\<lambda>chain.
     obind (field (AsString V) [] (m ''evm-rpc'')) (\<lambda>rpc.
     obind (field (AsString V) [] (m ''core-grpc'')) (\<lambda>grpc.
     obind (field (AsString V) [] (m ''core-rpc'')) (\<lambda>core.
     obind (field (AsString V) [] (m ''contract-address'')) (\<lambda>contract.
     obind (field (AsUint V) 0 (m ''gas-limit'')) (\<lambda>gas.
     obind (field (AsString V) [] (m ''bootstrappers'')) (\<lambda>bs.
     obind (field (AsString V) [] (m ''listen-addr'')) (\<lambda>listen.
     obind (field (AsBool V) False (m ''grpc-insecure'')) (\<lambda>insecure.
     obind (field (AsString V) [] (m ''loglevel'')) (\<lambda>level.
     obind (field (AsString V) [] (m ''logformat'')) (\<lambda>format.
     obind (field (AsUint V) 0 (m ''retry-timeout'')) (\<lambda>timeout.
     obind (unmarshalTelemetry V m) (\<lambda>metrics.
     Ok \<lparr>Home = dir, EVMPassphrase = pass, EvmChainID = chain, EvmRPC = rpc, CoreGRPC = grpc, CoreRPC = core,
       evmAccAddress = [], ContractAddr = contract, EvmGasLimit = gas, Bootstrappers = bs, P2PListenAddr = listen,
       p2pNickname = [], GrpcInsecure = insecure, LogLevel = level, LogFormat = format, EVMRetryTimeout = timeout,
       isBackupRelayer = False, backupRelayerWaitTime = 0, MetricsConfig = metrics\<rparr>))))))))))))))))"

definition OrchGetStartConfig :: "viper \<Rightarrow> string \<Rightarrow> OrchStartConfig outcome" where
  "OrchGetStartConfig V content =
     obind (ReadInConfig V content) (\<lambda>m.
     obind (field (AsString V) [] (m ''config.home'')) (\<lambda>dir.
     obind (field (AsString V) [] (m ''config.evmpassphrase'')) (\<lambda>pass.
     obind (field (AsString V) [] (m ''core-grpc'')) (\<lambda>grpc.
     obind (field (AsString V) [] (m ''core-rpc'')) (\<lambda>core.
     obind (field (AsString V) [] (m ''evmaccaddress'')) (\<lambda>account.
     obind (field (AsString V) [] (m ''bootstrappers'')) (\<lambda>bs.
     obind (field (AsString V) [] (m ''listen-addr'')) (\<lambda>listen.
     obind (field (AsString V) [] (m ''p2pnickname'')) (\<lambda>nickname.
     obind (field (AsBool V) False (m ''grpc-insecure'')) (\<lambda>insecure.
     obind (field (AsString V) [] (m ''loglevel'')) (\<lambda>level.
     obind (field (AsString V) [] (m ''logformat'')) (\<lambda>format.
     obind (unmarshalTelemetry V m) (\<lambda>metrics.
     Ok \<lparr>OHome = dir, OEVMPassphrase = pass, OCoreGRPC = grpc, OCoreRPC = core, EvmAccAddress = account,
       OBootstrappers = bs, OP2PListenAddr = listen, P2pNickname = nickname, GRPCInsecure = insecure, OLogLevel = level,
       OLogFormat = format, OMetricsConfig = metrics\<rparr>)))))))))))))"

section \<open>What a reader of TOML does\<close>

definition bare_key :: "string \<Rightarrow> bool" where
  "bare_key k \<longleftrightarrow> k \<noteq> [] \<and> set k \<subseteq> set ''abcdefghijklmnopqrstuvwxyz0123456789-''"

text \<open>Printable ASCII that a basic string need not escape.\<close>

definition plain :: "string \<Rightarrow> bool" where
  "plain v \<longleftrightarrow> list_all (\<lambda>c. 32 \<le> (of_char c :: nat) \<and> (of_char c :: nat) < 127 \<and> c \<noteq> CHR 0x22 \<and> c \<noteq> CHR 0x5C) v"

fun line_ok :: "toml_line \<Rightarrow> bool" where
  "line_ok Empty = True"
| "line_ok Rule = True"
| "line_ok (Note t) = (HasPrefix t ''#'' \<and> CHR 0x0A \<notin> set t)"
| "line_ok (Table t) = bare_key t"
| "line_ok (Quoted k v) = (bare_key k \<and> plain v)"
| "line_ok (Bare k v) = (bare_key k \<and> (v = ''true'' \<or> v = ''false''))"

text \<open>The state of reading: the prefix of the current table, and the entries so far.\<close>

type_synonym reading = "string \<times> (string \<times> toml_value) list"

fun enter :: "toml_line \<Rightarrow> reading \<Rightarrow> reading" where
  "enter (Table t) (table, es) = (t @ ''.'', es)"
| "enter (Quoted k v) (table, es) = (table, es @ [(table @ k, TomlString v)])"
| "enter (Bare k v) (table, es) = (table, es @ [(table @ k, TomlBool (v = ''true''))])"
| "enter _ r = r"

definition entries :: "toml_line list \<Rightarrow> (string \<times> toml_value) list" where
  "entries ls = snd (fold enter ls ([], []))"

fun tables :: "toml_line list \<Rightarrow> string list" where
  "tables [] = []"
| "tables (Table t # ls) = t # tables ls"
| "tables (_ # ls) = tables ls"

definition document_ok :: "toml_line list \<Rightarrow> bool" where
  "document_ok ls \<longleftrightarrow> list_all line_ok ls \<and> distinct (tables ls @ map fst (entries ls))"

text \<open>
  What is relied on: a document of such lines is read as its entries (no variable of the environment
  stands for one of them), and values are converted from what the template makes of them.
\<close>

definition viper_reads :: "viper \<Rightarrow> bool" where
  "viper_reads V \<longleftrightarrow> (\<forall>ls. document_ok ls \<longrightarrow> ReadInConfig V (render ls) = Ok (map_of (entries ls))) \<and>
     (\<forall>s. AsString V (TomlString s) = Ok s) \<and> (\<forall>b. AsBool V (TomlBool b) = Ok b \<and> AsBool V (TomlString (show_bool b)) = Ok b) \<and>
     (\<forall>n. AsUint V (TomlString (FormatUint 10 (unat n))) = Ok n)"

section \<open>Reading what was written\<close>

lemma plain_FormatUint: "plain (FormatUint 10 n)"
proof -
  have "plain [digit_char d]" if "d < 10" for d
  proof -
    have "(of_char (digit_char d) :: nat) = 48 + d" using that by (simp add: of_char_digit_char)
    then show ?thesis using that by (auto simp: plain_def)
  qed
  then show ?thesis using set_FormatUint [of 10 _ n] by (fastforce simp: plain_def list_all_iff)
qed

lemma plain_show_bool: "plain (show_bool b)"
  by (simp add: plain_def show_bool_def)

lemma show_bool_eq: "show_bool b = ''true'' \<longleftrightarrow> b" "show_bool b = ''false'' \<longleftrightarrow> \<not> b"
  by (simp_all add: show_bool_def)

text \<open>The strings of a configuration need no escape.\<close>

definition telemetry_plain :: "telemetry_config \<Rightarrow> bool" where
  "telemetry_plain m \<longleftrightarrow> plain (Endpoint m) \<and> plain (P2PEndpoint m)"

definition relayer_plain :: "StartConfig \<Rightarrow> bool" where
  "relayer_plain c \<longleftrightarrow> list_all plain [CoreRPC c, CoreGRPC c, Bootstrappers c, P2PListenAddr c, EvmRPC c, ContractAddr c] \<and>
     telemetry_plain (MetricsConfig c)"

definition orchestrator_plain :: "OrchStartConfig \<Rightarrow> bool" where
  "orchestrator_plain c \<longleftrightarrow> list_all plain [OCoreRPC c, OCoreGRPC c, OBootstrappers c, OP2PListenAddr c] \<and>
     telemetry_plain (OMetricsConfig c)"

lemmas document_defs = document_ok_def entries_def telemetry_lines_def bare_key_def telemetry_plain_def
  plain_FormatUint plain_show_bool show_bool_eq dquote_def

lemma relayer_document: "relayer_plain c \<Longrightarrow> document_ok (relayer_lines c)"
  by (simp add: relayer_plain_def relayer_lines_def document_defs)

lemma orchestrator_document: "orchestrator_plain c \<Longrightarrow> document_ok (orchestrator_lines c)"
  by (simp add: orchestrator_plain_def orchestrator_lines_def document_defs)

lemma relayer_entries: "map_of (entries (relayer_lines c)) =
   [''core-rpc'' \<mapsto> TomlString (CoreRPC c), ''core-grpc'' \<mapsto> TomlString (CoreGRPC c), ''grpc-insecure'' \<mapsto> TomlBool (GrpcInsecure c),
    ''bootstrappers'' \<mapsto> TomlString (Bootstrappers c), ''listen-addr'' \<mapsto> TomlString (P2PListenAddr c),
    ''evm-rpc'' \<mapsto> TomlString (EvmRPC c), ''evm-chain-id'' \<mapsto> TomlString (FormatUint 10 (unat (EvmChainID c))),
    ''contract-address'' \<mapsto> TomlString (ContractAddr c), ''gas-limit'' \<mapsto> TomlString (FormatUint 10 (unat (EvmGasLimit c))),
    ''retry-timeout'' \<mapsto> TomlString (FormatUint 10 (unat (EVMRetryTimeout c))),
    ''telemetry.metrics'' \<mapsto> TomlString (show_bool (Metrics (MetricsConfig c))),
    ''telemetry.endpoint'' \<mapsto> TomlString (Endpoint (MetricsConfig c)),
    ''telemetry.tls'' \<mapsto> TomlString (show_bool (TLS (MetricsConfig c))),
    ''telemetry.p2p-endpoint'' \<mapsto> TomlString (P2PEndpoint (MetricsConfig c))]"
  by (rule ext) (simp add: entries_def relayer_lines_def telemetry_lines_def show_bool_eq)

section \<open>Properties\<close>

text \<open>What of a configuration is in its file.\<close>

definition relayer_filed :: "StartConfig \<Rightarrow> StartConfig" where
  "relayer_filed c = c\<lparr>Home := [], EVMPassphrase := [], evmAccAddress := [], p2pNickname := [], LogLevel := [], LogFormat := [],
     isBackupRelayer := False, backupRelayerWaitTime := 0\<rparr>"

definition orchestrator_filed :: "OrchStartConfig \<Rightarrow> OrchStartConfig" where
  "orchestrator_filed c = c\<lparr>OHome := [], OEVMPassphrase := [], EvmAccAddress := [], P2pNickname := [], OLogLevel := [], OLogFormat := []\<rparr>"

lemma relayer_reads:
  assumes "viper_reads V" and "relayer_plain c"
  shows "GetStartConfig V (render (relayer_lines c)) = Ok (relayer_filed c)"
    and "\<exists>o'. OrchGetStartConfig V (render (relayer_lines c)) = Ok o' \<and> fromOrchestrator o' = fromRelayer c"
proof -
  have r: "ReadInConfig V (render (relayer_lines c)) = Ok (map_of (entries (relayer_lines c)))"
    using assms relayer_document by (simp add: viper_reads_def)
  note conv = assms(1) [unfolded viper_reads_def]
  show "GetStartConfig V (render (relayer_lines c)) = Ok (relayer_filed c)"
    using conv by (simp add: GetStartConfig_def r relayer_entries field_def unmarshalTelemetry_def relayer_filed_def)
  show "\<exists>o'. OrchGetStartConfig V (render (relayer_lines c)) = Ok o' \<and> fromOrchestrator o' = fromRelayer c"
    using conv by (simp add: OrchGetStartConfig_def r relayer_entries field_def unmarshalTelemetry_def fromOrchestrator_def fromRelayer_def)
qed

lemma orchestrator_entries: "map_of (entries (orchestrator_lines c)) =
   [''core-rpc'' \<mapsto> TomlString (OCoreRPC c), ''core-grpc'' \<mapsto> TomlString (OCoreGRPC c), ''grpc-insecure'' \<mapsto> TomlBool (GRPCInsecure c),
    ''bootstrappers'' \<mapsto> TomlString (OBootstrappers c), ''listen-addr'' \<mapsto> TomlString (OP2PListenAddr c),
    ''telemetry.metrics'' \<mapsto> TomlString (show_bool (Metrics (OMetricsConfig c))),
    ''telemetry.endpoint'' \<mapsto> TomlString (Endpoint (OMetricsConfig c)),
    ''telemetry.tls'' \<mapsto> TomlString (show_bool (TLS (OMetricsConfig c))),
    ''telemetry.p2p-endpoint'' \<mapsto> TomlString (P2PEndpoint (OMetricsConfig c))]"
  by (rule ext) (simp add: entries_def orchestrator_lines_def telemetry_lines_def show_bool_eq)

lemma orchestrator_reads:
  assumes "viper_reads V" and "orchestrator_plain c"
  shows "OrchGetStartConfig V (render (orchestrator_lines c)) = Ok (orchestrator_filed c)"
proof -
  have r: "ReadInConfig V (render (orchestrator_lines c)) = Ok (map_of (entries (orchestrator_lines c)))"
    using assms orchestrator_document by (simp add: viper_reads_def)
  show ?thesis using assms(1) [unfolded viper_reads_def]
    by (simp add: OrchGetStartConfig_def r orchestrator_entries field_def unmarshalTelemetry_def orchestrator_filed_def)
qed

lemma default_filed: "relayer_filed DefaultStartConfig = DefaultStartConfig" "relayer_plain DefaultStartConfig"
  "orchestrator_filed OrchDefaultStartConfig = OrchDefaultStartConfig" "orchestrator_plain OrchDefaultStartConfig"
  by (simp_all add: relayer_filed_def orchestrator_filed_def DefaultStartConfig_def OrchDefaultStartConfig_def
      relayer_plain_def orchestrator_plain_def telemetry_plain_def plain_def)

text \<open>
  C40: A configuration file reads back as what was written: the template and the tags of the
  configuration name the same keys, also for numbers and flags that the template puts in quotes. So the
  file that a first start writes gives the defaults. The query commands, which try every home
  as that of an orchestrator first, take the same endpoints from a relayer's file as the relayer does.
\<close>

theorem config_file_roundtrip:
  assumes "viper_reads V"
  shows "(\<forall>c. relayer_plain c \<longrightarrow> GetStartConfig V (render (relayer_lines c)) = Ok (relayer_filed c) \<and>
      (\<exists>o'. OrchGetStartConfig V (render (relayer_lines c)) = Ok o' \<and> fromOrchestrator o' = fromRelayer c)) \<and>
    (\<forall>c. orchestrator_plain c \<longrightarrow> OrchGetStartConfig V (render (orchestrator_lines c)) = Ok (orchestrator_filed c)) \<and>
    GetStartConfig V (render (relayer_lines DefaultStartConfig)) = Ok DefaultStartConfig \<and>
    OrchGetStartConfig V (render (orchestrator_lines OrchDefaultStartConfig)) = Ok OrchDefaultStartConfig"
  using relayer_reads [OF assms] orchestrator_reads [OF assms] default_filed by metis

section \<open>A reader\<close>

text \<open>It reads the lines above and nothing else of TOML.\<close>

definition read_line :: "string \<Rightarrow> reading \<Rightarrow> reading" where
  "read_line l r = (case l of
       [] \<Rightarrow> r
     | c # cs \<Rightarrow>
         (if c = CHR 0x23 then r
          else if c = CHR ''['' then (butlast cs @ ''.'', snd r)
          else
            (let k = takeWhile (\<lambda>c. c \<noteq> CHR '' '') l; v = drop (length k + 3) l in
             (fst r, snd r @ [(fst r @ k, if HasPrefix v dquote then TomlString (butlast (tl v)) else TomlBool (v = ''true''))]))))"

definition sample_viper :: viper where
  "sample_viper = \<lparr>ReadInConfig = (\<lambda>text. Ok (map_of (snd (fold read_line (Split (CHR 0x0A) text) ([], []))))),
     AsString = (\<lambda>v. case v of TomlString s \<Rightarrow> Ok s | _ \<Rightarrow> Err (Ext ''type'')),
     AsBool = (\<lambda>v. case v of TomlBool b \<Rightarrow> Ok b | TomlString s \<Rightarrow> Ok (s = ''true'') | _ \<Rightarrow> Err (Ext ''type'')),
     AsUint = (\<lambda>v. case v of TomlString s \<Rightarrow> ParseUint 10 s | _ \<Rightarrow> Err (Ext ''type''))\<rparr>"

lemma bare_key_chars: "bare_key k \<Longrightarrow> c \<notin> set ''abcdefghijklmnopqrstuvwxyz0123456789-'' \<Longrightarrow> c \<notin> set k"
  by (auto simp only: bare_key_def)

lemma bare_keyD: "bare_key k \<Longrightarrow> CHR 0x0A \<notin> set k \<and> CHR '' '' \<notin> set k \<and> CHR 0x23 \<notin> set k \<and> CHR ''['' \<notin> set k \<and> k \<noteq> []"
  by (intro conjI; (rule bare_key_chars)?) (simp_all add: bare_key_def)

lemma read_entry:
  assumes "bare_key k"
  shows "read_line (k @ '' = '' @ w) r =
     (fst r, snd r @ [(fst r @ k, if HasPrefix w dquote then TomlString (butlast (tl w)) else TomlBool (w = ''true''))])"
proof -
  note k = bare_keyD [OF assms]
  have t: "takeWhile (\<lambda>c. c \<noteq> CHR '' '') (k @ '' = '' @ w) = k"
    using k by (subst takeWhile_append2) auto
  obtain c cs where c: "k = c # cs" "c \<noteq> CHR 0x23" "c \<noteq> CHR ''[''" using k by (cases k) auto
  have d: "drop (length k + 3) (k @ '' = '' @ w) = w" by simp
  show ?thesis unfolding read_line_def t Let_def d using c by simp
qed

lemma read_line_text: "line_ok l \<Longrightarrow> read_line (line_text l) r = enter l r"
proof (cases l)
  case (Note t)
  assume "line_ok l"
  then show ?thesis using Note by (cases t; cases r) (auto simp: read_line_def)
next
  case (Bare k v)
  assume "line_ok l"
  then show ?thesis using Bare read_entry [of k v r] by (cases r) (auto simp: dquote_def)
next
  case (Quoted k v)
  assume "line_ok l"
  then show ?thesis using Quoted read_entry [of k "dquote @ v @ dquote" r] by (cases r) (simp add: dquote_def)
next
  case Rule
  have "replicate 79 (CHR 0x23) = CHR 0x23 # replicate 78 (CHR 0x23)" by (subst replicate_Suc [symmetric]) simp
  then show ?thesis using Rule by (simp add: read_line_def)
qed (cases r; simp add: read_line_def)+

lemma line_text_one_line: "line_ok l \<Longrightarrow> CHR 0x0A \<notin> set (line_text l)"
proof (induction l)
  case (Quoted k v)
  have "\<not> 32 \<le> (of_char (CHR 0x0A) :: nat)" by simp
  moreover have "plain v" using Quoted by simp
  ultimately have "CHR 0x0A \<notin> set v" unfolding plain_def list_all_iff by blast
  then show ?case using bare_keyD [of k] Quoted by (simp add: dquote_def)
next
  case (Bare k v)
  then show ?case using bare_keyD [of k] by auto
qed (simp_all add: bare_keyD)

lemma Split_render: "list_all line_ok ls \<Longrightarrow> Split (CHR 0x0A) (render ls) = map line_text ls @ [[]]"
  by (induction ls) (simp_all add: render_def Split_append line_text_one_line)

lemma sample_viper_reads: "viper_reads sample_viper"
proof -
  have "fold read_line (map line_text ls @ [[]]) r = fold enter ls r" if "list_all line_ok ls" for ls r
    using that by (induction ls arbitrary: r) (simp_all add: read_line_text, simp add: read_line_def)
  then show ?thesis
    by (simp add: viper_reads_def sample_viper_def document_ok_def Split_render entries_def show_bool_def ParseUint_FormatUint)
qed

theorem config_file_roundtrip_witness:
  "GetStartConfig sample_viper (render (relayer_lines DefaultStartConfig)) = Ok DefaultStartConfig"
  using config_file_roundtrip [OF sample_viper_reads] by blast

end
