(* ===== verification/Network.thy ===== *)
theory Network imports OrchSafety RelaySafety begin

text \<open>
  The two sides together: orchestrators process nonces, each over its own services, what they put is
  on the network, and a relayer works over that network. The network is a list of records; the
  DHT of the relayer answers a lookup with one of the records of the key, and says that there is
  none only when there is none.
\<close>

section \<open>The network\<close>

text \<open>A run of \<open>Process\<close>: its services, the orchestrator, the nonce and the history before.\<close>

type_synonym orch_run = "env \<times> orchestrator \<times> u64 \<times> history"

fun run_puts :: "lib \<Rightarrow> orch_run \<Rightarrow> (string \<times> string) list" where
  "run_puts L (E, orch, nonce, h) = (let h' = snd (Process L E orch nonce h) in puts (take (length h' - length h) h'))"

definition network :: "lib \<Rightarrow> orch_run list \<Rightarrow> (string \<times> string) list" where
  "network L runs = concat (map (run_puts L) runs)"

definition serves :: "(string \<times> string) list \<Rightarrow> env \<Rightarrow> bool" where
  "serves P E \<longleftrightarrow> (\<forall>k h. case dht_get E k h of
       Ok v \<Rightarrow> (k, v) \<in> set P
     | Err e \<Rightarrow> k \<notin> fst ` set P \<and> errors_Is e RoutingNotFound
     | _ \<Rightarrow> False)"

lemma servesD:
  assumes "serves P E"
  shows "dht_get E k h = Ok v \<Longrightarrow> (k, v) \<in> set P"
    and "dht_get E k h = Err e \<Longrightarrow> k \<notin> fst ` set P \<and> errors_Is e RoutingNotFound"
    and "dht_get E k h \<noteq> Panic p" and "dht_get E k h \<noteq> Blocked"
proof -
  have "case dht_get E k h of Ok v \<Rightarrow> (k, v) \<in> set P
     | Err e \<Rightarrow> k \<notin> fst ` set P \<and> errors_Is e RoutingNotFound | _ \<Rightarrow> False"
    using assms unfolding serves_def by blast
  then show "dht_get E k h = Ok v \<Longrightarrow> (k, v) \<in> set P"
    "dht_get E k h = Err e \<Longrightarrow> k \<notin> fst ` set P \<and> errors_Is e RoutingNotFound"
    "dht_get E k h \<noteq> Panic p" "dht_get E k h \<noteq> Blocked" by auto
qed

text \<open>The laws of the key store of a run; its signatures are such as the contract takes.\<close>

fun run_laws :: "lib \<Rightarrow> orch_run \<Rightarrow> bool" where
  "run_laws L (E, orch, nonce, h) \<longleftrightarrow> signing_laws L E (EvmAccount orch) \<and>
     (\<forall>d s h. ks_sign E (EvmAccount orch) d h = Ok s \<longrightarrow> is_Ok (SigToVRS L (Bytes2Hex L s)))"

section \<open>What is on the network\<close>

text \<open>A signature of a digest by the key of a member, in a form for the contract.\<close>

definition member_signed :: "lib \<Rightarrow> hash \<Rightarrow> bridge_validator \<Rightarrow> string \<Rightarrow> bool" where
  "member_signed L digest m sig \<longleftrightarrow>
     signed_by L (HashHex L digest) sig (HexToAddress L (EvmAddress m)) \<and> is_Ok (SigToVRS L sig)"

lemma signs_and_puts_put:
  "signs_and_puts put L E acc d t \<Longrightarrow> kv \<in> set (puts t) \<Longrightarrow>
   \<exists>sig h0. ks_sign E acc (protectedHash L d) h0 = Ok sig \<and> kv = put d sig"
  unfolding signs_and_puts_def by (metis empty_iff list.set(1,2) insert_iff)

lemma run_puts_shape:
  assumes "run_laws L (E, orch, nonce, h)" and "kv \<in> set (run_puts L (E, orch, nonce, h))"
  shows "fst kv = GetLatestValsetKey \<or>
    (\<exists>att digest sig h0. length digest = 32 \<and> ks_sign E (EvmAccount orch) (protectedHash L digest) h0 = Ok sig \<and>
       kv = confirm_put L (EvmAccount orch) att digest sig)"
proof -
  obtain t where t: "snd (Process L E orch nonce h) = t @ h" "processes_when_due L E (EvmAccount orch) nonce t"
    using Process_trace by blast
  have kv: "kv \<in> set (puts t)" using assms(2) t(1) by (simp add: Let_def)
  have latest: "kv \<in> set (puts t') \<Longrightarrow> latest_puts t' \<Longrightarrow> fst kv = GetLatestValsetKey" for t'
    by (auto simp: latest_puts_def list_all_iff)
  show ?thesis
  proof (cases "latest_puts t")
    case False
    then obtain att digest u t' where p: "t = u @ t'" "latest_puts t'" "due L (EvmAccount orch) nonce t' att digest"
      "signs_and_puts (confirm_put L (EvmAccount orch) att) L E (EvmAccount orch) digest u"
      using t(2) unfolding processes_when_due_def acts_when_due_def by blast
    have "signing_laws L E (EvmAccount orch)" using assms(1) by simp
    note d = due_length [OF this p(3)]
    show ?thesis
    proof (cases "kv \<in> set (puts u)")
      case True
      then obtain sig h0 where "ks_sign E (EvmAccount orch) (protectedHash L digest) h0 = Ok sig"
        "kv = confirm_put L (EvmAccount orch) att digest sig"
        using signs_and_puts_put [OF p(4)] by blast
      with d show ?thesis by blast
    next
      case False
      then show ?thesis using kv p(1,2) latest by simp
    qed
  qed (use kv latest in blast)
qed

lemma put_confirm:
  assumes "run_laws L (E, orch, nonce, h)" and "length digest = 32"
    and "ks_sign E (EvmAccount orch) (protectedHash L digest) h0 = Ok sig"
  shows "key_part (AddressHex L (EvmAccount orch))" and "key_part (HashHex L digest)"
    and "valid_utf8 (AddressHex L (EvmAccount orch))" and "valid_utf8 (Bytes2Hex L sig)"
    and "EvmAddress m = AddressHex L (EvmAccount orch) \<Longrightarrow> member_signed L digest m (Bytes2Hex L sig)"
proof -
  have l: "signing_laws L E (EvmAccount orch)" using assms(1) by simp
  show "key_part (AddressHex L (EvmAccount orch))" "valid_utf8 (AddressHex L (EvmAccount orch))"
    using address_parts signing_lawsD(1) [OF l] by blast+
  show "key_part (HashHex L digest)" using hash_parts(1) signing_lawsD(2) [OF l] assms(2) by blast
  show "valid_utf8 (Bytes2Hex L sig)" using signing_lawsD(3) [OF l] hex_ascii by simp
  show "member_signed L digest m (Bytes2Hex L sig)" if "EvmAddress m = AddressHex L (EvmAccount orch)"
    using signed_by_account [OF l assms(2,3)] assms(1,3) that by (auto simp: member_signed_def)
qed

text \<open>A record under the key of a member's confirm is a confirm of this member, signed by it.\<close>

lemma latest_namespace: "Split CHR ''/'' GetLatestValsetKey ! 1 = LatestValsetNamespace"
  by (simp add: GetLatestValsetKey_def LatestValsetNamespace_def)

lemma key_namespaces:
  "GetDataCommitmentConfirmKey n a d \<noteq> GetLatestValsetKey" "GetValsetConfirmKey n a d \<noteq> GetLatestValsetKey"
  "GetDataCommitmentConfirmKey n a d \<noteq> GetValsetConfirmKey n' a' d'"
proof -
  have "LatestValsetNamespace \<noteq> DataCommitmentConfirmNamespace" "LatestValsetNamespace \<noteq> ValsetConfirmNamespace"
    by (simp_all add: DataCommitmentConfirmNamespace_def ValsetConfirmNamespace_def LatestValsetNamespace_def)
  then show "GetDataCommitmentConfirmKey n a d \<noteq> GetLatestValsetKey" "GetValsetConfirmKey n a d \<noteq> GetLatestValsetKey"
    "GetDataCommitmentConfirmKey n a d \<noteq> GetValsetConfirmKey n' a' d'"
    using dcc_key.make_namespace vc_key.make_namespace latest_namespace namespaces_distinct by metis+
qed

lemma confirm_put_cases:
  "confirm_put L acc att digest sig = dc_confirm_put L acc (GetNonce att) digest sig \<or>
   confirm_put L acc att digest sig = valset_confirm_put L acc (GetNonce att) digest sig"
  by (cases att) (simp_all add: confirm_put_def)

lemma hash_text_inject:
  assumes "signing_laws L E acc" and "length d = 32" and "length d' = 32" and "HashHex L d = HashHex L d'"
  shows "d = d'"
  using hash_parts(2) [OF signing_lawsD(2) [OF assms(1)] assms(2)] hash_parts(2) [OF signing_lawsD(2) [OF assms(1)] assms(3)]
    assms(4) by (metis outcome.inject(1))

text \<open>A confirm is good for a member: it has the member's address and a signature by its key.\<close>

definition good_confirm :: "('c \<Rightarrow> string) \<Rightarrow> ('c \<Rightarrow> string) \<Rightarrow> lib \<Rightarrow> hash \<Rightarrow> bridge_validator \<Rightarrow> 'c \<Rightarrow> bool" where
  "good_confirm addr sig L digest m c \<longleftrightarrow> addr c = EvmAddress m \<and> member_signed L digest m (sig c)"

text \<open>
  Both kinds of confirms: a record put under a key of the kind is the account's confirm with its
  signature, and no other record has such a key.
\<close>

locale confirm_kind = confirm_key namespace make for namespace make +
  fixes record_of :: "lib \<Rightarrow> address \<Rightarrow> u64 \<Rightarrow> hash \<Rightarrow> bytes \<Rightarrow> string \<times> string"
    and unmarshal :: "string \<Rightarrow> 'c outcome" and addr :: "'c \<Rightarrow> string" and sig :: "'c \<Rightarrow> string"
  assumes record_key: "fst (record_of L acc n digest s) = make n (AddressHex L acc) (HashHex L digest)"
    and record_decodes: "valid_utf8 (AddressHex L acc) \<Longrightarrow> valid_utf8 (Bytes2Hex L s) \<Longrightarrow>
      \<exists>c. unmarshal (snd (record_of L acc n digest s)) = Ok c \<and> addr c = AddressHex L acc \<and> sig c = Bytes2Hex L s"
    and only_kind: "fst (confirm_put L acc att digest s) = make n a d \<Longrightarrow>
      confirm_put L acc att digest s = record_of L acc (GetNonce att) digest s"
    and not_latest: "make n a d \<noteq> GetLatestValsetKey"
begin

lemma network_record:
  assumes "list_all (run_laws L) runs" and "key_part (EvmAddress m)" and "length digest = 32"
    and "(make n (EvmAddress m) (HashHex L digest), v) \<in> set (network L runs)"
  shows "\<exists>c. unmarshal v = Ok c \<and> good_confirm addr sig L digest m c"
proof -
  let ?k = "make n (EvmAddress m) (HashHex L digest)"
  obtain E orch nonce h where run: "run_laws L (E, orch, nonce, h)" "(?k, v) \<in> set (run_puts L (E, orch, nonce, h))"
    using assms(1,4) by (auto simp: network_def list_all_iff simp del: run_laws.simps run_puts.simps)
  let ?a = "AddressHex L (EvmAccount orch)"
  from run_puts_shape [OF run] obtain att d s h0 where s: "length d = 32"
    "ks_sign E (EvmAccount orch) (protectedHash L d) h0 = Ok s" "(?k, v) = confirm_put L (EvmAccount orch) att d s"
    using not_latest by auto
  note c = put_confirm [OF run(1) s(1,2)]
  have l: "signing_laws L E (EvmAccount orch)" using run(1) by simp
  have p: "confirm_put L (EvmAccount orch) att d s = record_of L (EvmAccount orch) (GetNonce att) d s"
    by (rule only_kind [where n = n and a = "EvmAddress m" and d = "HashHex L digest"]) (simp add: s(3) [symmetric])
  then have k: "?k = make (GetNonce att) ?a (HashHex L d)" "v = snd (record_of L (EvmAccount orch) (GetNonce att) d s)"
    using s(3) record_key by (metis fst_conv, metis snd_conv)
  have "EvmAddress m = ?a \<and> HashHex L digest = HashHex L d"
    using make_inject [OF assms(2) _ c(1,2) k(1)] hash_parts(1) [OF signing_lawsD(2) [OF l] assms(3)] by blast
  then have m: "EvmAddress m = ?a" "digest = d" using hash_text_inject [OF l assms(3) s(1)] by auto
  then show ?thesis using record_decodes [OF c(3,4)] c(5) [OF m(1)] k(2) unfolding good_confirm_def by metis
qed

end

interpretation dcc_kind: confirm_kind DataCommitmentConfirmNamespace GetDataCommitmentConfirmKey dc_confirm_put
    UnmarshalDataCommitmentConfirm DccEthAddress DccSignature
proof unfold_locales
  fix L acc n digest s
  let ?c = "NewDataCommitmentConfirm L (Bytes2Hex L s) acc"
  assume "valid_utf8 (AddressHex L acc)" "valid_utf8 (Bytes2Hex L s)"
  then have "UnmarshalDataCommitmentConfirm (snd (dc_confirm_put L acc n digest s)) = Ok ?c"
    using Unmarshal_Marshal_dcc [of ?c]
    by (simp add: MarshalDataCommitmentConfirm_def dc_confirm_put_def dcc_utf8_def NewDataCommitmentConfirm_def)
  then show "\<exists>c. UnmarshalDataCommitmentConfirm (snd (dc_confirm_put L acc n digest s)) = Ok c \<and>
      DccEthAddress c = AddressHex L acc \<and> DccSignature c = Bytes2Hex L s"
    by (simp add: NewDataCommitmentConfirm_def)
next
  fix L acc att digest s n a d
  assume "fst (confirm_put L acc att digest s) = GetDataCommitmentConfirmKey n a d"
  then show "confirm_put L acc att digest s = dc_confirm_put L acc (GetNonce att) digest s"
    using confirm_put_cases [of L acc att digest s] key_namespaces(3) unfolding valset_confirm_put_def by (metis fst_conv)
qed (simp_all only: dc_confirm_put_def fst_conv key_namespaces not_False_eq_True)

interpretation vc_kind: confirm_kind ValsetConfirmNamespace GetValsetConfirmKey valset_confirm_put
    UnmarshalValsetConfirm VcEthAddress VcSignature
proof unfold_locales
  fix L acc n digest s
  let ?c = "NewValsetConfirm L acc (Bytes2Hex L s)"
  assume "valid_utf8 (AddressHex L acc)" "valid_utf8 (Bytes2Hex L s)"
  then have "UnmarshalValsetConfirm (snd (valset_confirm_put L acc n digest s)) = Ok ?c"
    using Unmarshal_Marshal_vc [of ?c]
    by (simp add: MarshalValsetConfirm_def valset_confirm_put_def vc_utf8_def NewValsetConfirm_def)
  then show "\<exists>c. UnmarshalValsetConfirm (snd (valset_confirm_put L acc n digest s)) = Ok c \<and>
      VcEthAddress c = AddressHex L acc \<and> VcSignature c = Bytes2Hex L s"
    by (simp add: NewValsetConfirm_def)
next
  fix L acc att digest s n a d
  assume "fst (confirm_put L acc att digest s) = GetValsetConfirmKey n a d"
  then show "confirm_put L acc att digest s = valset_confirm_put L acc (GetNonce att) digest s"
    using confirm_put_cases [of L acc att digest s] key_namespaces(3) unfolding dc_confirm_put_def by (metis fst_conv)
qed (simp_all only: valset_confirm_put_def fst_conv key_namespaces not_False_eq_True)

section \<open>What the relayer collects\<close>

text \<open>Of the members, those whose record is on the network.\<close>

definition published :: "(string \<times> string) list \<Rightarrow> (bridge_validator \<Rightarrow> string) \<Rightarrow> bridge_validator \<Rightarrow> bool" where
  "published P key m \<longleftrightarrow> key m \<in> fst ` set P"

text \<open>Under the keys of the members there is nothing but what the runs have put; elsewhere anything.\<close>

definition honest_for ::
  "(string \<times> string) list \<Rightarrow> (bridge_validator \<Rightarrow> string) \<Rightarrow> (string \<times> string) list \<Rightarrow> bridge_validator list \<Rightarrow> bool" where
  "honest_for P key records ms \<longleftrightarrow> (\<forall>m \<in> set ms. \<forall>v. (key m, v) \<in> set P \<longrightarrow> (key m, v) \<in> set records)"

context confirm_lookup
begin

lemma collect_published:
  assumes "serves P E" and "\<And>m v. m \<in> set ms \<Longrightarrow> (key m, v) \<in> set P \<Longrightarrow> \<exists>c. unmarshal v = Ok c \<and> good m c"
  shows "\<exists>cs h'. collect get ms acc h = (Ok (acc @ cs), h') \<and> list_all2 good (filter (published P key) ms) cs"
  using assms(2)
proof (induction ms arbitrary: acc h)
  case (Cons m ms)
  let ?h = "Dht (GetValue (key m) (dht_get E (key m) h)) # h"
  have IH: "\<exists>cs h'. collect get ms acc' ?h = (Ok (acc' @ cs), h') \<and> list_all2 good (filter (published P key) ms) cs" for acc'
    using Cons by simp
  show ?case
  proof (cases "dht_get E (key m) h")
    case (Ok v)
    then have v: "(key m, v) \<in> set P" by (rule servesD [OF assms(1)])
    then obtain c where "unmarshal v = Ok c" "good m c" using Cons.prems by auto
    moreover have "published P key m" using v unfolding published_def by force
    moreover obtain cs h' where "collect get ms (acc @ [c]) ?h = (Ok ((acc @ [c]) @ cs), h')"
      "list_all2 good (filter (published P key) ms) cs" using IH by blast
    ultimately show ?thesis using Ok
      by (intro exI [of _ "c # cs"] exI [of _ h']) (simp add: collect_step Let_def del: collect.simps)
  next
    case (Err e)
    then have "\<not> published P key m" "errors_Is e RoutingNotFound"
      using servesD(2) [OF assms(1)] unfolding published_def by blast+
    then show ?thesis using IH [of acc] Err by (simp add: collect_step Let_def del: collect.simps)
  qed (use servesD [OF assms(1)] in blast)+
qed simp

end

lemma queryTwoThirds_first:
  assumes "query h = (Ok cs, h1)" and "cs \<noteq> []"
    and "TwoThirdsThreshold L vs \<le> signed_power (Querier.vals vs) 0 (map addr cs)"
  shows "queryTwoThirds E te (queryFunc L vs addr query) rounds h = (Ok cs, h1)"
  using assms by (simp add: queryTwoThirds_def queryFunc_def andThen_Ok)

text \<open>A store that answers: the batch is committed.\<close>

definition store_answers :: "env \<Rightarrow> bool" where
  "store_answers E \<longleftrightarrow> (\<forall>h. store_batch E h = Ok () \<and> store_commit E h = Ok () \<and>
     (\<forall>k. is_Ok (store_has E k h)) \<and> (\<forall>k v. store_put E k v h = Ok ()))"

context confirm_saver
begin

lemma saves_all:
  assumes "store_answers E"
  shows "\<exists>h'. forEach cs (saveConfirm E key marshal) h = (Ok (), h')"
proof (induction cs arbitrary: h)
  case (Cons c cs)
  obtain v where v: "marshal c = Ok v" using marshals [of c] by (auto simp: is_Ok_iff)
  obtain b where "store_has E (key c) h = Ok b" using assms unfolding store_answers_def is_Ok_iff by blast
  then obtain h1 where "saveConfirm E key marshal c h = (Ok (), h1)"
    using v assms unfolding store_answers_def
    by (cases b) (auto simp: saveConfirm_def storeHas_def batchPut_def andThen_Ok)
  then show ?case using Cons by (simp add: andThen_Ok)
qed simp

end

lemma SaveDataCommitment_answers:
  assumes "store_answers E"
  shows "\<exists>h'. SaveDataCommitmentSignaturesToStore L E dc root cs h = (Ok (), h')"
proof -
  let ?h = "Store (Batch (Ok ())) # h"
  let ?key = "\<lambda>c. NewKey L (GetDataCommitmentConfirmKey (DcNonce dc) (DccEthAddress c) root)"
  obtain h1 where "forEach cs (saveConfirm E ?key MarshalDataCommitmentConfirm) ?h = (Ok (), h1)"
    using dcc_saver.saves_all [OF assms] by blast
  then show ?thesis using assms unfolding store_answers_def
    by (simp add: SaveDataCommitmentSignaturesToStore_def storeBatch_def batchCommit_def andThen_Ok)
qed

section \<open>What the relayer sends\<close>

text \<open>The entry of a member in what the contract gets: its own signature if it published, else zeros.\<close>

definition member_entry :: "lib \<Rightarrow> hash \<Rightarrow> (bridge_validator \<Rightarrow> bool) \<Rightarrow> bridge_validator \<Rightarrow> vrs \<Rightarrow> bool" where
  "member_entry L digest pub m s \<longleftrightarrow>
     (if pub m then \<exists>sig. member_signed L digest m sig \<and> SigToVRS L sig = Ok (SigV s, SigR s, SigS s)
      else s = zero_vrs)"

lemma traverse_all:
  "(\<And>x. x \<in> set xs \<Longrightarrow> \<exists>y. f x = Ok y \<and> Q x y) \<Longrightarrow> \<exists>ys. traverse f xs = Ok ys \<and> list_all2 Q xs ys"
proof (induction xs)
  case (Cons x xs)
  then obtain y ys where "f x = Ok y" "Q x y" "traverse f xs = Ok ys" "list_all2 Q xs ys" by force
  then show ?case by (intro exI [of _ "y # ys"]) simp
qed simp

lemma list_all2_sets:
  "list_all2 R xs ys \<Longrightarrow> (\<forall>x \<in> set xs. \<exists>y \<in> set ys. R x y) \<and> (\<forall>y \<in> set ys. \<exists>x \<in> set xs. R x y)"
  by (induction rule: list_all2_induct) auto

lemma member_sig_entry:
  assumes good: "list_all2 (good_confirm addr sig L digest) (filter pub ms) cs"
    and pub: "\<And>m m'. EvmAddress m = EvmAddress m' \<Longrightarrow> pub m \<Longrightarrow> pub m'" and m: "m \<in> set ms"
  shows "\<exists>s. member_sig L (map_of (rev (map (\<lambda>c. (addr c, sig c)) cs))) m = Ok s \<and> member_entry L digest pub m s"
proof (cases "map_of (rev (map (\<lambda>c. (addr c, sig c)) cs)) (EvmAddress m)")
  case None
  have "\<not> pub m"
  proof
    assume "pub m"
    then have "m \<in> set (filter pub ms)" using m by simp
    then obtain c where "c \<in> set cs" "addr c = EvmAddress m"
      using list_all2_sets [OF good] unfolding good_confirm_def by blast
    then show False using None by (force simp: map_of_eq_None_iff)
  qed
  with None show ?thesis unfolding member_sig_def member_entry_def by simp
next
  case (Some x)
  then obtain c where c: "c \<in> set cs" "addr c = EvmAddress m" "sig c = x" by (auto dest!: map_of_SomeD)
  then obtain m' where m': "m' \<in> set (filter pub ms)" "addr c = EvmAddress m'" "member_signed L digest m' x"
    using list_all2_sets [OF good] unfolding good_confirm_def by blast
  then have "pub m" "member_signed L digest m x" using pub [of m' m] c by (auto simp: member_signed_def)
  moreover obtain v r s where "SigToVRS L x = Ok (v, r, s)"
    using m'(3) unfolding member_signed_def is_Ok_iff by (metis prod_cases3)
  ultimately have "member_sig L (map_of (rev (map (\<lambda>c. (addr c, sig c)) cs))) m = Ok \<lparr>SigV = v, SigR = r, SigS = s\<rparr>"
    "member_entry L digest pub m \<lparr>SigV = v, SigR = r, SigS = s\<rparr>"
    unfolding member_sig_def member_entry_def Some by auto
  then show ?thesis by blast
qed

lemma published_sigs:
  assumes "list_all2 (good_confirm addr sig L digest) (filter pub (Members vs)) cs"
    and "\<And>m m'. EvmAddress m = EvmAddress m' \<Longrightarrow> pub m \<Longrightarrow> pub m'"
  shows "\<exists>sigs. matchAttestationConfirmSigs L (sigsMap addr sig Map.empty cs) vs = Ok sigs \<and>
    list_all2 (member_entry L digest pub) (Members vs) sigs"
  unfolding matchAttestationConfirmSigs_traverse sigsMap_map_of map_add_empty empty_map_add
  by (rule traverse_all) (rule member_sig_entry [OF assms])

lemma SaveValset_answers:
  assumes "store_answers E" and "ValsetSignBytes L vs = Ok digest"
  shows "\<exists>h'. SaveValsetSignaturesToStore L E vs cs h = (Ok (), h')"
proof -
  let ?h = "Store (Batch (Ok ())) # h"
  let ?key = "\<lambda>c. NewKey L (GetValsetConfirmKey (Nonce vs) (VcEthAddress c) (HashHex L digest))"
  obtain h1 where "forEach cs (saveConfirm E ?key MarshalValsetConfirm) ?h = (Ok (), h1)"
    using vc_saver.saves_all [OF assms(1)] by blast
  then show ?thesis using assms unfolding store_answers_def
    by (simp add: SaveValsetSignaturesToStore_def storeBatch_def batchCommit_def andThen_Ok)
qed

lemma a_run:
  assumes "list_all (run_laws L) runs" and "honest_for P key (network L runs) ms" and "list_ex (published P key) ms"
  obtains E acc where "signing_laws L E acc"
proof -
  obtain kv where "kv \<in> set (network L runs)" using assms(2,3) unfolding published_def list_ex_iff honest_for_def by force
  then obtain E orch nonce h where "run_laws L (E, orch, nonce, h)"
    using assms(1) by (auto simp: network_def list_all_iff simp del: run_laws.simps run_puts.simps)
  then show thesis using that by auto
qed

context confirm_kind
begin

lemma published_confirms:
  fixes P n L digest
  defines "pub \<equiv> published P (\<lambda>m. make n (EvmAddress m) (HashHex L digest))"
  assumes "list_all (run_laws L) runs"
    and "honest_for P (\<lambda>m. make n (EvmAddress m) (HashHex L digest)) (network L runs) (Members vs)" and "serves P E"
    and "list_all (\<lambda>m. key_part (EvmAddress m)) (Members vs)" and "length digest = 32"
    and "confirm_lookup E get (\<lambda>m. make n (EvmAddress m) (HashHex L digest)) unmarshal"
    and "list_ex pub (Members vs)"
    and "TwoThirdsThreshold L vs \<le> signed_power (Querier.vals vs) 0 (map EvmAddress (filter pub (Members vs)))"
  shows "\<exists>cs h'. queryTwoThirds E te (queryFunc L vs addr (collect get (Members vs) [])) rounds h = (Ok cs, h') \<and>
    list_all2 (good_confirm addr sig L digest) (filter pub (Members vs)) cs"
proof -
  have "\<exists>c. unmarshal v = Ok c \<and> good_confirm addr sig L digest m c"
    if "m \<in> set (Members vs)" "(make n (EvmAddress m) (HashHex L digest), v) \<in> set P" for m v
    using network_record [OF assms(2) _ assms(6)] assms(3,5) that unfolding list_all_iff honest_for_def by blast
  from confirm_lookup.collect_published [where ms = "Members vs" and acc = "[]" and h = h and
      good = "good_confirm addr sig L digest", OF assms(7,4) this] obtain cs h' where
    q: "collect get (Members vs) [] h = (Ok cs, h')" and
    g: "list_all2 (good_confirm addr sig L digest) (filter pub (Members vs)) cs" unfolding pub_def by auto
  have "map addr cs = map EvmAddress (filter pub (Members vs))"
    using g by (induction rule: list_all2_induct) (auto simp: good_confirm_def)
  moreover have "cs \<noteq> []" using g assms(8) by (auto simp: list_ex_iff filter_empty_conv)
  ultimately show ?thesis using queryTwoThirds_first [where query = "collect get (Members vs) []", OF q] assms(9) g by auto
qed

end

section \<open>An orchestrator that publishes\<close>

text \<open>The digest of an attestation, for a data commitment as tendermint gives it.\<close>

definition digest_of :: "lib \<Rightarrow> env \<Rightarrow> attestation \<Rightarrow> hash \<Rightarrow> bool" where
  "digest_of L E att digest \<longleftrightarrow> (case att of
       AttValset vs \<Rightarrow> ValsetSignBytes L vs = Ok digest
     | AttDataCommitment dc \<Rightarrow> \<exists>commitment. (\<forall>h. tm_commitment E (BeginBlock dc) (EndBlock dc) h = Ok commitment) \<and>
         DataCommitmentTupleRootSignBytes L (int64 (DcNonce dc)) commitment = Ok digest
     | AttOther n \<Rightarrow> False)"

text \<open>What an orchestrator needs to publish its confirm of an attestation.\<close>

definition can_publish :: "lib \<Rightarrow> env \<Rightarrow> orchestrator \<Rightarrow> attestation \<Rightarrow> hash \<Rightarrow> bool" where
  "can_publish L E orch att digest \<longleftrightarrow> GetNonce att \<noteq> 1 \<and> \<not> NilKeyStore orch \<and> digest_of L E att digest \<and> (\<forall>h.
     (\<exists>s. app_attestation E None (GetNonce att) h = Ok (Some s) \<and> UnpackAny L (Some s) = Ok (Some att)) \<and>
     (case app_valset_before E None (GetNonce att) h of
        Ok (Some vs) \<Rightarrow> ValidatorPartOfValset (Members vs) (AddressHex L (EvmAccount orch))
      | Err e \<Rightarrow> True
      | _ \<Rightarrow> False) \<and>
     dht_get E (fst (confirm_put L (EvmAccount orch) att digest [])) h = Err RoutingNotFound \<and>
     0 < dht_peers E h \<and> (\<forall>k v. dht_put E k v h = Ok ()) \<and>
     is_Ok (ks_sign E (EvmAccount orch) (protectedHash L digest) h))"

context confirm_publisher
begin

lemma publishes:
  assumes "\<And>h. is_Ok (ks_sign E acc (protectedHash L digest) h)" and "\<And>h. 0 < dht_peers E h"
  shows "\<exists>t sig. snd (andThen (NewEthereumSignature L E digest False acc) (publish E digest) h) = t @ h \<and>
    record_of digest sig \<in> set (puts t)"
proof -
  let ?d = "protectedHash L digest"
  obtain sig where sig: "ks_sign E acc ?d h = Ok sig" using assms(1) unfolding is_Ok_iff by blast
  let ?h1 = "KsSign acc ?d (Ok sig) # h"
  let ?p = "Dht (ListPeers (dht_peers E ?h1))"
  let ?k = "fst (record_of digest sig)" and ?v = "snd (record_of digest sig)"
  have "snd (andThen (NewEthereumSignature L E digest False acc) (publish E digest) h) =
      Dht (PutValue ?k ?v (dht_put E ?k ?v (?p # ?h1))) # ?p # ?h1"
    using sig assms(2) [of ?h1] by (simp add: NewEthereumSignature_run andThen_Ok publish_run Let_def)
  then show ?thesis
    by (intro exI [of _ "[Dht (PutValue ?k ?v (dht_put E ?k ?v (?p # ?h1))), ?p, KsSign acc ?d (Ok sig)]"] exI [of _ sig]) simp
qed

end

lemma ProvideLatestValset_answers:
  assumes "\<And>h. 0 < dht_peers E h" and "\<And>k v h. dht_put E k v h = Ok ()"
  shows "\<exists>t. ignoreErr (ProvideLatestValset E lv) h = (Ok (), t @ h)"
  using assms by (force simp: ProvideLatestValset_def PutLatestValset_def MarshalLatestValset_def ignoreErr_run andThen_Ok)

lemma processAttestation_publishes:
  assumes "can_publish L E orch att digest"
  shows "\<exists>t sig. snd (processAttestation L E orch (GetNonce att) att h) = t @ h \<and>
    confirm_put L (EvmAccount orch) att digest sig \<in> set (puts t)"
proof -
  note c = assms [unfolded can_publish_def]
  let ?a = "EvmAccount orch"
  have sign: "\<And>h. is_Ok (ks_sign E ?a (protectedHash L digest) h)" and peers: "\<And>h. 0 < dht_peers E h"
    and get: "\<And>h. dht_get E (fst (confirm_put L ?a att digest [])) h = Err RoutingNotFound"
    and put: "\<And>k v h. dht_put E k v h = Ok ()" and nil: "NilKeyStore orch = False" using c by blast+
  show ?thesis
  proof (cases att)
    case (AttDataCommitment dc)
    let ?k = "GetDataCommitmentConfirmKey (DcNonce dc) (AddressHex L ?a) (HashHex L digest)"
    obtain commitment where d: "\<And>h. tm_commitment E (BeginBlock dc) (EndBlock dc) h = Ok commitment"
      "DataCommitmentTupleRootSignBytes L (int64 (DcNonce dc)) commitment = Ok digest"
      using c AttDataCommitment by (auto simp: digest_of_def)
    let ?h1 = "Tm (Commitment (BeginBlock dc) (EndBlock dc) (Ok commitment)) # h"
    let ?h2 = "Dht (GetValue ?k (Err RoutingNotFound)) # ?h1"
    have q: "QueryCommitment E (BeginBlock dc) (EndBlock dc) h = (Ok commitment, ?h1)" by (simp add: QueryCommitment_def d)
    have "QueryDataCommitmentConfirmByEVMAddress E (DcNonce dc) (AddressHex L ?a) (HashHex L digest) ?h1 = (Ok None, ?h2)"
      using get AttDataCommitment
      by (simp add: QueryDataCommitmentConfirmByEVMAddress_def handle_def GetDataCommitmentConfirm_run confirm_put_def dc_confirm_put_def)
    then have "snd (processAttestation L E orch (GetNonce att) att h) = snd (ProcessDataCommitmentEvent L E orch dc digest ?h2)"
      by (simp add: processAttestation_def AttDataCommitment processDataCommitment_def Let_def andThen_Ok q d(2) wrapping_Ok)
    moreover obtain t sig where "snd (ProcessDataCommitmentEvent L E orch dc digest ?h2) = t @ ?h2"
      "dc_confirm_put L ?a (DcNonce dc) digest sig \<in> set (puts t)"
      using dc_publisher.publishes [OF sign peers] unfolding ProcessDataCommitmentEvent_publish nil by blast
    ultimately show ?thesis using AttDataCommitment
      by (intro exI [of _ "t @ [Dht (GetValue ?k (Err RoutingNotFound)), Tm (Commitment (BeginBlock dc) (EndBlock dc) (Ok commitment))]"]
          exI [of _ sig]) (simp add: confirm_put_def)
  next
    case (AttValset vs)
    let ?k = "GetValsetConfirmKey (Nonce vs) (AddressHex L ?a) (HashHex L digest)"
    have d: "ValsetSignBytes L vs = Ok digest" using c AttValset by (simp add: digest_of_def)
    let ?h1 = "Dht (GetValue ?k (Err RoutingNotFound)) # h"
    have "QueryValsetConfirmByEVMAddress E (Nonce vs) (AddressHex L ?a) (HashHex L digest) h = (Ok None, ?h1)"
      using get AttValset
      by (simp add: QueryValsetConfirmByEVMAddress_def handle_def GetValsetConfirm_run confirm_put_def valset_confirm_put_def)
    then have p: "snd (processAttestation L E orch (GetNonce att) att h) = snd (ProcessValsetEvent L E orch vs ?h1)"
      by (simp add: processAttestation_def AttValset processValset_def Let_def andThen_Ok d wrapping_Ok)
    obtain t where t: "ignoreErr (ProvideLatestValset E (ToLatestValset vs)) ?h1 = (Ok (), t @ ?h1)"
      using ProvideLatestValset_answers [OF peers put] by blast
    obtain t' sig where "snd (andThen (NewEthereumSignature L E digest False ?a) (publishValset L ?a (Nonce vs) E digest) (t @ ?h1)) = t' @ t @ ?h1"
      "valset_confirm_put L ?a (Nonce vs) digest sig \<in> set (puts t')"
      using vs_publisher.publishes [OF sign peers] by blast
    then show ?thesis using AttValset p
      by (intro exI [of _ "t' @ t @ [Dht (GetValue ?k (Err RoutingNotFound))]"] exI [of _ sig])
        (simp add: ProcessValsetEvent_publish andThen_Ok t d nil confirm_put_def)
  qed (use c in \<open>simp add: digest_of_def\<close>)
qed

lemma Process_publishes:
  assumes "can_publish L E orch att digest"
  shows "fst (confirm_put L (EvmAccount orch) att digest []) \<in> fst ` set (run_puts L (E, orch, GetNonce att, h))"
proof -
  note c = assms [unfolded can_publish_def]
  let ?n = "GetNonce att" let ?app = "app_valset_before E None ?n"
  obtain s where s: "app_attestation E None ?n h = Ok (Some s)" "UnpackAny L (Some s) = Ok (Some att)"
    using c by blast
  let ?h1 = "App (Attestation None ?n (Ok (Some s))) # h"
  let ?h2 = "App (ValsetBefore None ?n (?app ?h1)) # ?h1"
  note run = Process_def QueryAttestationByNonce_def queryAttestation_def unmarshallAttestation_def andThen_Ok
    handle_def QueryLastValsetBeforeNonce_def
  have "\<exists>t. snd (Process L E orch ?n h) = snd (processAttestation L E orch ?n att (t @ ?h2))"
  proof (cases "?app ?h1")
    case (Ok vo)
    then obtain vs where vs: "vo = Some vs" "ValidatorPartOfValset (Members vs) (AddressHex L (EvmAccount orch))"
      using c by (cases vo) (auto dest!: spec [of _ ?h1])
    obtain t where "ignoreErr (ProvideLatestValset E (ToLatestValset vs)) ?h2 = (Ok (), t @ ?h2)"
      using c ProvideLatestValset_answers by blast
    then show ?thesis using c s Ok vs by (intro exI [of _ t]) (simp add: run)
  qed (use c s in \<open>auto dest!: spec [of _ ?h1] intro!: exI [of _ "[]"] simp: run\<close>)
  then obtain t t' sig where t: "snd (Process L E orch ?n h) = t' @ t @ ?h2"
    "confirm_put L (EvmAccount orch) att digest sig \<in> set (puts t')"
    using processAttestation_publishes [OF assms] by metis
  then have "confirm_put L (EvmAccount orch) att digest sig \<in> set (run_puts L (E, orch, ?n, h))"
    by (simp add: Let_def)
  moreover have "fst (confirm_put L (EvmAccount orch) att digest sig) = fst (confirm_put L (EvmAccount orch) att digest [])"
    by (cases att) (simp_all add: confirm_put_def dc_confirm_put_def valset_confirm_put_def)
  ultimately show ?thesis by (metis image_eqI)
qed

section \<open>Properties\<close>

text \<open>
  C5: What honest orchestrators have published is relayed. Any number of runs of \<open>Process\<close>, each
  with its own services and a lawful key store, put records on the network; what the relayer's DHT
  serves under the keys of the members is some of these records, under other keys it is anything.
  If the members whose confirm of the data commitment is there hold the threshold of the previous
  valset, and the application, tendermint and the store answer, then \<open>ProcessAttestation\<close> calls the
  contract, on the first query and whatever the timers do, with the signature of each of these
  members at its position and zeros for the others; its result is the contract's answer.
\<close>

theorem published_confirms_are_relayed:
  fixes L E pv dc digest P
  defines "pub \<equiv> published P (\<lambda>m. GetDataCommitmentConfirmKey (DcNonce dc) (EvmAddress m) (HashHex L digest))"
  assumes "list_all (run_laws L) runs"
    and "honest_for P (\<lambda>m. GetDataCommitmentConfirmKey (DcNonce dc) (EvmAddress m) (HashHex L digest)) (network L runs) (Members pv)"
    and "serves P E"
    and "\<And>h. app_valset_before E None (DcNonce dc) h = Ok (Some pv)"
    and "\<And>h. tm_commitment E (BeginBlock dc) (EndBlock dc) h = Ok commitment"
    and "DataCommitmentTupleRootSignBytes L (int64 (DcNonce dc)) commitment = Ok digest"
    and "store_answers E" and "ethValset L pv = Ok evals"
    and "list_all (\<lambda>m. key_part (EvmAddress m)) (Members pv)" and "list_ex pub (Members pv)"
    and "TwoThirdsThreshold L pv \<le> signed_power (Querier.vals pv) 0 (map EvmAddress (filter pub (Members pv)))"
  shows "\<exists>sigs r t. ProcessAttestation L E rounds opts (AttDataCommitment dc) h =
      (r, Contract (ContractSubmit opts (int64 (DcNonce dc)) (int64 (Nonce pv))
        (HexToHash L (HexBytesString L commitment)) evals sigs r) # t) \<and>
    list_all2 (member_entry L digest pub) (Members pv) sigs"
proof -
  obtain E0 acc where l: "signing_laws L E0 acc" using a_run [OF assms(2,3)] assms(11) unfolding pub_def by blast
  have d: "length digest = 32" using DataCommitmentTupleRootSignBytes_length [OF assms(7)] signing_lawsD(5) [OF l] by blast
  let ?h1 = "App (ValsetBefore None (DcNonce dc) (Ok (Some pv))) # h"
  let ?h2 = "Tm (Commitment (BeginBlock dc) (EndBlock dc) (Ok commitment)) # ?h1"
  obtain cs h3 where q: "QueryTwoThirdsDataCommitmentConfirms L E rounds pv (DcNonce dc) (HashHex L digest) ?h2 = (Ok cs, h3)"
    and g: "list_all2 (good_confirm DccEthAddress DccSignature L digest) (filter pub (Members pv)) cs"
    using dcc_kind.published_confirms [OF assms(2-4,10) d dcc_lookup.confirm_lookup_axioms assms(11,12) [unfolded pub_def]]
    unfolding pub_def QueryTwoThirdsDataCommitmentConfirms_def QueryDataCommitmentConfirms_def by blast
  obtain h4 where s: "SaveDataCommitmentSignaturesToStore L E dc (HashHex L digest) cs h3 = (Ok (), h4)"
    using SaveDataCommitment_answers [OF assms(8)] by blast
  obtain sigs where m: "matchAttestationConfirmSigs L (sigsMap DccEthAddress DccSignature Map.empty cs) pv = Ok sigs"
    and e: "list_all2 (member_entry L digest pub) (Members pv) sigs"
    using published_sigs [OF g] unfolding pub_def published_def by auto
  have v: "previousValsetOf L E (DcNonce dc) h = (Ok (Some pv), ?h1)"
    by (simp add: previousValsetOf_def QueryLastValsetBeforeNonce_def handle_def assms(5))
  have t: "QueryCommitment E (BeginBlock dc) (EndBlock dc) ?h1 = (Ok commitment, ?h2)"
    by (simp add: QueryCommitment_def assms(6))
  show ?thesis
    using e by (simp add: ProcessAttestation_def relayDataCommitment_def andThen_Ok v t q s assms(7,9)
        nil_deref_def Relayer_SubmitDataRootTupleRoot_def m SubmitDataRootTupleRoot_def)
qed

text \<open>
  C6: Likewise for a validator set that is not the first: when the members of the previous valset
  whose confirm of the new valset is on the network hold its threshold, the update is sent to the
  contract with their signatures and zeros for the others, the hash and the threshold of the new
  valset, and the nonce of the previous one.
\<close>

theorem published_valset_confirms_are_relayed:
  fixes L E pv vs digest P
  defines "pub \<equiv> published P (\<lambda>m. GetValsetConfirmKey (Nonce vs) (EvmAddress m) (HashHex L digest))"
  assumes "list_all (run_laws L) runs"
    and "honest_for P (\<lambda>m. GetValsetConfirmKey (Nonce vs) (EvmAddress m) (HashHex L digest)) (network L runs) (Members pv)"
    and "serves P E"
    and "\<And>h. app_valset_before E None (Nonce vs) h = Ok (Some pv)" and "Nonce vs \<noteq> 1"
    and "ValsetSignBytes L vs = Ok digest" and "ValsetHash L vs = Ok vh"
    and "store_answers E" and "ethValset L pv = Ok evals"
    and "list_all (\<lambda>m. key_part (EvmAddress m)) (Members pv)" and "list_ex pub (Members pv)"
    and "TwoThirdsThreshold L pv \<le> signed_power (Querier.vals pv) 0 (map EvmAddress (filter pub (Members pv)))"
  shows "\<exists>sigs r t. ProcessAttestation L E rounds opts (AttValset vs) h =
      (r, Contract (ContractUpdate opts (int64 (Nonce vs)) (int64 (Nonce pv)) (int64 (TwoThirdsThreshold L vs))
        vh evals sigs r) # t) \<and>
    list_all2 (member_entry L digest pub) (Members pv) sigs"
proof -
  obtain E0 acc where l: "signing_laws L E0 acc" using a_run [OF assms(2,3)] assms(12) unfolding pub_def by blast
  note d = signing_lawsD(4) [OF l assms(7)]
  let ?h1 = "App (ValsetBefore None (Nonce vs) (Ok (Some pv))) # h"
  obtain cs h3 where q: "QueryTwoThirdsValsetConfirms L E rounds (Nonce vs) pv (HashHex L digest) ?h1 = (Ok cs, h3)"
    and g: "list_all2 (good_confirm VcEthAddress VcSignature L digest) (filter pub (Members pv)) cs"
    using vc_kind.published_confirms [OF assms(2-4,11) d vc_lookup.confirm_lookup_axioms assms(12,13) [unfolded pub_def]]
    unfolding pub_def QueryTwoThirdsValsetConfirms_def QueryValsetConfirms_def by blast
  obtain h4 where s: "SaveValsetSignaturesToStore L E vs cs h3 = (Ok (), h4)"
    using SaveValset_answers [OF assms(9,7)] by blast
  obtain sigs where m: "matchAttestationConfirmSigs L (sigsMap VcEthAddress VcSignature Map.empty cs) pv = Ok sigs"
    and e: "list_all2 (member_entry L digest pub) (Members pv) sigs"
    using published_sigs [OF g] unfolding pub_def published_def by auto
  have v: "QueryLastValsetBeforeNonce E (Nonce vs) h' = (Ok (Some pv), App (ValsetBefore None (Nonce vs) (Ok (Some pv))) # h')" for h'
    by (simp add: QueryLastValsetBeforeNonce_def assms(5))
  then have p: "previousValsetOf L E (Nonce vs) h = (Ok (Some pv), ?h1)" by (simp add: previousValsetOf_def handle_def)
  show ?thesis
    using e assms(6) by (simp add: ProcessAttestation_def relayValset_def andThen_Ok p q s assms(7,8,10) nil_deref_def
        Relayer_UpdateValidatorSet_def v m UpdateValidatorSet_def Let_def)
qed

text \<open>
  A network for the witnesses: the orchestrator of the only member processes an attestation while
  its application cannot tell the valset before, and the relayer's DHT has what it put. The key store
  signs with the address of the account, and the curve's law is that it recovers from there.
\<close>

definition net_lib :: "attestation \<Rightarrow> lib" where
  "net_lib att = ref_lib\<lparr>Ecrecover := (\<lambda>d s. Ok (take 20 s)), UnpackAny := (\<lambda>_. Ok (Some att))\<rparr>"

definition net_sign :: "address \<Rightarrow> bytes" where
  "net_sign a = a @ replicate 43 0 @ [9, 1]"

definition net_orch_env :: env where
  "net_orch_env = ref_env\<lparr>app_attestation := (\<lambda>_ _ _. Ok (Some [])), tm_commitment := (\<lambda>_ _ _. Ok (replicate 32 1)),
     dht_peers := (\<lambda>_. 1), ks_sign := (\<lambda>a _ _. Ok (net_sign a))\<rparr>"

definition net_run :: "attestation \<Rightarrow> orch_run" where
  "net_run att = (net_orch_env, sample_orchestrator, GetNonce att, [])"

definition net_records :: "attestation \<Rightarrow> (string \<times> string) list" where
  "net_records att = network (net_lib att) [net_run att]"

definition net_member :: bridge_validator where
  "net_member = \<lparr>Power = 100, EvmAddress = AddressHex ref_lib (EvmAccount sample_orchestrator)\<rparr>"

definition net_valset :: valset where
  "net_valset = \<lparr>Nonce = 4, Members = [net_member], Height = 9, Time = 0\<rparr>"

definition net_env :: "attestation \<Rightarrow> env" where
  "net_env att = ref_env\<lparr>dht_get := (\<lambda>k _. case map_of (net_records att) k of Some v \<Rightarrow> Ok v | None \<Rightarrow> Err RoutingNotFound),
     app_valset_before := (\<lambda>_ _ _. Ok (Some net_valset)), tm_commitment := (\<lambda>_ _ _. Ok (replicate 32 1))\<rparr>"

lemma net_laws: "address_hex_law (net_lib att) (EvmAccount sample_orchestrator)" "hash_hex_law (net_lib att)"
proof -
  have "length (EvmAccount sample_orchestrator) = 20" by (simp add: sample_orchestrator_def)
  from ref_address_hex_law [OF this] show "address_hex_law (net_lib att) (EvmAccount sample_orchestrator)"
    by (simp add: address_hex_law_def net_lib_def)
  show "hash_hex_law (net_lib att)" using ref_hash_hex_law by (simp add: hash_hex_law_def net_lib_def)
qed

lemma net_splits:
  assumes "length a = 20"
  shows "is_Ok (SigToVRS (net_lib att) (hex_EncodeToString (net_sign a)))"
proof -
  have v: "be_value (replicate k 0 @ [9]) = 9" for k
    by (induction k) (simp_all add: be_value_Cons)
  have s: "\<not> str_le MalleabilityThreshold (HashHex (net_lib att) (replicate 31 0 @ [9]))"
    "HashHex (net_lib att) (replicate 31 0 @ [9]) \<noteq> ZeroSValue"
    using s_bounds [OF net_laws(2), of "replicate 31 0 @ [9]"] v [of 31] by (simp_all add: secp256k1_n_def)
  have f: "FromHex (net_lib att) (ToLower (hex_EncodeToString (net_sign a))) = net_sign a"
    by (simp add: net_lib_def ref_lib_def)
  have b: "length (net_sign a) = 65" "net_sign a ! 64 = 1"
    "BytesToHash (net_lib att) (take 32 (drop 32 (net_sign a))) = replicate 31 0 @ [9]"
    using net_laws(2) assms by (simp_all add: net_sign_def nth_append hash_hex_law_def)
  have "SigToVRS (net_lib att) (hex_EncodeToString (net_sign a)) =
      Ok (28, BytesToHash (net_lib att) (take 32 (net_sign a)), replicate 31 0 @ [9])"
    using s b unfolding SigToVRS_cases Let_def f by simp
  then show ?thesis by simp
qed

lemma net_run_laws: "list_all (run_laws (net_lib att)) [net_run att]"
proof -
  have a: "length (EvmAccount sample_orchestrator) = 20" by (simp add: sample_orchestrator_def)
  have "length (left_pad 32 b) = 32" for b by (simp add: left_pad_def)
  then have "signing_laws (net_lib att) net_orch_env (EvmAccount sample_orchestrator)"
    using a net_laws unfolding signing_laws_def
    by (simp add: net_sign_def net_orch_env_def) (simp add: net_lib_def ref_lib_def be_bytes_def)
  moreover have "Bytes2Hex (net_lib att) s = hex_EncodeToString s" for s by (simp add: net_lib_def ref_lib_def)
  ultimately show ?thesis using net_splits [OF a] by (simp add: net_run_def net_orch_env_def)
qed

lemma net_serves: "serves (net_records att) (net_env att)"
  unfolding serves_def net_env_def
  by (auto split: option.splits dest: map_of_SomeD simp: map_of_eq_None_iff)

lemma net_published:
  assumes "digest_of (net_lib att) net_orch_env att digest" and "GetNonce att \<noteq> 1"
    and "key net_member = fst (confirm_put (net_lib att) (EvmAccount sample_orchestrator) att digest [])"
  shows "published (net_records att) key net_member"
proof -
  have "can_publish (net_lib att) net_orch_env sample_orchestrator att digest"
    using assms(1,2) by (simp add: can_publish_def net_orch_env_def net_lib_def ref_env_def sample_orchestrator_def)
  from Process_publishes [OF this, of "[]"] show ?thesis
    by (simp add: assms(3) published_def net_records_def network_def net_run_def del: run_puts.simps)
qed

lemma net_facts:
  "store_answers (net_env att)" "list_all (\<lambda>m. key_part (EvmAddress m)) (Members net_valset)"
  "\<exists>evals. ethValset (net_lib att) net_valset = Ok evals"
  "TwoThirdsThreshold (net_lib att) net_valset \<le> signed_power (Querier.vals net_valset) 0 [EvmAddress net_member]"
  "EvmAddress net_member = AddressHex (net_lib att) (EvmAccount sample_orchestrator)"
proof -
  show e: "EvmAddress net_member = AddressHex (net_lib att) (EvmAccount sample_orchestrator)"
    by (simp add: net_member_def net_lib_def)
  have a: "key_part (EvmAddress net_member)" "IsHexAddress (net_lib att) (EvmAddress net_member)"
    using address_parts [OF net_laws(1) [of att]] unfolding e by simp_all
  show "list_all (\<lambda>m. key_part (EvmAddress m)) (Members net_valset)" by (simp add: net_valset_def a)
  show "\<exists>evals. ethValset (net_lib att) net_valset = Ok evals" by (simp add: ethValset_def net_valset_def a)
  show "store_answers (net_env att)" by (simp add: store_answers_def net_env_def ref_env_def)
  show "TwoThirdsThreshold (net_lib att) net_valset \<le> signed_power (Querier.vals net_valset) 0 [EvmAddress net_member]"
    by (simp add: net_lib_def ref_lib_def total_power_def Querier.vals_def net_valset_def) (simp add: net_member_def)
qed

lemma net_answers:
  "honest_for (net_records att) key (network (net_lib att) [net_run att]) ms"
  "app_valset_before (net_env att) None n h = Ok (Some net_valset)"
  "tm_commitment (net_env att) b e h = Ok (replicate 32 1)"
  by (simp_all add: net_records_def net_env_def honest_for_def)

lemma net_quorum:
  assumes "pub net_member"
  shows "list_ex pub (Members net_valset)"
    "TwoThirdsThreshold (net_lib att) net_valset \<le> signed_power (Querier.vals net_valset) 0 (map EvmAddress (filter pub (Members net_valset)))"
  using assms net_facts(4) [of att] by (simp_all add: net_valset_def)

text \<open>The network serves a relayer of the data commitment 5 and one of the valset 10.\<close>

abbreviation dc_att :: attestation where
  "dc_att \<equiv> AttDataCommitment relayed_dc"

abbreviation vs_att :: attestation where
  "vs_att \<equiv> AttValset sample_valset"

theorem published_confirms_are_relayed_witness:
  "\<exists>digest evals sig r t s. member_signed (net_lib dc_att) digest net_member sig \<and>
     SigToVRS (net_lib dc_att) sig = Ok (SigV s, SigR s, SigS s) \<and>
     ProcessAttestation (net_lib dc_att) (net_env dc_att) 1 sample_opts dc_att [] =
       (r, Contract (ContractSubmit sample_opts 5 4 (replicate 32 1) evals [s] r) # t)"
proof -
  let ?L = "net_lib dc_att" and ?c = "replicate 32 1 :: bytes"
  have dc: "DcNonce relayed_dc = 5" "int64 5 = 5" "int64 (Nonce net_valset) = 4"
    by (simp_all add: relayed_dc_def net_valset_def int64_def)
  obtain digest where d: "DataCommitmentTupleRootSignBytes ?L (int64 (DcNonce relayed_dc)) ?c = Ok digest"
    by (simp add: DataCommitmentTupleRootSignBytes_def net_lib_def ref_lib_def)
  let ?key = "\<lambda>m. GetDataCommitmentConfirmKey (DcNonce relayed_dc) (EvmAddress m) (HashHex ?L digest)"
  let ?pub = "published (net_records dc_att) ?key"
  have "digest_of ?L net_orch_env dc_att digest" using d by (simp add: digest_of_def net_orch_env_def)
  then have pub: "?pub net_member"
    by (rule net_published) (simp_all add: dc confirm_put_def dc_confirm_put_def net_facts(5) [of dc_att])
  obtain evals where v: "ethValset ?L net_valset = Ok evals" using net_facts(3) by blast
  obtain sigs r t where p: "ProcessAttestation ?L (net_env dc_att) 1 sample_opts dc_att [] =
      (r, Contract (ContractSubmit sample_opts (int64 (DcNonce relayed_dc)) (int64 (Nonce net_valset))
        (HexToHash ?L (HexBytesString ?L ?c)) evals sigs r) # t)"
    and e: "list_all2 (member_entry ?L digest ?pub) (Members net_valset) sigs"
    using published_confirms_are_relayed [OF net_run_laws net_answers(1) net_serves net_answers(2,3) d net_facts(1) v
        net_facts(2) net_quorum [where pub = ?pub, OF pub]] by blast
  have "HexToHash ?L (HexBytesString ?L ?c) = ?c" by (simp add: net_lib_def ref_lib_def left_pad_def)
  moreover obtain s where "sigs = [s]" "member_entry ?L digest ?pub net_member s"
    using e by (cases sigs) (auto simp: net_valset_def)
  ultimately show ?thesis using p pub dc unfolding member_entry_def by auto
qed

theorem published_valset_confirms_are_relayed_witness:
  "\<exists>digest vh evals sig r t s. member_signed (net_lib vs_att) digest net_member sig \<and>
     SigToVRS (net_lib vs_att) sig = Ok (SigV s, SigR s, SigS s) \<and>
     ProcessAttestation (net_lib vs_att) (net_env vs_att) 1 sample_opts vs_att [] =
       (r, Contract (ContractUpdate sample_opts 10 4 (int64 (TwoThirdsThreshold (net_lib vs_att) sample_valset)) vh evals [s] r) # t)"
proof -
  let ?L = "net_lib vs_att"
  have nonce: "Nonce sample_valset \<noteq> 1" and n: "Nonce sample_valset = 10" "int64 10 = 10" "int64 (Nonce net_valset) = 4"
    by (simp_all add: sample_valset_def net_valset_def int64_def)
  obtain digest where d: "ValsetSignBytes ?L sample_valset = Ok digest" by (simp add: net_lib_def ref_lib_def)
  obtain vh where h: "ValsetHash ?L sample_valset = Ok vh" by (simp add: net_lib_def ref_lib_def)
  let ?key = "\<lambda>m. GetValsetConfirmKey (Nonce sample_valset) (EvmAddress m) (HashHex ?L digest)"
  let ?pub = "published (net_records vs_att) ?key"
  have "digest_of ?L net_orch_env vs_att digest" using d by (simp add: digest_of_def)
  then have pub: "?pub net_member"
    by (rule net_published) (simp_all add: n confirm_put_def valset_confirm_put_def net_facts(5) [of vs_att])
  obtain evals where v: "ethValset ?L net_valset = Ok evals" using net_facts(3) by blast
  obtain sigs r t where p: "ProcessAttestation ?L (net_env vs_att) 1 sample_opts vs_att [] =
      (r, Contract (ContractUpdate sample_opts (int64 (Nonce sample_valset)) (int64 (Nonce net_valset))
        (int64 (TwoThirdsThreshold ?L sample_valset)) vh evals sigs r) # t)"
    and e: "list_all2 (member_entry ?L digest ?pub) (Members net_valset) sigs"
    using published_valset_confirms_are_relayed [OF net_run_laws net_answers(1) net_serves net_answers(2) nonce d h
        net_facts(1) v net_facts(2) net_quorum [where pub = ?pub, OF pub]] by blast
  obtain s where "sigs = [s]" "member_entry ?L digest ?pub net_member s"
    using e by (cases sigs) (auto simp: net_valset_def)
  then show ?thesis using p pub n unfolding member_entry_def by auto
qed

end
