(* ===== verification/Telemetry.thy ===== *)
theory Telemetry imports RelayerConfig begin

text \<open>
  \<open>telemetry/metrics.go\<close> and \<open>helpers/interrupt.go\<close>: the instruments of the two services, the start
  of the metrics provider and of the HTTP server of the libp2p metrics with the functions that
  stop them, and the goroutine that cancels the context of the services on a signal. The libraries
  of OpenTelemetry and Prometheus, the HTTP server and the signals answer through an environment;
  the calls to them are events.
\<close>

section \<open>Events\<close>

datatype os_signal = SIGTERM | SIGINT | OtherSignal nat

text \<open>A shut-down carries whether the context it is given is done.\<close>

datatype meter_event =
    NewCounter string "unit outcome"
  | NewHistogram string "unit outcome"
  | NewExporter "unit outcome"
  | NewProvider string string string
  | SetMeterProvider
  | StartRuntime "unit outcome"
  | ShutdownProvider bool "unit outcome"
  | HandlePath string
  | Listen string
  | ShutdownServer bool "unit outcome"
  | Caught os_signal
  | Cancelled

record meter_env =
  counter_new :: "string \<Rightarrow> meter_event list \<Rightarrow> unit outcome"
  histogram_new :: "string \<Rightarrow> meter_event list \<Rightarrow> unit outcome"
  exporter_new :: "meter_event list \<Rightarrow> unit outcome"
  runtime_start :: "meter_event list \<Rightarrow> unit outcome"
  provider_shutdown :: "bool \<Rightarrow> meter_event list \<Rightarrow> unit outcome"
  server_shutdown :: "bool \<Rightarrow> meter_event list \<Rightarrow> unit outcome"

type_synonym 'a metered = "(meter_event, 'a) io"

text \<open>The context of a service is done once \<open>cancel\<close> was called.\<close>

definition ctx_done :: "meter_event list \<Rightarrow> bool" where
  "ctx_done h \<longleftrightarrow> Cancelled \<in> set h"

section \<open>Instruments\<close>

text \<open>An instrument is known by its name.\<close>

definition Int64Counter :: "meter_env \<Rightarrow> string \<Rightarrow> string metered" where
  "Int64Counter M name = andThen (call (counter_new M name) (NewCounter name)) (\<lambda>_. ret name)"

definition Float64Histogram :: "meter_env \<Rightarrow> string \<Rightarrow> string metered" where
  "Float64Histogram M name = andThen (call (histogram_new M name) (NewHistogram name)) (\<lambda>_. ret name)"

record OrchestratorMeters =
  OrchProcessedNonces :: string
  FailedNonces :: string
  ReprocessedNonces :: string
  OrchProcessingTime :: string

definition InitOrchestratorMeters :: "meter_env \<Rightarrow> OrchestratorMeters metered" where
  "InitOrchestratorMeters M =
     andThen (Int64Counter M ''orchestrator_processed_nonces_counter'') (\<lambda>processedNonces.
     andThen (Int64Counter M ''orchestrator_failed_nonces_counter'') (\<lambda>failedNonces.
     andThen (Int64Counter M ''orchestrator_reprocessed_nonces_counter'') (\<lambda>reprocessedNonces.
     andThen (Float64Histogram M ''orchestrator_processing_time'') (\<lambda>processingTime.
     ret \<lparr>OrchProcessedNonces = processedNonces, FailedNonces = failedNonces,
       ReprocessedNonces = reprocessedNonces, OrchProcessingTime = processingTime\<rparr>))))"

record RelayerMeters =
  RelProcessedNonces :: string
  Failures :: string
  RelProcessingTime :: string

definition InitRelayerMeters :: "meter_env \<Rightarrow> RelayerMeters metered" where
  "InitRelayerMeters M =
     andThen (Int64Counter M ''relayer_processed_nonces_counter'') (\<lambda>processedNonces.
     andThen (Int64Counter M ''relayer_number_of_failures'') (\<lambda>failedNonces.
     andThen (Float64Histogram M ''relayer_processing_time'') (\<lambda>processingTime.
     ret \<lparr>RelProcessedNonces = processedNonces, Failures = failedNonces, RelProcessingTime = processingTime\<rparr>)))"

section \<open>The provider and the server\<close>

definition globalMetricsNamespace :: string where
  "globalMetricsNamespace = ''blobstream''"

definition promAgentEndpoint :: string where
  "promAgentEndpoint = ''/metrics''"

text \<open>The functions that stop them close over the context of the service.\<close>

definition stopProvider :: "meter_env \<Rightarrow> unit metered" where
  "stopProvider M h = call (provider_shutdown M (ctx_done h)) (ShutdownProvider (ctx_done h)) h"

definition stopServer :: "meter_env \<Rightarrow> unit metered" where
  "stopServer M h = call (server_shutdown M (ctx_done h)) (ShutdownServer (ctx_done h)) h"

definition noting :: "meter_event \<Rightarrow> unit metered" where
  "noting e h = (Ok (), e # h)"

text \<open>The first result is the registry of Prometheus, the second the stop function.\<close>

datatype registerer = Registry | OtherRegisterer

definition Start :: "meter_env \<Rightarrow> string \<Rightarrow> string \<Rightarrow> (registerer \<times> unit metered) metered" where
  "Start M serviceName instanceID =
     andThen (call (exporter_new M) NewExporter) (\<lambda>exp.
     andThen (noting (NewProvider globalMetricsNamespace serviceName instanceID)) (\<lambda>provider.
     andThen (noting SetMeterProvider) (\<lambda>_.
     handle (call (runtime_start M) StartRuntime)
       (\<lambda>_. ret (Registry, stopProvider M))
       (\<lambda>e. throw (Wrap e ''start runtime metrics'')))))"

text \<open>
  The type assertion panics on another registerer. The server listens in a goroutine of its own,
  which only logs what \<open>ListenAndServe\<close> returns.
\<close>

definition PrometheusMetrics :: "meter_env \<Rightarrow> registerer \<Rightarrow> string \<Rightarrow> (unit metered) metered" where
  "PrometheusMetrics M registerer listenAddress = (case registerer of
       OtherRegisterer \<Rightarrow> panic ''interface conversion''
     | Registry \<Rightarrow>
         andThen (noting (HandlePath promAgentEndpoint)) (\<lambda>_.
         andThen (noting (Listen listenAddress)) (\<lambda>_.
         ret (stopServer M))))"

section \<open>Signals\<close>

text \<open>
  The channel gets only the two signals it was registered for; \<open>arriving\<close> are the signals of the
  process in their order.
\<close>

fun TrapSignal :: "os_signal list \<Rightarrow> unit metered" where
  "TrapSignal [] = lift Blocked"
| "TrapSignal (sig # arriving) =
     (if sig = SIGTERM \<or> sig = SIGINT
      then andThen (noting (Caught sig)) (\<lambda>_. noting Cancelled)
      else TrapSignal arriving)"

section \<open>What a start command does with them\<close>

text \<open>
  The block of the start commands: the provider, the server, then the service. When it is over, with
  or without an error, the deferred function calls the two stop functions in the order in which
  they were registered; their errors are logged.
\<close>

definition stopping :: "unit metered \<Rightarrow> unit metered" where
  "stopping m = handle m ret (\<lambda>_. ret ())"

definition deferring :: "'a metered \<Rightarrow> unit metered \<Rightarrow> 'a metered" where
  "deferring body stops h = (case body h of (r, h1) \<Rightarrow> if r = Blocked then (Blocked, h1) else (r, snd (stops h1)))"

definition metered_service :: "meter_env \<Rightarrow> telemetry_config \<Rightarrow> string \<Rightarrow> string \<Rightarrow> unit metered \<Rightarrow> unit metered" where
  "metered_service M cfg serviceName instanceID service =
     (if \<not> Metrics cfg then service
      else
        andThen (Start M serviceName instanceID) (\<lambda>(registerer, shutdown).
        andThen (PrometheusMetrics M registerer (P2PEndpoint cfg)) (\<lambda>shutdownServer.
        deferring service (andThen (stopping shutdown) (\<lambda>_. stopping shutdownServer)))))"

section \<open>Lemmas\<close>

lemma noting_run [simp]: "noting e h = (Ok (), e # h)"
  by (simp add: noting_def)

text \<open>The instruments of a service are all made, or the error of the first that is not is returned.\<close>

lemma InitOrchestratorMeters_Ok:
  assumes "InitOrchestratorMeters M h = (Ok meters, h')"
  shows "meters = \<lparr>OrchProcessedNonces = ''orchestrator_processed_nonces_counter'',
      FailedNonces = ''orchestrator_failed_nonces_counter'',
      ReprocessedNonces = ''orchestrator_reprocessed_nonces_counter'',
      OrchProcessingTime = ''orchestrator_processing_time''\<rparr> \<and>
    h' = [NewHistogram (OrchProcessingTime meters) (Ok ()), NewCounter (ReprocessedNonces meters) (Ok ()),
      NewCounter (FailedNonces meters) (Ok ()), NewCounter (OrchProcessedNonces meters) (Ok ())] @ h"
  using assms unfolding InitOrchestratorMeters_def Int64Counter_def Float64Histogram_def
  by (elim andThen_OkE) (auto simp: andThen_eq_Ok)

lemma InitRelayerMeters_Ok:
  assumes "InitRelayerMeters M h = (Ok meters, h')"
  shows "meters = \<lparr>RelProcessedNonces = ''relayer_processed_nonces_counter'',
      Failures = ''relayer_number_of_failures'', RelProcessingTime = ''relayer_processing_time''\<rparr> \<and>
    h' = [NewHistogram (RelProcessingTime meters) (Ok ()), NewCounter (Failures meters) (Ok ()),
      NewCounter (RelProcessedNonces meters) (Ok ())] @ h"
  using assms unfolding InitRelayerMeters_def Int64Counter_def Float64Histogram_def
  by (elim andThen_OkE) (auto simp: andThen_eq_Ok)

lemma Start_run:
  "Start M name inst h =
     (let h1 = NewExporter (exporter_new M h) # h;
          h2 = SetMeterProvider # NewProvider globalMetricsNamespace name inst # h1;
          h3 = StartRuntime (runtime_start M h2) # h2
      in case exporter_new M h of
           Ok _ \<Rightarrow> (case runtime_start M h2 of
               Ok _ \<Rightarrow> (Ok (Registry, stopProvider M), h3)
             | Err e \<Rightarrow> (Err (Wrap e ''start runtime metrics''), h3)
             | Panic p \<Rightarrow> (Panic p, h3)
             | Blocked \<Rightarrow> (Blocked, h3))
         | Err e \<Rightarrow> (Err e, h1) | Panic p \<Rightarrow> (Panic p, h1) | Blocked \<Rightarrow> (Blocked, h1))"
  by (simp add: Start_def andThen_def handle_def Let_def split: outcome.split)

lemma PrometheusMetrics_run:
  "PrometheusMetrics M Registry addr h = (Ok (stopServer M), Listen addr # HandlePath promAgentEndpoint # h)"
  by (simp add: PrometheusMetrics_def andThen_Ok)

lemma TrapSignal_waits: "fst (TrapSignal sigs h) = Blocked \<longleftrightarrow> SIGTERM \<notin> set sigs \<and> SIGINT \<notin> set sigs"
  by (induction sigs) (auto simp: andThen_Ok)

lemma TrapSignal_cancels:
  assumes "SIGTERM \<in> set sigs \<or> SIGINT \<in> set sigs"
  shows "\<exists>sig. sig \<in> {SIGTERM, SIGINT} \<inter> set sigs \<and> TrapSignal sigs h = (Ok (), Cancelled # Caught sig # h)"
  using assms by (induction sigs) (auto simp: andThen_Ok)

lemma stopProvider_run:
  "stopProvider M h = (provider_shutdown M (ctx_done h) h, ShutdownProvider (ctx_done h) (provider_shutdown M (ctx_done h) h) # h)"
  by (simp add: stopProvider_def)

lemma stopServer_run:
  "stopServer M h = (server_shutdown M (ctx_done h) h, ShutdownServer (ctx_done h) (server_shutdown M (ctx_done h) h) # h)"
  by (simp add: stopServer_def)

text \<open>
  When the runtime metrics do not start, the provider is installed and nobody gets the function that
  shuts it down.
\<close>

lemma runtime_failure_leaves_provider:
  assumes "exporter_new M h = Ok ()" and "\<And>h. runtime_start M h = Err e"
  shows "\<exists>h'. metered_service M (cfg\<lparr>Metrics := True\<rparr>) name inst service h = (Err (Wrap e ''start runtime metrics''), h') \<and>
    SetMeterProvider \<in> set h' \<and> h' = take 4 h' @ h \<and> \<not> (\<exists>c r. ShutdownProvider c r \<in> set (take 4 h'))"
  using assms by (simp add: metered_service_def andThen_def Start_run Let_def)

text \<open>
  Whichever way a service ends, both are stopped, the provider first. A service that was ended by a
  signal leaves both stop functions a context that is done; one that ended otherwise does not.
\<close>

lemma metered_service_stops:
  assumes "Metrics cfg" and "exporter_new M h = Ok ()" and "\<And>h. runtime_start M h = Ok ()"
    and "\<And>b h. provider_shutdown M b h \<notin> range Panic \<union> {Blocked}" and "r \<noteq> Blocked"
    and "service (Listen (P2PEndpoint cfg) # HandlePath promAgentEndpoint # StartRuntime (Ok ()) # SetMeterProvider #
      NewProvider globalMetricsNamespace name inst # NewExporter (Ok ()) # h) = (r, h1)"
  shows "\<exists>s s'. metered_service M cfg name inst service h =
    (r, ShutdownServer (ctx_done h1) s' # ShutdownProvider (ctx_done h1) s # h1)"
proof -
  let ?h2 = "ShutdownProvider (ctx_done h1) (provider_shutdown M (ctx_done h1) h1) # h1"
  have d: "ctx_done ?h2 = ctx_done h1" by (simp add: ctx_done_def)
  have p: "stopping (stopProvider M) h1 = (Ok (), ?h2)"
    using assms(4) [of "ctx_done h1" h1]
    by (cases "provider_shutdown M (ctx_done h1) h1") (auto simp: stopping_def handle_def stopProvider_run)
  have "snd (stopping (stopServer M) ?h2) = ShutdownServer (ctx_done h1) (server_shutdown M (ctx_done ?h2) ?h2) # ?h2"
    by (cases "server_shutdown M (ctx_done ?h2) ?h2") (simp_all add: stopping_def handle_def stopServer_run d)
  then show ?thesis
    using assms(1-3,5,6) p
    by (simp add: metered_service_def andThen_Ok Start_run Let_def PrometheusMetrics_run deferring_def)
qed

lemma signal_stops_with_done_context:
  assumes "Metrics cfg" and "exporter_new M h = Ok ()" and "\<And>h. runtime_start M h = Ok ()"
    and "\<And>b h. provider_shutdown M b h \<notin> range Panic \<union> {Blocked}" and "SIGTERM \<in> set sigs \<or> SIGINT \<in> set sigs"
  shows "\<exists>s s' t. metered_service M cfg name inst (TrapSignal sigs) h = (Ok (), ShutdownServer True s' # ShutdownProvider True s # t)"
proof -
  let ?h = "Listen (P2PEndpoint cfg) # HandlePath promAgentEndpoint # StartRuntime (Ok ()) # SetMeterProvider #
      NewProvider globalMetricsNamespace name inst # NewExporter (Ok ()) # h"
  obtain sig where "TrapSignal sigs ?h = (Ok (), Cancelled # Caught sig # ?h)" using TrapSignal_cancels [OF assms(5)] by blast
  from metered_service_stops [where service = "TrapSignal sigs", OF assms(1-4) _ this] show ?thesis by (fastforce simp: ctx_done_def)
qed

end
