(* ===== verification/Commands.thy ===== *)
theory Commands imports GoStd begin

text \<open>
  The tree of commands that \<open>root/cmd.go\<close>, \<open>keys/keys.go\<close> and the \<open>Command\<close> functions build, with
  the check that each asks for and the arguments that its \<open>RunE\<close> reads. How cobra finds a command from
  the words of a command line is a parameter, of which only the documented law of the checks is
  used; so are the commands that do not come from the repository, \<open>verify\<close> and those that cobra adds.
\<close>

section \<open>Commands\<close>

text \<open>The field \<open>Args\<close>; \<open>ArbitraryArgs\<close> stands for none. The number of arguments that each admits is documented.\<close>

datatype args_check = ArbitraryArgs | NoArgs | ExactArgs nat | MaximumNArgs nat

fun checks :: "args_check \<Rightarrow> nat \<Rightarrow> bool" where
  "checks ArbitraryArgs n \<longleftrightarrow> True"
| "checks NoArgs n \<longleftrightarrow> n = 0"
| "checks (ExactArgs k) n \<longleftrightarrow> n = k"
| "checks (MaximumNArgs k) n \<longleftrightarrow> n \<le> k"

text \<open>
  A command: its name (the first word of \<open>Use\<close>), its aliases, its check, and its subcommands. \<open>Reads\<close>
  is \<open>None\<close> when it does not run, else the number of arguments that it reads without looking at
  their number first.
\<close>

datatype cobra = Command (Name: string) (Aliases: "string list") (Args: args_check) (Reads: "nat option") (Subs: "cobra list")

abbreviation leaf :: "string \<Rightarrow> args_check \<Rightarrow> nat \<Rightarrow> cobra" where
  "leaf name check reads \<equiv> Command name [] check (Some reads) []"

abbreviation group :: "string \<Rightarrow> string list \<Rightarrow> cobra list \<Rightarrow> cobra" where
  "group name aliases subs \<equiv> Command name aliases ArbitraryArgs None subs"

section \<open>keys/\<close>

definition evm_Import :: cobra where
  "evm_Import = group ''import'' []
     [leaf ''file'' (ExactArgs 1) 1, leaf ''ecdsa'' (ExactArgs 1) 1, leaf ''mnemonic'' (ExactArgs 0) 0]"

definition evm_Root :: cobra where
  "evm_Root = group ''evm'' []
     [leaf ''add'' ArbitraryArgs 0, leaf ''list'' ArbitraryArgs 0, leaf ''delete'' (ExactArgs 1) 1, evm_Import,
      leaf ''update'' (ExactArgs 1) 1]"

definition p2p_Root :: cobra where
  "p2p_Root = group ''p2p'' []
     [leaf ''add'' (MaximumNArgs 1) 0, leaf ''list'' (ExactArgs 0) 0, leaf ''import'' (ExactArgs 2) 2,
      leaf ''delete'' (MaximumNArgs 1) 1]"

definition keys_Command :: cobra where
  "keys_Command = group ''keys'' [] [evm_Root, p2p_Root]"

section \<open>The commands of the root\<close>

definition orchestrator_Command :: cobra where
  "orchestrator_Command = group ''orchestrator'' [''orch'']
     [leaf ''start'' ArbitraryArgs 0, leaf ''init'' ArbitraryArgs 0, keys_Command]"

definition relayer_Command :: cobra where
  "relayer_Command = group ''relayer'' [''rel'']
     [leaf ''start'' ArbitraryArgs 0, leaf ''init'' ArbitraryArgs 0, keys_Command]"

definition bootstrapper_Command :: cobra where
  "bootstrapper_Command = group ''bootstrapper'' [''bs'']
     [leaf ''start'' ArbitraryArgs 0, leaf ''init'' ArbitraryArgs 0, p2p_Root]"

definition deploy_Command :: cobra where
  "deploy_Command = Command ''deploy'' [] ArbitraryArgs (Some 0) [keys_Command]"

definition generate_Command :: cobra where
  "generate_Command = leaf ''generate'' ArbitraryArgs 0"

definition version_Cmd :: cobra where
  "version_Cmd = leaf ''version'' NoArgs 0"

definition query_Signers :: cobra where
  "query_Signers = group ''signers'' [''s''] [leaf ''nonce'' (ExactArgs 1) 1, leaf ''range'' (ExactArgs 2) 2]"

definition query_Command :: cobra where
  "query_Command = group ''query'' [''q''] [query_Signers, leaf ''signature'' (ExactArgs 2) 2]"

definition root_Cmd :: "cobra list \<Rightarrow> cobra" where
  "root_Cmd others = group ''blobstream'' []
     ([orchestrator_Command, relayer_Command, deploy_Command, generate_Command, query_Command,
       bootstrapper_Command, version_Cmd] @ others)"

section \<open>Running a command\<close>

datatype verdict = Runs cobra "string list" | ShowsHelp | Refuses

primrec nodes :: "cobra \<Rightarrow> cobra list" where
  "nodes (Command n as ck r subs) = Command n as ck r subs # concat (map nodes subs)"

text \<open>
  The documented law of cobra: what it runs for the words of a command line is a runnable command of
  the tree, with arguments that its check admits.
\<close>

definition cobra_law :: "(cobra \<Rightarrow> string list \<Rightarrow> verdict) \<Rightarrow> bool" where
  "cobra_law X \<longleftrightarrow> (\<forall>root ws c args. X root ws = Runs c args \<longrightarrow>
     c \<in> set (nodes root) \<and> Reads c \<noteq> None \<and> checks (Args c) (length args))"

section \<open>Lemmas\<close>

lemma nodes_self [simp]: "c \<in> set (nodes c)"
  by (cases c) simp

lemma nodes_trans: "d \<in> set (nodes c) \<Longrightarrow> e \<in> set (nodes d) \<Longrightarrow> e \<in> set (nodes c)"
  by (induction c) auto

lemma Subs_nodes: "s \<in> set (Subs c) \<Longrightarrow> s \<in> set (nodes c)"
  by (cases c) (auto intro!: bexI [of _ s])

text \<open>The check of a command admits no call with fewer arguments than it reads.\<close>

fun enough :: "cobra \<Rightarrow> bool" where
  "enough (Command n as ck r subs) \<longleftrightarrow> (case r of None \<Rightarrow> True | Some k \<Rightarrow> (\<forall>j < k. \<not> checks ck j))"

definition delete_nickname :: cobra where
  "delete_nickname = leaf ''delete'' (MaximumNArgs 1) 1"

lemma command_nodes:
  "\<forall>c \<in> set (nodes (root_Cmd others)). c = delete_nickname \<or> enough c \<or> (\<exists>other \<in> set others. c \<in> set (nodes other))"
  by (auto simp: root_Cmd_def orchestrator_Command_def relayer_Command_def deploy_Command_def generate_Command_def
      query_Command_def query_Signers_def bootstrapper_Command_def version_Cmd_def keys_Command_def evm_Root_def
      p2p_Root_def evm_Import_def delete_nickname_def less_Suc_eq numeral_2_eq_2)

section \<open>Enough arguments\<close>

text \<open>
  However cobra finds a command, a command of the repository that it runs has as many arguments as
  it reads without checking, but for \<open>keys p2p delete\<close>: without a nickname it is run with no argument
  and reads the first.
\<close>

theorem commands_have_the_arguments_they_read:
  assumes "cobra_law X" and "X (root_Cmd others) ws = Runs c args" and "\<And>other. other \<in> set others \<Longrightarrow> c \<notin> set (nodes other)"
  shows "(\<exists>k. Reads c = Some k \<and> k \<le> length args) \<or> (c = delete_nickname \<and> args = [])"
proof -
  have c: "c \<in> set (nodes (root_Cmd others))" and k: "Reads c \<noteq> None" "checks (Args c) (length args)"
    using assms(1,2) unfolding cobra_law_def by blast+
  then obtain j where j: "Reads c = Some j" by blast
  show ?thesis
  proof (cases "c = delete_nickname")
    case True
    then show ?thesis using j by (auto simp: delete_nickname_def Suc_le_eq)
  next
    case False
    then have "enough c" using command_nodes c assms(3) by blast
    then show ?thesis using j k by (cases c) (auto simp: not_less [symmetric])
  qed
qed

text \<open>A lawful way of finding the command, for the witness: down the tree by names and aliases.\<close>

definition called :: "string \<Rightarrow> cobra \<Rightarrow> bool" where
  "called w c \<longleftrightarrow> w = Name c \<or> w \<in> set (Aliases c)"

function Find :: "cobra \<Rightarrow> string list \<Rightarrow> cobra \<times> string list" where
  "Find c [] = (c, [])"
| "Find c (w # ws) = (case find (called w) (Subs c) of None \<Rightarrow> (c, w # ws) | Some sub \<Rightarrow> Find sub ws)"
  by pat_completeness auto
termination by (relation "measure (\<lambda>(c, ws). length ws)") simp_all

definition execute :: "cobra \<Rightarrow> string list \<Rightarrow> verdict" where
  "execute root ws =
     (case Find root ws of (c, args) \<Rightarrow>
        if c = root \<and> args \<noteq> [] then Refuses
        else if Reads c = None then ShowsHelp
        else if checks (Args c) (length args) then Runs c args
        else Refuses)"

lemma Find_nodes: "fst (Find c ws) \<in> set (nodes c)"
proof (induction c ws rule: Find.induct)
  case (2 c w ws)
  show ?case
  proof (cases "find (called w) (Subs c)")
    case (Some s)
    then have "s \<in> set (Subs c)" by (auto simp: find_Some_iff)
    then show ?thesis using 2 [OF Some] Some nodes_trans Subs_nodes by simp blast
  qed simp
qed simp

lemma execute_law: "cobra_law execute"
  unfolding cobra_law_def
proof (intro allI impI)
  fix root ws c args
  assume "execute root ws = Runs c args"
  then show "c \<in> set (nodes root) \<and> Reads c \<noteq> None \<and> checks (Args c) (length args)"
    using Find_nodes [of root ws] by (auto simp: execute_def split: prod.splits if_splits)
qed

theorem commands_have_the_arguments_they_read_witness:
  "execute (root_Cmd []) [''rel'', ''keys'', ''p2p'', ''delete''] = Runs delete_nickname [] \<and>
   (\<exists>c. execute (root_Cmd []) [''q'', ''s'', ''range'', ''5'', ''latest''] = Runs c [''5'', ''latest''] \<and> Reads c = Some 2) \<and>
   execute (root_Cmd []) [''query'', ''signers'', ''nonce''] = Refuses"
proof -
  note defs = execute_def called_def root_Cmd_def orchestrator_Command_def relayer_Command_def deploy_Command_def
    generate_Command_def query_Command_def query_Signers_def bootstrapper_Command_def version_Cmd_def keys_Command_def
    evm_Root_def p2p_Root_def evm_Import_def delete_nickname_def
  have r: "execute (root_Cmd []) [''q'', ''s'', ''range'', ''5'', ''latest''] =
      Runs (leaf ''range'' (ExactArgs 2) 2) [''5'', ''latest'']" by (simp add: defs)
  moreover have "execute (root_Cmd []) [''rel'', ''keys'', ''p2p'', ''delete''] = Runs delete_nickname []"
    "execute (root_Cmd []) [''query'', ''signers'', ''nonce''] = Refuses" by (simp_all add: defs)
  ultimately show ?thesis using commands_have_the_arguments_they_read [OF execute_law r] by simp
qed

end
