(* ===== verification/Spec2Isabelle.thy ===== *)
theory Spec2Isabelle imports OrchSafety OrchQueue RelaySafety RelayerLoop StoreSafety Deploy QueryCmd StartupSafety InitCmd QueryFile ConfigFile Network Telemetry Commands begin

text \<open>
  A verification library for the blobstream orchestrator and relayer. An orchestrator watches a
  celestia application for attestations (validator sets and data commitments), signs their digests
  with its EVM key and publishes the signatures, called confirms, in a DHT. A relayer collects the
  confirms of a validator set with two thirds of the power and sends them to a contract on an EVM
  chain.

  The model. A Go function with effects is a program over a history (\<open>Prelude\<close>, \<open>World\<close>):
  \<open>'a prog\<close> takes the events so far, latest first, and returns an outcome (\<open>Ok\<close>, \<open>Err\<close>, \<open>Panic\<close>, or
  \<open>Blocked\<close> for a wait without end) with the history extended by its own events. What is outside the
  repository answers through \<open>env\<close>: every answer is a function of the history, so it may change from
  call to call and fail at any call. Pure library functions (hashing, ABI encoding, hex forms of
  addresses) are the fields of \<open>lib\<close>. Nothing is assumed about either, unless a theorem says so.
  64-bit integers are words and wrap; \<open>int64\<close> is the signed reading. Logging has no effect and is
  left out.

  The theories, with the code under \<open>src/\<close> that they model:

  \<^item> \<open>Prelude\<close>, \<open>GoStd\<close>, \<open>World\<close>: outcomes, errors (\<open>types/errors.go\<close> and the \<open>errors.go\<close> of the
    packages), programs and their traces, strings, \<open>strconv\<close> and \<open>strings\<close>, the environment.
    \<open>Json\<close>, \<open>JsonRoundtrip\<close>: \<open>encoding/json\<close> as far as the messages use it. \<open>Reference\<close>: an
    instance of the libraries and of the environment for the witnesses. \<open>HexOrder\<close>: the order of hex
    strings is the order of the numbers.
  \<^item> \<open>Types\<close>: \<open>types/\<close>, the confirms and the latest valset with their encodings.
  \<^item> \<open>Keys\<close>, \<open>Validators\<close>, \<open>Dht\<close>, \<open>Querier\<close>: \<open>p2p/keys.go\<close>, \<open>validators.go\<close>, \<open>dht.go\<close>,
    \<open>querier.go\<close>. The validators are called by the DHT when a record is put and when it is found.
  \<^item> \<open>Evm\<close>: \<open>evm/\<close>, signatures and the client of the contract.
  \<^item> \<open>Helpers\<close>, \<open>Rpc\<close>: \<open>helpers/\<close> and \<open>rpc/\<close>, the retrier, the ticker and the queries of the
    application and of tendermint.
  \<^item> \<open>Orchestrator\<close>: \<open>orchestrator/\<close>, one definition per method. \<open>OrchTrace\<close> and \<open>OrchSafety\<close> say
    what a run signs and publishes. \<open>OrchQueue\<close>: the goroutines of \<open>Start\<close> and the channels
    between them as a step relation, with ghost fields that account for every nonce; the two
    channels are closed one after the other, as the deferred calls run.
  \<^item> \<open>Relayer\<close>, \<open>RelayTx\<close>, \<open>RelayerLoop\<close>: \<open>relayer/relayer.go\<close>, one attestation, waiting for its
    transaction, and the loop over attestations. \<open>RelayTrace\<close> and \<open>RelaySafety\<close> say what is sent to
    the contract and when: \<open>saved_batch\<close> is the exact list of events of a successful save of given
    confirms.
  \<^item> \<open>Network\<close>: the two services together. The records that runs of \<open>Process\<close> put are a network, a DHT
    that serves (some of) them is the one of the relayer, and \<open>ProcessAttestation\<close> works over it.
  \<^item> \<open>FileSys\<close>, \<open>Fslock\<close>, \<open>Store\<close>, \<open>StoreSafety\<close>: \<open>store/\<close> over a file system with inodes, open
    descriptors and locks; the lock file also with the system calls of several processes interleaved.
    \<open>StoreSafety\<close> says what happens to others while a store is open (\<open>meanwhile\<close>: they open, initialise
    and work in the directories of the libraries).
  \<^item> \<open>Flags\<close>, \<open>RelayerConfig\<close>, \<open>OrchConfig\<close>, \<open>Configs\<close>: the flags and configurations of the commands
    under \<open>cmd/blobstream/\<close>. \<open>ConfigFile\<close>: the text of the configuration files and how it is read,
    with the reader of TOML and the conversions of mapstructure as parameters (\<open>viper_reads\<close>).
  \<^item> \<open>Deploy\<close>, \<open>QueryCmd\<close>, \<open>QueryFile\<close>, \<open>KeyStores\<close>, \<open>KeyStoreSafety\<close>: the commands \<open>deploy\<close>, \<open>query\<close> and
    \<open>keys\<close>. The keystores and the terminal answer through an environment of their own.
  \<^item> \<open>Startup\<close>, \<open>StartupSafety\<close>: the \<open>start\<close> commands and the set-up of \<open>query\<close>, with
    \<open>common/helpers.go\<close> and \<open>p2p/host.go\<close>: which calls are made in which order, and which stop functions
    run at every exit; \<open>release_of\<close> names the release of every call that acquires something, and \<open>lost\<close>
    says which of these releases do not happen. \<open>InitCmd\<close>: the \<open>init\<close> commands and the creation of the configuration file, on the
    file system of the store.
  \<^item> \<open>Telemetry\<close>: \<open>telemetry/metrics.go\<close> and \<open>helpers/interrupt.go\<close>, the instruments, the provider and
    the server of metrics with their stop functions, and the signals that cancel the context.
    \<open>Commands\<close>: the tree of commands of \<open>root/cmd.go\<close> and \<open>keys/keys.go\<close> with their argument checks.

  How the parts interact. The start commands validate the configuration, acquire the queriers, the
  store, the account and the DHT and then hand them to a service. \<open>Process\<close> of the orchestrator asks
  \<open>Rpc\<close> for the attestation and \<open>Querier\<close> for its own confirm, signs with \<open>Evm\<close> and publishes through
  \<open>Dht\<close> under the names of \<open>Keys\<close>. \<open>ProcessAttestation\<close> of the relayer finds the previous valset with
  \<open>Rpc\<close>, or, when it does not answer, in the DHT and compares its digest with the checkpoint of the
  contract, waits for confirms with \<open>Querier\<close>, saves them and calls the contract with \<open>Evm\<close>. \<open>Validators\<close> joins the two sides: what the first
  publishes is accepted, and what the second receives is signed by the address in its key. \<open>Network\<close> composes them: what
  orchestrators with two thirds of the power have published reaches the contract.

  What the lemmas show.

  \<^item> Traces: a nonce is signed at most once, only when an attestation for it is due and not yet signed,
    and what is published is accepted by the validators; the contract is written at most once per
    attestation, last, after the very confirms it is sent were stored; these are of two thirds of the
    previous valset, which is the plain answer of the application when there is one.
  \<^item> Functions: what each poller, query, parser and encoder returns on every branch; round trips of
    the encodings and of the keys; equivalence of the loop that orders signatures and of
    \<open>can_relay\<close> with their specifications.
  \<^item> State machines: the queues are bounded, the nonces queue is first in first out, every failed
    nonce is in one place, and the channels close in order; holders of the lock differ. \<open>Lock\<close> and \<open>Unlock\<close> refine a mutex as long as the processes take turns.
  \<^item> Commands: what is acquired is given back at every exit, but for the libp2p host, and for the store and
    the DHT when no peers were found; a service
    runs only with what it needs; initialising twice changes nothing; configuration files and
    the output of queries read back as what was written; keys are deleted only after
    confirmation. These assume that dialling the application returns (\<open>app_dial_returns\<close>), which
    \<open>grpc.Dial\<close> does without blocking.
  \<^item> Composition: honest confirms of a quorum that are on the network are found, kept under their
    members' keys and sent to the contract in the order of the members, without a wait. The
    laws it needs are those of a lawful key store (\<open>run_laws\<close>); records of others under a member's
    key are what \<open>recased_confirm_not_counted\<close> in \<open>Querier\<close> is about.
  \<^item> Loops: undisturbed, \<open>EnqueueMissingEvents\<close> sends every nonce; waiting ends when the timer or the
    context fires; retries and waits for a transaction are counted.

  Bounds. Loops over \<open>select\<close> that have no bound in the code take the number of rounds that are
  followed and are \<open>Blocked\<close> at the end of it; statements about their results hold for every
  number, and the statements that they return say how many rounds are enough: one more than the
  round at which the timer or the context fires. The historical queries step down from a height and
  need no bound that the environment chooses. Loops over lists are structural.

  Not modelled. The DHT and libp2p, gRPC, tendermint, ethclient, the keystores, badger,
  OpenTelemetry and cobra are libraries. The options given to badger, the build information printed
  by \<open>version\<close>, the key printed by \<open>generate\<close>, the end-to-end tests and the benchmark have no logic of
  their own. Data races are outside the model: goroutines interleave at channel operations.
\<close>

end
